(* ===== verification/Prelude.thy ===== *)
theory Prelude
  imports Main "HOL-Library.Finite_Map" "HOL-Library.Multiset" "HOL-Library.Product_Lexorder"
    "HOL-Library.Monad_Syntax" "HOL-Library.Sublist"
begin

text \<open>
  Prelude of the pglockr development: the part of the Go language and of its standard
  library that several packages of the program share.
  \<^item> 64-bit integers: \<open>wrap64\<close> (two's complement wrap-around), \<open>go_rem\<close> (the
    truncated \<open>%\<close>).
  \<^item> Slices: \<open>idx_get\<close>, \<open>idx_set\<close>; an index out of range is a runtime panic,
    modelled as \<open>None\<close>.
  \<^item> Maps: a Go map is a finite map \<open>('k, 'v) fmap\<close>. A \<open>range\<close> loop visits the
    keys once each in an order the language leaves open, so every such loop takes the
    order as an argument; the locale \<open>map_order\<close> states what the language promises.
  \<^item> \<open>time.Time\<close> and \<open>time.Duration\<close>: an instant is its distance in nanoseconds
    from the Unix epoch, a duration is a 64-bit count of nanoseconds; \<open>time_Sub\<close>
    saturates and \<open>dur_neg\<close> wraps, as in the library.
  \<^item> Generic lemmas on lists and sorting used by the component theories.
\<close>

section \<open>Fact collections\<close>

named_theorems go_simps \<open>evaluation rules for the Go primitives\<close>
named_theorems ring_simps \<open>facts about the snapshot ring\<close>
named_theorems lex_simps \<open>unfolding rules of the redaction lexer\<close>

section \<open>Integers\<close>

text \<open>Go's \<open>int\<close> and \<open>int64\<close> are 64-bit two's complement numbers.\<close>

definition wrap64 :: "int \<Rightarrow> int" where
  "wrap64 x = (x + 2 ^ 63) mod 2 ^ 64 - 2 ^ 63"

abbreviation max_int64 :: int where "max_int64 \<equiv> 2 ^ 63 - 1"
abbreviation min_int64 :: int where "min_int64 \<equiv> - (2 ^ 63)"

definition in_int64 :: "int \<Rightarrow> bool" where
  "in_int64 x \<longleftrightarrow> min_int64 \<le> x \<and> x \<le> max_int64"

text \<open>The remainder of Go truncates the quotient towards zero.\<close>

definition go_rem :: "int \<Rightarrow> int \<Rightarrow> int" where
  "go_rem a b = sgn a * (\<bar>a\<bar> mod \<bar>b\<bar>)"

text \<open>The operator itself: a zero divisor is a runtime panic.\<close>

definition go_mod :: "int \<Rightarrow> int \<Rightarrow> int option" where
  "go_mod a b = (if b = 0 then None else Some (go_rem a b))"

lemma wrap64_id [go_simps]: "in_int64 x \<Longrightarrow> wrap64 x = x"
  by (simp add: in_int64_def wrap64_def)

lemma wrap64_range [simp]: "in_int64 (wrap64 x)"
proof -
  have "0 \<le> (x + 2 ^ 63) mod 2 ^ 64" "(x + 2 ^ 63) mod 2 ^ 64 < 2 ^ 64" by simp_all
  then show ?thesis unfolding in_int64_def wrap64_def by simp
qed

lemma go_rem_nonneg [go_simps]: "0 \<le> a \<Longrightarrow> 0 < b \<Longrightarrow> go_rem a b = a mod b"
  by (cases "a = 0") (simp_all add: go_rem_def)

lemma go_mod_nonneg [go_simps]: "0 \<le> a \<Longrightarrow> 0 < b \<Longrightarrow> go_mod a b = Some (a mod b)"
  by (simp add: go_mod_def go_rem_nonneg)

section \<open>Slices\<close>

definition idx_get :: "'a list \<Rightarrow> int \<Rightarrow> 'a option" where
  "idx_get xs i = (if 0 \<le> i \<and> i < int (length xs) then Some (xs ! nat i) else None)"

definition idx_set :: "'a list \<Rightarrow> int \<Rightarrow> 'a \<Rightarrow> 'a list option" where
  "idx_set xs i v = (if 0 \<le> i \<and> i < int (length xs) then Some (xs[nat i := v]) else None)"

lemma idx_get_ok [go_simps]: "0 \<le> i \<Longrightarrow> i < int (length xs) \<Longrightarrow> idx_get xs i = Some (xs ! nat i)"
  by (simp add: idx_get_def)

lemma idx_set_ok [go_simps]: "0 \<le> i \<Longrightarrow> i < int (length xs) \<Longrightarrow> idx_set xs i v = Some (xs[nat i := v])"
  by (simp add: idx_set_def)

section \<open>Maps and the order of a range loop\<close>

abbreviation map_keys :: "('k, 'v) fmap \<Rightarrow> 'k set" where
  "map_keys m \<equiv> fset (fmdom m)"

text \<open>\<open>len(m)\<close> of a map.\<close>

definition map_len :: "('k, 'v) fmap \<Rightarrow> int" where
  "map_len m = int (fcard (fmdom m))"

lemma map_len_nonneg [simp]: "0 \<le> map_len m"
  by (simp add: map_len_def)

locale map_order =
  fixes ord :: "'k fset \<Rightarrow> 'k list"
  assumes ord_set: "set (ord S) = fset S"
    and ord_distinct: "distinct (ord S)"
begin

lemma ord_mset: "mset (ord S) = mset_set (fset S)"
proof -
  have "mset (ord S) = mset_set (set (ord S))"
    using ord_distinct by (simp add: mset_set_set)
  then show ?thesis by (simp add: ord_set)
qed

lemma ord_length: "length (ord S) = fcard S"
  using ord_distinct [of S] by (metis distinct_card fcard.rep_eq ord_set)

end

text \<open>One order the language may choose: increasing keys.\<close>

definition key_order :: "'k::linorder fset \<Rightarrow> 'k list" where
  "key_order S = sorted_list_of_fset S"

interpretation key_order: map_order key_order
  by unfold_locales (simp_all add: key_order_def sorted_list_of_fset.rep_eq)

text \<open>Another one: decreasing keys. Two orders are enough to see that a result does not
  depend on the order by accident of the model.\<close>

definition rev_key_order :: "'k::linorder fset \<Rightarrow> 'k list" where
  "rev_key_order S = rev (key_order S)"

interpretation rev_key_order: map_order rev_key_order
  by unfold_locales (simp_all add: rev_key_order_def key_order.ord_set key_order.ord_distinct)

lemma key_order_list [simp]: "key_order (fset_of_list xs) = sort (remdups xs)"
  by (simp add: key_order_def sorted_list_of_fset.rep_eq fset_of_list.rep_eq
      sorted_list_of_set_sort_remdups)

lemma key_order_finsert [simp]: "key_order (finsert x S) = insort x (remove1 x (key_order S))"
  by (simp add: key_order_def sorted_list_of_fset.rep_eq sorted_list_of_set_insert_remove
      sorted_list_of_set_remove)

lemma key_order_empty [simp]: "key_order {||} = []"
  by (simp add: key_order_def sorted_list_of_fset.rep_eq)

section \<open>Time\<close>

type_synonym time = int
type_synonym duration = int

text \<open>The zero \<open>time.Time\<close> is January 1, year 1, 00:00:00 UTC.\<close>

definition zero_time :: time where
  "zero_time = -62135596800 * 10 ^ 9"

definition time_IsZero :: "time \<Rightarrow> bool" where
  "time_IsZero t \<longleftrightarrow> t = zero_time"

abbreviation (input) time_Before :: "time \<Rightarrow> time \<Rightarrow> bool" where "time_Before t u \<equiv> t < u"
abbreviation (input) time_After :: "time \<Rightarrow> time \<Rightarrow> bool" where "time_After t u \<equiv> u < t"

text \<open>\<open>t.Sub(u)\<close>: the difference, or the nearest representable duration.\<close>

definition time_Sub :: "time \<Rightarrow> time \<Rightarrow> duration" where
  "time_Sub t u =
     (if in_int64 (t - u) then t - u else if time_Before t u then min_int64 else max_int64)"

text \<open>\<open>-d\<close> on a duration wraps: the least duration is its own negation.\<close>

definition dur_neg :: "duration \<Rightarrow> duration" where
  "dur_neg d = wrap64 (- d)"

text \<open>\<open>t.UnixNano()\<close> and \<open>time.Unix(0, ns)\<close>.\<close>

definition time_UnixNano :: "time \<Rightarrow> int" where
  "time_UnixNano t = wrap64 t"

definition time_Unix0 :: "int \<Rightarrow> time" where
  "time_Unix0 ns = ns"

definition second :: duration where "second = 10 ^ 9"
definition minute :: duration where "minute = 60 * second"
definition hour :: duration where "hour = 60 * minute"

lemma time_Sub_exact [go_simps]: "in_int64 (t - u) \<Longrightarrow> time_Sub t u = t - u"
  by (simp add: time_Sub_def)

lemma time_Sub_range: "in_int64 (time_Sub t u)"
  by (simp add: time_Sub_def in_int64_def)

lemma dur_neg_exact [go_simps]: "in_int64 d \<Longrightarrow> d \<noteq> min_int64 \<Longrightarrow> dur_neg d = - d"
  by (simp add: dur_neg_def in_int64_def wrap64_def)

lemma dur_neg_min: "dur_neg min_int64 = min_int64"
  by (simp add: dur_neg_def wrap64_def)

lemma time_UnixNano_roundtrip [go_simps]: "in_int64 t \<Longrightarrow> time_Unix0 (time_UnixNano t) = t"
  by (simp add: time_Unix0_def time_UnixNano_def wrap64_id)

section \<open>Lists\<close>

text \<open>The last \<open>n\<close> elements of a list.\<close>

definition last_n :: "nat \<Rightarrow> 'a list \<Rightarrow> 'a list" where
  "last_n n xs = drop (length xs - n) xs"

lemma length_last_n [simp]: "length (last_n n xs) = min n (length xs)"
  by (simp add: last_n_def)

lemma last_n_all [simp]: "length xs \<le> n \<Longrightarrow> last_n n xs = xs"
  by (simp add: last_n_def)

lemma last_n_append: "last_n n (last_n n xs @ ys) = last_n n (xs @ ys)"
proof (cases "length xs \<le> n")
  case False
  then have "length ys + (length xs - n) = length xs + length ys - n" by simp
  with False show ?thesis by (simp add: last_n_def add.commute)
qed simp

lemma last_n_snoc: "0 < n \<Longrightarrow> last_n n (last_n n xs @ [x]) = last_n n (xs @ [x])"
  by (cases "length xs \<le> n") (auto simp: last_n_def Suc_diff_le)

lemma last_last_n [simp]: "0 < n \<Longrightarrow> xs \<noteq> [] \<Longrightarrow> last (last_n n xs) = last xs"
  by (simp add: last_n_def)

lemma set_last_n_subset: "set (last_n n xs) \<subseteq> set xs"
  by (simp add: last_n_def set_drop_subset)

lemma last_n_Nil_iff [simp]: "last_n n xs = [] \<longleftrightarrow> n = 0 \<or> xs = []"
  by (cases xs) (auto simp: last_n_def)

lemma rev_last_n: "rev (last_n n xs) = take n (rev xs)"
  by (simp add: last_n_def take_rev)

text \<open>Two permutations that a key sorts agree when the key tells their elements apart.\<close>

lemma sorted_key_unique:
  fixes f :: "'a \<Rightarrow> 'b::linorder"
  assumes "mset xs = mset ys" "sorted (map f xs)" "sorted (map f ys)" "inj_on f (set xs)"
  shows "xs = ys"
proof -
  have "mset (map f xs) = mset (map f ys)" using assms(1) by simp
  then have "map f xs = map f ys"
    using assms(2,3) by (metis properties_for_sort)
  moreover have "set ys = set xs" using assms(1) by (metis set_mset_mset)
  ultimately show ?thesis using assms(4) by (metis inj_on_map_eq_map sup.idem)
qed

end
