(* ===== verification/Graph.thy ===== *)
theory Graph
  imports Prelude
begin

text \<open>
  Package \<open>internal/graph\<close>: the wait-for forest and its builder.
  Types of \<open>types.go\<close> (\<open>session\<close>, \<open>edge\<close>, \<open>edge_key\<close>, \<open>snapshot\<close>), the lock
  label and the function \<open>Build\<close> of \<open>builder.go\<close>. The two \<open>range\<close> loops of
  \<open>Build\<close> take the order in which the runtime visits the keys; the lemmas show that
  no part of the snapshot depends on it.
\<close>

section \<open>Types\<close>

record session =
  sess_PID :: int
  sess_User :: string
  sess_AppName :: string
  sess_ClientAddr :: string
  sess_State :: string
  sess_WaitEventType :: string
  sess_WaitEvent :: string
  sess_BackendType :: string
  sess_XactStart :: time
  sess_QueryStart :: time
  sess_WaitStart :: time
  sess_Query :: string
  sess_BlockedBy :: "int list"
  sess_IsRoot :: bool

record edge =
  edge_WaiterPID :: int
  edge_BlockerPID :: int
  edge_LockType :: string
  edge_Relation :: string
  edge_WaiterMode :: string
  edge_BlockerMode :: string

datatype edge_key = EdgeKey (key_WaiterPID: int) (key_BlockerPID: int)

record lock_label =
  lbl_LockType :: string
  lbl_Relation :: string
  lbl_WaiterMode :: string
  lbl_BlockerMode :: string

type_synonym sessions = "(int, session) fmap"
type_synonym labels = "(edge_key, lock_label) fmap"

record snapshot =
  snap_Cluster :: string
  snap_TakenAt :: time
  snap_Sessions :: sessions
  snap_Edges :: "edge list"
  snap_Roots :: "int list"

text \<open>The zero values of the two structs.\<close>

definition zero_session :: session where
  "zero_session = \<lparr>sess_PID = 0, sess_User = '''', sess_AppName = '''', sess_ClientAddr = '''',
     sess_State = '''', sess_WaitEventType = '''', sess_WaitEvent = '''', sess_BackendType = '''',
     sess_XactStart = zero_time, sess_QueryStart = zero_time, sess_WaitStart = zero_time,
     sess_Query = '''', sess_BlockedBy = [], sess_IsRoot = False\<rparr>"

definition zero_snapshot :: snapshot where
  "zero_snapshot = \<lparr>snap_Cluster = '''', snap_TakenAt = zero_time, snap_Sessions = fmempty,
     snap_Edges = [], snap_Roots = []\<rparr>"

text \<open>The order of the comparison function that \<open>Build\<close> hands to \<open>sort.Slice\<close>:
  by waiter, then by blocker.\<close>

instantiation edge_key :: linorder
begin

definition less_edge_key :: "edge_key \<Rightarrow> edge_key \<Rightarrow> bool" where
  "less_edge_key a b \<longleftrightarrow>
     (if key_WaiterPID a \<noteq> key_WaiterPID b then key_WaiterPID a < key_WaiterPID b
      else key_BlockerPID a < key_BlockerPID b)"

definition less_eq_edge_key :: "edge_key \<Rightarrow> edge_key \<Rightarrow> bool" where
  "less_eq_edge_key a b \<longleftrightarrow> a < b \<or> a = b"

instance
  by standard
    (auto simp: less_edge_key_def less_eq_edge_key_def intro: edge_key.expand split: if_splits)

end

definition edge_sort_key :: "edge \<Rightarrow> edge_key" where
  "edge_sort_key e = EdgeKey (edge_WaiterPID e) (edge_BlockerPID e)"

section \<open>The builder\<close>

text \<open>One edge, with its label when the labels query has one for this pair.\<close>

definition mk_edge :: "labels \<Rightarrow> int \<Rightarrow> int \<Rightarrow> edge" where
  "mk_edge labels pid blocker =
     (case fmlookup labels (EdgeKey pid blocker) of
        Some l \<Rightarrow> \<lparr>edge_WaiterPID = pid, edge_BlockerPID = blocker,
                   edge_LockType = lbl_LockType l, edge_Relation = lbl_Relation l,
                   edge_WaiterMode = lbl_WaiterMode l, edge_BlockerMode = lbl_BlockerMode l\<rparr>
      | None \<Rightarrow> \<lparr>edge_WaiterPID = pid, edge_BlockerPID = blocker, edge_LockType = '''',
                 edge_Relation = '''', edge_WaiterMode = '''', edge_BlockerMode = ''''\<rparr>)"

text \<open>The inner loop over \<open>s.BlockedBy\<close> and the outer loop over the sessions.\<close>

primrec scan_blockers ::
  "labels \<Rightarrow> int \<Rightarrow> int list \<Rightarrow> edge list \<Rightarrow> (int, bool) fmap \<Rightarrow> edge list \<times> (int, bool) fmap" where
  "scan_blockers labels pid [] edges isBlocker = (edges, isBlocker)"
| "scan_blockers labels pid (blocker # bs) edges isBlocker =
     scan_blockers labels pid bs (edges @ [mk_edge labels pid blocker]) (fmupd blocker True isBlocker)"

primrec scan_sessions ::
  "labels \<Rightarrow> sessions \<Rightarrow> int list \<Rightarrow> edge list \<Rightarrow> (int, bool) fmap \<Rightarrow> edge list \<times> (int, bool) fmap" where
  "scan_sessions labels sessions [] edges isBlocker = (edges, isBlocker)"
| "scan_sessions labels sessions (pid # pids) edges isBlocker =
     (case fmlookup sessions pid of
        None \<Rightarrow> scan_sessions labels sessions pids edges isBlocker
      | Some s \<Rightarrow>
          (case scan_blockers labels pid (sess_BlockedBy s) edges isBlocker of
             (edges', isBlocker') \<Rightarrow> scan_sessions labels sessions pids edges' isBlocker'))"

text \<open>The loop over \<open>isBlocker\<close>: flag and collect the head blockers.\<close>

primrec mark_roots :: "int list \<Rightarrow> sessions \<Rightarrow> int list \<Rightarrow> sessions \<times> int list" where
  "mark_roots [] sessions roots = (sessions, roots)"
| "mark_roots (pid # pids) sessions roots =
     (case fmlookup sessions pid of
        None \<Rightarrow> mark_roots pids sessions roots
      | Some s \<Rightarrow>
          if sess_BlockedBy s = []
          then mark_roots pids (fmupd pid (s\<lparr>sess_IsRoot := True\<rparr>) sessions) (roots @ [pid])
          else mark_roots pids sessions roots)"

definition Build ::
  "(int fset \<Rightarrow> int list) \<Rightarrow> (int fset \<Rightarrow> int list) \<Rightarrow> string \<Rightarrow> time \<Rightarrow> sessions \<Rightarrow> labels \<Rightarrow> snapshot" where
  "Build ordS ordB cluster takenAt sessions labels =
     (case scan_sessions labels sessions (ordS (fmdom sessions)) [] fmempty of
        (edges, isBlocker) \<Rightarrow>
          (case mark_roots (ordB (fmdom isBlocker)) sessions [] of
             (sessions', roots) \<Rightarrow>
               \<lparr>snap_Cluster = cluster, snap_TakenAt = takenAt, snap_Sessions = sessions',
                snap_Edges = sort_key edge_sort_key edges, snap_Roots = sort roots\<rparr>))"

section \<open>What the loops compute\<close>

definition blockers_of :: "sessions \<Rightarrow> int \<Rightarrow> int list" where
  "blockers_of sessions pid =
     (case fmlookup sessions pid of None \<Rightarrow> [] | Some s \<Rightarrow> sess_BlockedBy s)"

text \<open>\<open>waits_for ss w b\<close>: the session \<open>w\<close> reports \<open>b\<close> among its blockers.\<close>

definition waits_for :: "sessions \<Rightarrow> int \<Rightarrow> int \<Rightarrow> bool" where
  "waits_for sessions w b \<longleftrightarrow> b \<in> set (blockers_of sessions w)"

text \<open>A head blocker: known, waits for nobody, and somebody waits for it.\<close>

definition head_blocker :: "sessions \<Rightarrow> int \<Rightarrow> bool" where
  "head_blocker sessions p \<longleftrightarrow>
     p \<in> map_keys sessions \<and> blockers_of sessions p = [] \<and> (\<exists>w. waits_for sessions w p)"

definition session_edges :: "labels \<Rightarrow> sessions \<Rightarrow> int \<Rightarrow> edge list" where
  "session_edges labels sessions pid = map (mk_edge labels pid) (blockers_of sessions pid)"

lemma mk_edge_pids [simp]:
  "edge_WaiterPID (mk_edge labels w b) = w" "edge_BlockerPID (mk_edge labels w b) = b"
  by (simp_all add: mk_edge_def split: option.splits)

lemma edge_sort_key_mk_edge [simp]: "edge_sort_key (mk_edge labels w b) = EdgeKey w b"
  by (simp add: edge_sort_key_def)

lemma scan_blockers_eq:
  "scan_blockers labels pid bs edges isB =
     (edges @ map (mk_edge labels pid) bs, fold (\<lambda>b. fmupd b True) bs isB)"
  by (induction bs arbitrary: edges isB) simp_all

lemma fmdom_fold_upd: "fmdom (fold (\<lambda>b. fmupd b v) bs m) = fset_of_list bs |\<union>| fmdom m"
  by (induction bs arbitrary: m) (auto simp: fset_of_list_elem)

lemma scan_sessions_edges:
  "fst (scan_sessions labels sessions pids edges isB) =
     edges @ concat (map (session_edges labels sessions) pids)"
  by (induction pids arbitrary: edges isB)
    (auto simp: session_edges_def blockers_of_def scan_blockers_eq split: option.splits)

lemma scan_sessions_blockers:
  "map_keys (snd (scan_sessions labels sessions pids edges isB)) =
     map_keys isB \<union> (\<Union>pid \<in> set pids. set (blockers_of sessions pid))"
  by (induction pids arbitrary: edges isB)
    (auto simp: blockers_of_def scan_blockers_eq fmdom_fold_upd fset_of_list.rep_eq
      split: option.splits)

lemma mark_roots_roots:
  "distinct pids \<Longrightarrow>
   snd (mark_roots pids sessions roots) =
     roots @ filter (\<lambda>p. p \<in> map_keys sessions \<and> blockers_of sessions p = []) pids"
proof (induction pids arbitrary: sessions roots)
  case Nil
  then show ?case by simp
next
  case (Cons pid pids)
  have unchanged: "filter (\<lambda>p. p \<in> map_keys (fmupd pid s sessions) \<and>
        blockers_of (fmupd pid s sessions) p = []) pids =
      filter (\<lambda>p. p \<in> map_keys sessions \<and> blockers_of sessions p = []) pids" for s
    using Cons.prems by (intro filter_cong) (auto simp: blockers_of_def)
  show ?case
  proof (cases "fmlookup sessions pid")
    case None
    then show ?thesis using Cons by (auto dest: fmdom_notI)
  next
    case (Some s)
    then have "pid \<in> map_keys sessions" by (blast intro: fmdomI)
    with Some Cons unchanged [of "s\<lparr>sess_IsRoot := True\<rparr>"] show ?thesis
      by (simp add: blockers_of_def)
  qed
qed

lemma mark_roots_sessions:
  "fmlookup (fst (mark_roots pids sessions roots)) p =
     map_option (\<lambda>s. if p \<in> set pids \<and> sess_BlockedBy s = [] then s\<lparr>sess_IsRoot := True\<rparr> else s)
       (fmlookup sessions p)"
proof (induction pids arbitrary: sessions roots)
  case Nil
  then show ?case by (simp add: option.map_ident)
next
  case (Cons pid pids)
  then show ?case by (cases "fmlookup sessions p"; cases "pid = p") (auto split: option.splits)
qed

section \<open>The snapshot as a function of the input alone\<close>

lemma Build_fields [simp]:
  "snap_Cluster (Build oS oB cluster takenAt sessions labels) = cluster"
  "snap_TakenAt (Build oS oB cluster takenAt sessions labels) = takenAt"
  by (simp_all add: Build_def case_prod_unfold)

lemma Build_Edges:
  "snap_Edges (Build oS oB cluster takenAt sessions labels) =
     sort_key edge_sort_key (concat (map (session_edges labels sessions) (oS (fmdom sessions))))"
  by (simp add: Build_def case_prod_unfold scan_sessions_edges)

lemma Build_marked:
  "\<exists>isB :: (int, bool) fmap. map_keys isB = (\<Union>pid \<in> set (oS (fmdom sessions)). set (blockers_of sessions pid)) \<and>
     snap_Sessions (Build oS oB cluster takenAt sessions labels) =
       fst (mark_roots (oB (fmdom isB)) sessions []) \<and>
     snap_Roots (Build oS oB cluster takenAt sessions labels) =
       sort (snd (mark_roots (oB (fmdom isB)) sessions []))"
  by (rule exI [of _ "snd (scan_sessions labels sessions (oS (fmdom sessions)) [] fmempty)"])
    (simp add: Build_def case_prod_unfold scan_sessions_blockers)

lemma blocked_keys:
  "(\<Union>pid \<in> map_keys sessions. set (blockers_of sessions pid)) = {p. \<exists>w. waits_for sessions w p}"
  by (auto simp: waits_for_def blockers_of_def split: option.splits) (metis fmdomI)

lemma finite_head_blockers [simp]: "finite {p. head_blocker sessions p}"
  by (rule finite_subset [of _ "map_keys sessions"]) (auto simp: head_blocker_def)

lemma set_sorted_unique:
  assumes "sorted xs" "distinct xs" "finite A" "set xs = A"
  shows "xs = sorted_list_of_set A"
  using assms by (simp add: sorted_distinct_set_unique)

lemma Build_Roots:
  assumes "map_order oS" "map_order oB"
  shows "snap_Roots (Build oS oB cluster takenAt sessions labels) =
    sorted_list_of_set {p. head_blocker sessions p}"
proof -
  obtain isB :: "(int, bool) fmap" where keys: "map_keys isB = (\<Union>pid \<in> set (oS (fmdom sessions)). set (blockers_of sessions pid))"
    and roots: "snap_Roots (Build oS oB cluster takenAt sessions labels) =
      sort (snd (mark_roots (oB (fmdom isB)) sessions []))"
    using Build_marked [of sessions oS oB cluster takenAt labels] by metis
  have d: "distinct (oB (fmdom isB))" and s: "set (oB (fmdom isB)) = {p. \<exists>w. waits_for sessions w p}"
    by (simp_all only: map_order.ord_distinct [OF assms(2)] map_order.ord_set [OF assms(2)]
        map_order.ord_set [OF assms(1)] keys blocked_keys)
  have "{p \<in> set (oB (fmdom isB)). p \<in> map_keys sessions \<and> blockers_of sessions p = []} =
      {p. head_blocker sessions p}"
    unfolding s head_blocker_def by blast
  with d show ?thesis
    unfolding roots mark_roots_roots [OF d]
    by (intro set_sorted_unique) simp_all
qed

lemma Build_Sessions:
  assumes "map_order oS" "map_order oB"
  shows "fmlookup (snap_Sessions (Build oS oB cluster takenAt sessions labels)) p =
    map_option (\<lambda>s. if head_blocker sessions p then s\<lparr>sess_IsRoot := True\<rparr> else s) (fmlookup sessions p)"
proof -
  obtain isB :: "(int, bool) fmap" where keys: "map_keys isB = (\<Union>pid \<in> set (oS (fmdom sessions)). set (blockers_of sessions pid))"
    and sess: "snap_Sessions (Build oS oB cluster takenAt sessions labels) =
      fst (mark_roots (oB (fmdom isB)) sessions [])"
    using Build_marked [of sessions oS oB cluster takenAt labels] by metis
  have s: "set (oB (fmdom isB)) = {p. \<exists>w. waits_for sessions w p}"
    by (simp only: map_order.ord_set [OF assms(2)] map_order.ord_set [OF assms(1)] keys blocked_keys)
  show ?thesis
  proof (cases "fmlookup sessions p")
    case None
    then show ?thesis by (simp add: sess mark_roots_sessions)
  next
    case (Some s')
    then have "p \<in> map_keys sessions" and "blockers_of sessions p = sess_BlockedBy s'"
      by (auto intro: fmdomI simp: blockers_of_def)
    with Some s show ?thesis by (simp add: sess mark_roots_sessions head_blocker_def conj_commute)
  qed
qed

lemma edges_mset_order:
  assumes "map_order o1" "map_order o2"
  shows "mset (concat (map f (o1 S))) = mset (concat (map f (o2 S)))"
proof -
  have "mset (o1 S) = mset (o2 S)" using assms by (simp add: map_order.ord_mset)
  then have "mset (map (mset \<circ> f) (o1 S)) = mset (map (mset \<circ> f) (o2 S))"
    by (simp only: mset_map)
  then have "sum_list (map (mset \<circ> f) (o1 S)) = sum_list (map (mset \<circ> f) (o2 S))"
    by (metis sum_mset_sum_list)
  then show ?thesis by (simp add: mset_concat comp_def)
qed

text \<open>Edges with the same endpoints are equal: the label is a function of the pair.\<close>

lemma session_edges_key_inj:
  "inj_on edge_sort_key (set (concat (map (session_edges labels sessions) pids)))"
  by (auto simp: inj_on_def session_edges_def)

lemma waits_for_keys: "waits_for sessions w b \<Longrightarrow> w \<in> map_keys sessions"
  by (cases "fmlookup sessions w") (auto simp: waits_for_def blockers_of_def intro: fmdomI)

lemma set_Build_Edges:
  assumes "map_order oS"
  shows "set (snap_Edges (Build oS oB cluster takenAt sessions labels)) =
    {mk_edge labels w b | w b. waits_for sessions w b}"
proof -
  have "set (snap_Edges (Build oS oB cluster takenAt sessions labels)) =
      (\<Union>w \<in> map_keys sessions. {mk_edge labels w b | b. waits_for sessions w b})"
    by (auto simp: Build_Edges map_order.ord_set [OF assms] session_edges_def waits_for_def)
  also have "\<dots> = {mk_edge labels w b | w b. waits_for sessions w b}"
    using waits_for_keys [of sessions] by blast
  finally show ?thesis .
qed

text \<open>The wait-for relation as a set of pairs, for the statements about paths.\<close>

definition wait_rel :: "sessions \<Rightarrow> (int \<times> int) set" where
  "wait_rel sessions = {(w, b). waits_for sessions w b}"

lemma finite_wait_rel: "finite (wait_rel sessions)"
proof (rule finite_subset)
  show "wait_rel sessions \<subseteq> (SIGMA w : map_keys sessions. set (blockers_of sessions w))"
    by (auto simp: wait_rel_def waits_for_keys) (simp add: waits_for_def)
qed simp

lemma waiter_reaches_head:
  assumes acyclic: "acyclic (wait_rel sessions)"
    and closed: "\<forall>w b. waits_for sessions w b \<longrightarrow> b \<in> map_keys sessions"
    and blocked: "waits_for sessions w b"
  shows "\<exists>r. head_blocker sessions r \<and> (w, r) \<in> (wait_rel sessions)\<^sup>+"
proof -
  have "wf ((wait_rel sessions)\<inverse>)"
    using acyclic by (rule finite_acyclic_wf_converse [OF finite_wait_rel])
  then show ?thesis using blocked
  proof (induction w arbitrary: b rule: wf_induct_rule)
    case (less w)
    then have step: "(w, b) \<in> wait_rel sessions" by (simp add: wait_rel_def)
    show ?case
    proof (cases "blockers_of sessions b = []")
      case True
      with less.prems closed have "head_blocker sessions b" by (auto simp: head_blocker_def)
      with step show ?thesis by blast
    next
      case False
      then obtain c where "waits_for sessions b c"
        by (auto simp: waits_for_def) (metis list.set_intros(1) neq_Nil_conv)
      with step less.IH obtain r where "head_blocker sessions r" "(b, r) \<in> (wait_rel sessions)\<^sup>+"
        by blast
      with step show ?thesis by (blast intro: trancl_into_trancl2)
    qed
  qed
qed

section \<open>Properties\<close>

text \<open>C32: \<open>Build\<close> is deterministic. Whatever order the runtime gives its two
  \<open>range\<close> loops, the snapshot is the same: same edges in the same order, same roots,
  same sessions.\<close>

theorem Build_deterministic:
  assumes "map_order oS" "map_order oB" "map_order oS'" "map_order oB'"
  shows "Build oS oB cluster takenAt sessions labels = Build oS' oB' cluster takenAt sessions labels"
proof -
  let ?b = "Build oS oB cluster takenAt sessions labels"
  let ?b' = "Build oS' oB' cluster takenAt sessions labels"
  have "snap_Edges ?b = snap_Edges ?b'"
    unfolding Build_Edges
    by (rule sorted_key_unique [where f = edge_sort_key])
      (simp_all add: edges_mset_order [OF assms(1,3)] session_edges_key_inj del: set_concat)
  moreover have "snap_Roots ?b = snap_Roots ?b'" using assms by (simp add: Build_Roots)
  moreover have "snap_Sessions ?b = snap_Sessions ?b'"
    by (rule fmap_ext) (simp add: Build_Sessions assms)
  ultimately show ?thesis by simp
qed

definition demo_sessions :: sessions where
  "demo_sessions = fmap_of_list
     [(100, zero_session\<lparr>sess_PID := 100\<rparr>),
      (200, zero_session\<lparr>sess_PID := 200, sess_BlockedBy := [100]\<rparr>),
      (300, zero_session\<lparr>sess_PID := 300, sess_BlockedBy := [200, 100]\<rparr>)]"

theorem Build_deterministic_witness:
  "Build key_order rev_key_order ''c1'' 0 demo_sessions fmempty =
   Build rev_key_order key_order ''c1'' 0 demo_sessions fmempty"
  by (rule Build_deterministic)
    (rule key_order.map_order_axioms rev_key_order.map_order_axioms)+

text \<open>C12: the edges of the snapshot are exactly the confirmed (waiter, blocker) pairs:
  one edge per entry of a session's \<open>BlockedBy\<close>, sorted by waiter and blocker. The lock type, the
  relation and the two modes of an edge are those of the label the labels query has for its own
  pair, field by field, and empty when it has none. A label for a pair that is not confirmed
  never makes an edge.\<close>

theorem Build_edges_exact:
  assumes "map_order oS" "edges = snap_Edges (Build oS oB cluster takenAt sessions labels)"
  shows "(\<lambda>e. (edge_WaiterPID e, edge_BlockerPID e)) ` set edges = {(w, b). waits_for sessions w b} \<and>
    (\<forall>e \<in> set edges. case fmlookup labels (EdgeKey (edge_WaiterPID e) (edge_BlockerPID e)) of
       Some l \<Rightarrow> edge_LockType e = lbl_LockType l \<and> edge_Relation e = lbl_Relation l \<and>
                 edge_WaiterMode e = lbl_WaiterMode l \<and> edge_BlockerMode e = lbl_BlockerMode l
     | None \<Rightarrow> edge_LockType e = '''' \<and> edge_Relation e = '''' \<and> edge_WaiterMode e = '''' \<and> edge_BlockerMode e = '''') \<and>
    sorted_wrt (\<lambda>e f. edge_WaiterPID e < edge_WaiterPID f \<or>
      edge_WaiterPID e = edge_WaiterPID f \<and> edge_BlockerPID e \<le> edge_BlockerPID f) edges \<and>
    length edges = (\<Sum>w \<in> map_keys sessions. length (blockers_of sessions w))"
proof (intro conjI)
  have pair: "(edge_WaiterPID (mk_edge labels w b), edge_BlockerPID (mk_edge labels w b)) = (w, b)" for w b
    by (simp add: mk_edge_def split: option.splits)
  have edges: "set edges = {mk_edge labels w b | w b. waits_for sessions w b}"
    unfolding assms(2) by (rule set_Build_Edges [OF assms(1)])
  show "(\<lambda>e. (edge_WaiterPID e, edge_BlockerPID e)) ` set edges = {(w, b). waits_for sessions w b}"
    unfolding edges by (force simp: pair image_iff)
  show "\<forall>e \<in> set edges. case fmlookup labels (EdgeKey (edge_WaiterPID e) (edge_BlockerPID e)) of
       Some l \<Rightarrow> edge_LockType e = lbl_LockType l \<and> edge_Relation e = lbl_Relation l \<and>
                 edge_WaiterMode e = lbl_WaiterMode l \<and> edge_BlockerMode e = lbl_BlockerMode l
     | None \<Rightarrow> edge_LockType e = '''' \<and> edge_Relation e = '''' \<and> edge_WaiterMode e = '''' \<and> edge_BlockerMode e = ''''"
    unfolding edges by (auto simp: mk_edge_def split: option.splits)
  have "sorted (map edge_sort_key edges)" unfolding assms(2) by (simp add: Build_Edges)
  then show "sorted_wrt (\<lambda>e f. edge_WaiterPID e < edge_WaiterPID f \<or>
      edge_WaiterPID e = edge_WaiterPID f \<and> edge_BlockerPID e \<le> edge_BlockerPID f) edges"
    unfolding sorted_wrt_map by (rule sorted_wrt_mono_rel [rotated]) (auto simp: edge_sort_key_def less_eq_edge_key_def less_edge_key_def split: if_splits)
  have "sum_list (map f (oS (fmdom sessions))) = sum f (map_keys sessions)" for f :: "int \<Rightarrow> nat"
    using map_order.ord_distinct [OF assms(1)] map_order.ord_set [OF assms(1)]
    by (metis sum_list_distinct_conv_sum_set)
  then show "length edges = (\<Sum>w \<in> map_keys sessions. length (blockers_of sessions w))"
    unfolding assms(2) by (simp add: Build_Edges length_concat comp_def session_edges_def)
qed

definition demo_labels :: labels where
  "demo_labels = fmap_of_list
     [(EdgeKey 200 100, \<lparr>lbl_LockType = ''relation'', lbl_Relation = ''t'', lbl_WaiterMode = ''ShareLock'', lbl_BlockerMode = ''RowExclusiveLock''\<rparr>)]"

theorem Build_edges_exact_witness:
  "\<exists>e \<in> set (snap_Edges (Build key_order key_order ''c1'' 0 demo_sessions demo_labels)).
     edge_WaiterPID e = 200 \<and> edge_BlockerPID e = 100 \<and> edge_LockType e = ''relation'' \<and> edge_Relation e = ''t'' \<and>
     edge_WaiterMode e = ''ShareLock'' \<and> edge_BlockerMode e = ''RowExclusiveLock''"
proof -
  note exact = Build_edges_exact [OF key_order.map_order_axioms refl, of key_order "''c1''" 0 demo_sessions demo_labels]
  have "waits_for demo_sessions 200 100" by (simp add: waits_for_def blockers_of_def demo_sessions_def)
  then have "(200, 100) \<in> (\<lambda>e. (edge_WaiterPID e, edge_BlockerPID e)) `
      set (snap_Edges (Build key_order key_order ''c1'' 0 demo_sessions demo_labels))"
    unfolding conjunct1 [OF exact] by simp
  then obtain e where e: "e \<in> set (snap_Edges (Build key_order key_order ''c1'' 0 demo_sessions demo_labels))"
    "edge_WaiterPID e = 200" "edge_BlockerPID e = 100" by auto
  from bspec [OF conjunct1 [OF conjunct2 [OF exact]] e(1)] show ?thesis
    by (intro bexI [OF _ e(1)]) (simp add: e(2,3) demo_labels_def)
qed

text \<open>C13: \<open>Roots\<close> lists, in increasing order and without repetition, exactly the head
  blockers: the sessions that wait for nobody and for which somebody waits. The flag
  \<open>IsRoot\<close> is set on exactly these; every session keeps its other fields.\<close>

theorem Build_roots_exact:
  assumes "map_order oS" "map_order oB"
    and "\<And>p s. fmlookup sessions p = Some s \<Longrightarrow> \<not> sess_IsRoot s"
  shows "snap_Roots (Build oS oB cluster takenAt sessions labels) =
      sorted_list_of_set {p. head_blocker sessions p} \<and>
    fmlookup (snap_Sessions (Build oS oB cluster takenAt sessions labels)) p =
      map_option (\<lambda>s. s\<lparr>sess_IsRoot := head_blocker sessions p\<rparr>) (fmlookup sessions p)"
proof (intro conjI)
  show "snap_Roots (Build oS oB cluster takenAt sessions labels) =
      sorted_list_of_set {p. head_blocker sessions p}"
    using assms(1,2) by (rule Build_Roots)
  show "fmlookup (snap_Sessions (Build oS oB cluster takenAt sessions labels)) p =
      map_option (\<lambda>s. s\<lparr>sess_IsRoot := head_blocker sessions p\<rparr>) (fmlookup sessions p)"
    using assms(3) [of p]
    by (cases "fmlookup sessions p") (simp_all add: Build_Sessions [OF assms(1,2)])
qed

lemma demo_sessions_flags: "fmlookup demo_sessions p = Some s \<Longrightarrow> \<not> sess_IsRoot s"
  by (auto simp: demo_sessions_def zero_session_def split: if_splits)

theorem Build_roots_exact_witness:
  "snap_Roots (Build key_order key_order ''c1'' 0 demo_sessions fmempty) = [100] \<and>
   snap_Roots (Build key_order key_order ''c1'' 0 demo_sessions fmempty) =
     sorted_list_of_set {p. head_blocker demo_sessions p} \<and>
   fmlookup (snap_Sessions (Build key_order key_order ''c1'' 0 demo_sessions fmempty)) 100 =
     map_option (\<lambda>s. s\<lparr>sess_IsRoot := head_blocker demo_sessions 100\<rparr>) (fmlookup demo_sessions 100)"
proof
  show "snap_Roots (Build key_order key_order ''c1'' 0 demo_sessions fmempty) = [100]"
    by (simp add: Build_def demo_sessions_def zero_session_def)
qed (rule Build_roots_exact [OF key_order.map_order_axioms key_order.map_order_axioms demo_sessions_flags])

text \<open>C33: the forest has a root for every waiter. When the wait-for relation has no cycle
  and every blocker is a known session, each blocked session reaches some head blocker of
  \<open>Roots\<close> by following the edges of the snapshot.\<close>

theorem Build_waiter_has_root:
  assumes "map_order oS" "map_order oB"
    and "acyclic (wait_rel sessions)"
    and "\<forall>w b. waits_for sessions w b \<longrightarrow> b \<in> map_keys sessions"
    and "e \<in> set (snap_Edges (Build oS oB cluster takenAt sessions labels))"
  shows "\<exists>r \<in> set (snap_Roots (Build oS oB cluster takenAt sessions labels)).
    (edge_WaiterPID e, r) \<in>
      {(edge_WaiterPID f, edge_BlockerPID f) | f.
        f \<in> set (snap_Edges (Build oS oB cluster takenAt sessions labels))}\<^sup>+"
proof -
  have rel: "{(edge_WaiterPID f, edge_BlockerPID f) | f.
      f \<in> set (snap_Edges (Build oS oB cluster takenAt sessions labels))} = wait_rel sessions"
    by (auto simp: set_Build_Edges [OF assms(1)] wait_rel_def)
      (metis mk_edge_pids)
  from assms(5) obtain b where "waits_for sessions (edge_WaiterPID e) b"
    by (auto simp: set_Build_Edges [OF assms(1)])
  then obtain r where "head_blocker sessions r" "(edge_WaiterPID e, r) \<in> (wait_rel sessions)\<^sup>+"
    using waiter_reaches_head [OF assms(3,4)] by blast
  then show ?thesis unfolding rel by (auto simp: Build_Roots [OF assms(1,2)])
qed

lemma demo_waits: "waits_for demo_sessions w b \<longleftrightarrow> (w, b) \<in> {(200, 100), (300, 200), (300, 100)}"
  by (auto simp: waits_for_def blockers_of_def demo_sessions_def zero_session_def
      split: option.splits if_splits)

lemma demo_acyclic: "acyclic (wait_rel demo_sessions)"
proof (rule acyclicI_order)
  show "b < a" if "(a, b) \<in> wait_rel demo_sessions" for a b
    using that by (auto simp: wait_rel_def demo_waits)
qed

theorem Build_waiter_has_root_witness:
  "\<exists>r \<in> set (snap_Roots (Build key_order key_order ''c1'' 0 demo_sessions fmempty)).
    (edge_WaiterPID (mk_edge fmempty 300 200), r) \<in>
      {(edge_WaiterPID f, edge_BlockerPID f) | f.
        f \<in> set (snap_Edges (Build key_order key_order ''c1'' 0 demo_sessions fmempty))}\<^sup>+"
proof (rule Build_waiter_has_root [OF key_order.map_order_axioms key_order.map_order_axioms demo_acyclic])
  have "map_keys demo_sessions = {100, 200, 300}" by (simp add: demo_sessions_def)
  then show "\<forall>w b. waits_for demo_sessions w b \<longrightarrow> b \<in> map_keys demo_sessions"
    by (auto simp: demo_waits)
  show "mk_edge fmempty 300 200 \<in>
      set (snap_Edges (Build key_order key_order ''c1'' 0 demo_sessions fmempty))"
    by (auto simp: set_Build_Edges [OF key_order.map_order_axioms] demo_waits)
qed

end
