(* ===== verification/Diff.thy ===== *)
theory Diff
  imports Graph
begin

text \<open>
  Package \<open>internal/store\<close>, \<open>diff.go\<close>: how the set of sessions changed between two
  snapshots. The property shows that the three lists of \<open>DiffSnapshots\<close> are what an
  incremental view needs: a session in none of them looks the same in both snapshots.
\<close>

record diff =
  diff_Added :: "int list"
  diff_Removed :: "int list"
  diff_Changed :: "int list"

text \<open>The loop of \<open>equalInts\<close> stops at the first difference.\<close>

fun equal_from :: "int list \<Rightarrow> int list \<Rightarrow> nat \<Rightarrow> nat \<Rightarrow> bool" where
  "equal_from a b i 0 = True"
| "equal_from a b i (Suc n) = (if a ! i \<noteq> b ! i then False else equal_from a b (Suc i) n)"

definition equalInts :: "int list \<Rightarrow> int list \<Rightarrow> bool" where
  "equalInts a b = (if length a \<noteq> length b then False else equal_from a b 0 (length a))"

definition sessionChanged :: "session \<Rightarrow> session \<Rightarrow> bool" where
  "sessionChanged a b =
     (if sess_State a \<noteq> sess_State b \<or> sess_WaitEvent a \<noteq> sess_WaitEvent b \<or>
         sess_WaitEventType a \<noteq> sess_WaitEventType b \<or> sess_IsRoot a \<noteq> sess_IsRoot b \<or>
         sess_Query a \<noteq> sess_Query b
      then True else \<not> equalInts (sess_BlockedBy a) (sess_BlockedBy b))"

text \<open>The two loops, each over the keys in the order the runtime gives them.\<close>

primrec diff_added :: "sessions \<Rightarrow> int list \<Rightarrow> diff \<Rightarrow> diff" where
  "diff_added prev [] d = d"
| "diff_added prev (pid # pids) d =
     diff_added prev pids
       (case fmlookup prev pid of
          None \<Rightarrow> d\<lparr>diff_Added := diff_Added d @ [pid]\<rparr>
        | Some _ \<Rightarrow> d)"

primrec diff_removed_changed :: "sessions \<Rightarrow> sessions \<Rightarrow> int list \<Rightarrow> diff \<Rightarrow> diff" where
  "diff_removed_changed prev cur [] d = d"
| "diff_removed_changed prev cur (pid # pids) d =
     diff_removed_changed prev cur pids
       (case fmlookup prev pid of
          None \<Rightarrow> d
        | Some ps \<Rightarrow>
            (case fmlookup cur pid of
               None \<Rightarrow> d\<lparr>diff_Removed := diff_Removed d @ [pid]\<rparr>
             | Some cs \<Rightarrow>
                 if sessionChanged ps cs then d\<lparr>diff_Changed := diff_Changed d @ [pid]\<rparr> else d))"

definition DiffSnapshots ::
  "(int fset \<Rightarrow> int list) \<Rightarrow> (int fset \<Rightarrow> int list) \<Rightarrow> snapshot \<Rightarrow> snapshot \<Rightarrow> diff" where
  "DiffSnapshots ordC ordP prev cur =
     diff_removed_changed (snap_Sessions prev) (snap_Sessions cur) (ordP (fmdom (snap_Sessions prev)))
       (diff_added (snap_Sessions prev) (ordC (fmdom (snap_Sessions cur)))
         \<lparr>diff_Added = [], diff_Removed = [], diff_Changed = []\<rparr>)"

section \<open>What the helpers compute\<close>

lemma equal_from_iff: "equal_from a b i n \<longleftrightarrow> (\<forall>j < n. a ! (i + j) = b ! (i + j))"
proof (induction n arbitrary: i)
  case 0
  then show ?case by simp
next
  case (Suc n)
  then show ?case by (auto simp: less_Suc_eq_0_disj)
qed

lemma equalInts_iff [simp]: "equalInts a b \<longleftrightarrow> a = b"
  by (auto simp: equalInts_def equal_from_iff list_eq_iff_nth_eq)

text \<open>The fields that the forest view shows.\<close>

definition session_view :: "session \<Rightarrow> string \<times> string \<times> string \<times> bool \<times> string \<times> int list" where
  "session_view s = (sess_State s, sess_WaitEvent s, sess_WaitEventType s, sess_IsRoot s,
     sess_Query s, sess_BlockedBy s)"

lemma sessionChanged_iff: "sessionChanged a b \<longleftrightarrow> session_view a \<noteq> session_view b"
  by (auto simp: sessionChanged_def session_view_def)

lemma diff_added_eq:
  "diff_added prev pids d =
     d\<lparr>diff_Added := diff_Added d @ filter (\<lambda>p. p \<notin> map_keys prev) pids\<rparr>"
proof (induction pids arbitrary: d)
  case Nil
  then show ?case by simp
next
  case (Cons pid pids)
  then show ?case by (cases "fmlookup prev pid") (auto dest: fmdom_notI intro: fmdomI)
qed

definition view_changed :: "sessions \<Rightarrow> sessions \<Rightarrow> int \<Rightarrow> bool" where
  "view_changed prev cur p \<longleftrightarrow>
     (\<exists>a b. fmlookup prev p = Some a \<and> fmlookup cur p = Some b \<and> session_view a \<noteq> session_view b)"

lemma diff_removed_changed_eq:
  "diff_removed_changed prev cur pids d =
     d\<lparr>diff_Removed := diff_Removed d @ filter (\<lambda>p. p \<in> map_keys prev - map_keys cur) pids,
       diff_Changed := diff_Changed d @ filter (view_changed prev cur) pids\<rparr>"
proof (induction pids arbitrary: d)
  case Nil
  then show ?case by simp
next
  case (Cons pid pids)
  then show ?case
    by (cases "fmlookup prev pid"; cases "fmlookup cur pid")
      (auto simp: view_changed_def sessionChanged_iff dest: fmdom_notI intro: fmdomI)
qed

section \<open>Properties\<close>

text \<open>C34: \<open>DiffSnapshots\<close> is exact and does not depend on the iteration order beyond the
  order of its lists: without repetition, \<open>Added\<close> lists the sessions only in the current
  snapshot, \<open>Removed\<close> those only in the previous one, and \<open>Changed\<close> the common ones that
  differ in a field of the forest view. So every common session outside \<open>Changed\<close> looks
  the same in both.\<close>

theorem DiffSnapshots_exact:
  assumes "map_order oC" "map_order oP"
  shows "let d = DiffSnapshots oC oP prev cur in
    distinct (diff_Added d) \<and> distinct (diff_Removed d) \<and> distinct (diff_Changed d) \<and>
    set (diff_Added d) = map_keys (snap_Sessions cur) - map_keys (snap_Sessions prev) \<and>
    set (diff_Removed d) = map_keys (snap_Sessions prev) - map_keys (snap_Sessions cur) \<and>
    set (diff_Changed d) = {p. view_changed (snap_Sessions prev) (snap_Sessions cur) p}"
proof -
  have "p \<in> map_keys (snap_Sessions prev)"
    if "view_changed (snap_Sessions prev) (snap_Sessions cur) p" for p
    using that by (auto simp: view_changed_def intro: fmdomI)
  then show ?thesis
    using assms(1,2)
    by (auto simp: Let_def DiffSnapshots_def diff_added_eq diff_removed_changed_eq
        map_order.ord_set map_order.ord_distinct)
qed

theorem DiffSnapshots_exact_witness:
  "let d = DiffSnapshots key_order key_order zero_snapshot (zero_snapshot\<lparr>snap_Sessions := demo_sessions\<rparr>)
   in set (diff_Added d) = map_keys demo_sessions \<and> diff_Removed d = [] \<and> diff_Changed d = []"
  using DiffSnapshots_exact [OF key_order.map_order_axioms key_order.map_order_axioms,
      of zero_snapshot "zero_snapshot\<lparr>snap_Sessions := demo_sessions\<rparr>"]
  by (simp add: Let_def zero_snapshot_def view_changed_def)

end
