(* ===== verification/Store.thy ===== *)
theory Store
  imports Graph
begin

text \<open>
  Package \<open>internal/store\<close>, \<open>store.go\<close>: the ring of the last snapshots, the optional
  durable backend behind it, and the hub that hands new snapshots to subscribers.
  Every operation of the code is one definition. A runtime panic (index out of range,
  division by zero, send on a closed channel) is the value \<open>None\<close>. A channel lives in a
  heap of channels, because \<open>Put\<close> keeps references to channels that may have left the
  subscriber table by the time it sends. The interface \<open>Persister\<close> is a record of the
  three operations over a backend state. The lemmas show that the ring implements the list
  of the last \<open>cap\<close> snapshots, and what \<open>Latest\<close>, \<open>At\<close> and \<open>History\<close> return of it.
\<close>

section \<open>State\<close>

record meta =
  meta_TakenAt :: time
  meta_Roots :: int
  meta_Edges :: int
  meta_Sessions :: int

type_synonym chan_ref = int

text \<open>A buffered channel of capacity 1.\<close>

record chan =
  ch_buf :: "snapshot list"
  ch_closed :: bool

text \<open>The interface \<open>Persister\<close>: an error is its message.\<close>

record 'p persister =
  p_Save :: "'p \<Rightarrow> snapshot \<Rightarrow> 'p \<times> string option"
  p_At :: "'p \<Rightarrow> time \<Rightarrow> string + (snapshot \<times> bool)"
  p_History :: "'p \<Rightarrow> time \<Rightarrow> time \<Rightarrow> string + meta list"

text \<open>\<open>st_persist\<close> is the state of the backend, if one is attached; \<open>st_log\<close> the warnings
  written so far, or \<open>None\<close> for a nil logger.\<close>

record 'p store =
  st_buf :: "snapshot list"
  st_head :: int
  st_size :: int
  st_cap :: int
  st_subs :: "(int, chan_ref) fmap"
  st_nextID :: int
  st_persist :: "'p option"
  st_log :: "string list option"
  st_chans :: "(chan_ref, chan) fmap"

section \<open>Operations\<close>

definition New :: "int \<Rightarrow> 'p store" where
  "New ringSize =
     (let n = (if ringSize < 1 then 1 else ringSize)
      in \<lparr>st_buf = replicate (nat n) zero_snapshot, st_head = 0, st_size = 0, st_cap = n,
          st_subs = fmempty, st_nextID = 0, st_persist = None, st_log = None,
          st_chans = fmempty\<rparr>)"

definition SetPersister :: "'p \<Rightarrow> string list option \<Rightarrow> 'p store \<Rightarrow> 'p store" where
  "SetPersister p log s = s\<lparr>st_persist := Some p, st_log := log\<rparr>"

text \<open>A warning reaches the log only when there is a logger.\<close>

definition log_warn :: "string \<Rightarrow> 'p store \<Rightarrow> 'p store" where
  "log_warn msg s = s\<lparr>st_log := map_option (\<lambda>l. l @ [msg]) (st_log s)\<rparr>"

text \<open>\<open>Put\<close>, first part: the write into the ring, under the lock.\<close>

definition put_ring :: "snapshot \<Rightarrow> 'p store \<Rightarrow> 'p store option" where
  "put_ring snap s = do {
     buf \<leftarrow> idx_set (st_buf s) (st_head s) snap;
     head \<leftarrow> go_mod (st_head s + 1) (st_cap s);
     Some (s\<lparr>st_buf := buf, st_head := head,
             st_size := (if st_size s < st_cap s then st_size s + 1 else st_size s)\<rparr>)
   }"

text \<open>Second part: the channels to send to, read from the table under the lock.\<close>

definition put_capture :: "(int fset \<Rightarrow> int list) \<Rightarrow> 'p store \<Rightarrow> chan_ref list" where
  "put_capture ord s = List.map_filter (fmlookup (st_subs s)) (ord (fmdom (st_subs s)))"

text \<open>Third part, outside the lock: the durable backend.\<close>

definition put_persist :: "'p persister \<Rightarrow> snapshot \<Rightarrow> 'p store \<Rightarrow> 'p store" where
  "put_persist ops snap s =
     (case st_persist s of
        None \<Rightarrow> s
      | Some p \<Rightarrow>
          (case p_Save ops p snap of
             (p', None) \<Rightarrow> s\<lparr>st_persist := Some p'\<rparr>
           | (p', Some err) \<Rightarrow> log_warn err (s\<lparr>st_persist := Some p'\<rparr>)))"

text \<open>A non-blocking send: it panics on a closed channel and drops the value when the
  buffer is full.\<close>

definition try_send :: "chan_ref \<Rightarrow> snapshot \<Rightarrow> (chan_ref, chan) fmap \<Rightarrow> (chan_ref, chan) fmap option" where
  "try_send r snap h = do {
     c \<leftarrow> fmlookup h r;
     if ch_closed c then None
     else if length (ch_buf c) < 1 then Some (fmupd r (c\<lparr>ch_buf := ch_buf c @ [snap]\<rparr>) h)
     else Some h
   }"

primrec put_sends :: "chan_ref list \<Rightarrow> snapshot \<Rightarrow> (chan_ref, chan) fmap \<Rightarrow> (chan_ref, chan) fmap option" where
  "put_sends [] snap h = Some h"
| "put_sends (r # rs) snap h = do { h' \<leftarrow> try_send r snap h; put_sends rs snap h' }"

definition Put :: "'p persister \<Rightarrow> (int fset \<Rightarrow> int list) \<Rightarrow> snapshot \<Rightarrow> 'p store \<Rightarrow> 'p store option" where
  "Put ops ord snap s = do {
     s1 \<leftarrow> put_ring snap s;
     let subs = put_capture ord s1;
     let s2 = put_persist ops snap s1;
     h \<leftarrow> put_sends subs snap (st_chans s2);
     Some (s2\<lparr>st_chans := h\<rparr>)
   }"

definition Latest :: "'p store \<Rightarrow> (snapshot \<times> bool) option" where
  "Latest s =
     (if st_size s = 0 then Some (zero_snapshot, False)
      else do {
        idx \<leftarrow> go_mod (st_head s - 1 + st_cap s) (st_cap s);
        snap \<leftarrow> idx_get (st_buf s) idx;
        Some (snap, True)
      })"

text \<open>The distance of two instants as \<open>At\<close> computes it.\<close>

definition at_diff :: "time \<Rightarrow> time \<Rightarrow> duration" where
  "at_diff t u = (let d = time_Sub t u in if d < 0 then dur_neg d else d)"

text \<open>The loop of \<open>At\<close> from the newest entry to the oldest: \<open>n\<close> iterations are left,
  the next one has index \<open>i\<close>.\<close>

primrec at_loop :: "nat \<Rightarrow> int \<Rightarrow> 'p store \<Rightarrow> time \<Rightarrow> snapshot \<Rightarrow> duration \<Rightarrow> bool \<Rightarrow> (snapshot \<times> bool) option" where
  "at_loop 0 i s t best bestDiff found = Some (best, found)"
| "at_loop (Suc n) i s t best bestDiff found = do {
     idx \<leftarrow> go_mod (st_head s - 1 - i + st_cap s * 2) (st_cap s);
     snap \<leftarrow> idx_get (st_buf s) idx;
     let d = at_diff t (snap_TakenAt snap);
     if d < bestDiff then at_loop n (i + 1) s t snap d True
     else at_loop n (i + 1) s t best bestDiff found
   }"

definition at_ring :: "'p store \<Rightarrow> time \<Rightarrow> (snapshot \<times> bool) option" where
  "at_ring s t =
     (if st_size s = 0 then Some (zero_snapshot, False)
      else at_loop (nat (st_size s)) 0 s t zero_snapshot max_int64 False)"

definition At :: "'p persister \<Rightarrow> time \<Rightarrow> 'p store \<Rightarrow> ('p store \<times> snapshot \<times> bool) option" where
  "At ops t s =
     (case st_persist s of
        None \<Rightarrow> map_option (Pair s) (at_ring s t)
      | Some p \<Rightarrow>
          (case p_At ops p t of
             Inl err \<Rightarrow> map_option (Pair (log_warn err s)) (at_ring s t)
           | Inr r \<Rightarrow> Some (s, r)))"

definition meta_of :: "snapshot \<Rightarrow> meta" where
  "meta_of snap = \<lparr>meta_TakenAt = snap_TakenAt snap, meta_Roots = int (length (snap_Roots snap)),
     meta_Edges = int (length (snap_Edges snap)), meta_Sessions = map_len (snap_Sessions snap)\<rparr>"

text \<open>The loop of \<open>History\<close> from the oldest entry to the newest.\<close>

primrec history_loop :: "nat \<Rightarrow> int \<Rightarrow> 'p store \<Rightarrow> time \<Rightarrow> time \<Rightarrow> meta list \<Rightarrow> meta list option" where
  "history_loop 0 i s from to out = Some out"
| "history_loop (Suc n) i s from to out = do {
     idx \<leftarrow> go_mod (st_head s - st_size s + i + st_cap s * 2) (st_cap s);
     snap \<leftarrow> idx_get (st_buf s) idx;
     if \<not> time_IsZero from \<and> time_Before (snap_TakenAt snap) from
     then history_loop n (i + 1) s from to out
     else if \<not> time_IsZero to \<and> time_After (snap_TakenAt snap) to
     then history_loop n (i + 1) s from to out
     else history_loop n (i + 1) s from to (out @ [meta_of snap])
   }"

definition History :: "'p persister \<Rightarrow> time \<Rightarrow> time \<Rightarrow> 'p store \<Rightarrow> ('p store \<times> meta list) option" where
  "History ops from to s =
     (case st_persist s of
        None \<Rightarrow> map_option (Pair s) (history_loop (nat (st_size s)) 0 s from to [])
      | Some p \<Rightarrow>
          (case p_History ops p from to of
             Inl err \<Rightarrow> map_option (Pair (log_warn err s))
                          (history_loop (nat (st_size s)) 0 s from to [])
           | Inr metas \<Rightarrow> Some (s, metas)))"

text \<open>\<open>Subscribe\<close> returns the identifier that the unsubscribe function closes over and the
  channel it made; identifiers are never reused, so they name the channels too.\<close>

definition Subscribe :: "'p store \<Rightarrow> 'p store \<times> int \<times> chan_ref" where
  "Subscribe s =
     (let sid = st_nextID s; ch = sid
      in (s\<lparr>st_nextID := st_nextID s + 1, st_subs := fmupd sid ch (st_subs s),
            st_chans := fmupd ch \<lparr>ch_buf = [], ch_closed = False\<rparr> (st_chans s)\<rparr>, sid, ch))"

definition unsubscribe :: "int \<Rightarrow> 'p store \<Rightarrow> 'p store" where
  "unsubscribe sid s =
     (case fmlookup (st_subs s) sid of
        None \<Rightarrow> s
      | Some ch \<Rightarrow> s\<lparr>st_subs := fmdrop sid (st_subs s),
                     st_chans := fmupd ch ((the (fmlookup (st_chans s) ch))\<lparr>ch_closed := True\<rparr>) (st_chans s)\<rparr>)"

text \<open>A subscriber takes the next snapshot out of its channel; \<open>None\<close> when it has to wait.\<close>

definition chan_recv :: "chan_ref \<Rightarrow> 'p store \<Rightarrow> ('p store \<times> snapshot) option" where
  "chan_recv r s =
     (case fmlookup (st_chans s) r of
        None \<Rightarrow> None
      | Some c \<Rightarrow>
          (case ch_buf c of
             [] \<Rightarrow> None
           | x # xs \<Rightarrow> Some (s\<lparr>st_chans := fmupd r (c\<lparr>ch_buf := xs\<rparr>) (st_chans s)\<rparr>, x)))"

section \<open>Well-formed stores\<close>

definition ring_wf :: "'p store \<Rightarrow> bool" where
  "ring_wf s \<longleftrightarrow>
     1 \<le> st_cap s \<and> length (st_buf s) = nat (st_cap s) \<and>
     0 \<le> st_head s \<and> st_head s < st_cap s \<and> 0 \<le> st_size s \<and> st_size s \<le> st_cap s \<and>
     (st_size s < st_cap s \<longrightarrow> st_head s = st_size s)"

text \<open>The hub: a subscriber's channel is the one made for its identifier, it is open and
  holds at most one snapshot; identifiers given out are below \<open>nextID\<close>.\<close>

definition hub_wf :: "'p store \<Rightarrow> bool" where
  "hub_wf s \<longleftrightarrow>
     0 \<le> st_nextID s \<and>
     (\<forall>r c. fmlookup (st_chans s) r = Some c \<longrightarrow> r < st_nextID s \<and> length (ch_buf c) \<le> 1) \<and>
     (\<forall>sid r. fmlookup (st_subs s) sid = Some r \<longrightarrow>
        r = sid \<and> (\<exists>c. fmlookup (st_chans s) r = Some c \<and> \<not> ch_closed c))"

definition store_wf :: "'p store \<Rightarrow> bool" where
  "store_wf s \<longleftrightarrow> ring_wf s \<and> hub_wf s"

text \<open>What the ring stands for: the retained snapshots, oldest first.\<close>

definition ring_list :: "'p store \<Rightarrow> snapshot list" where
  "ring_list s =
     (if st_size s < st_cap s then take (nat (st_size s)) (st_buf s)
      else rotate (nat (st_head s)) (st_buf s))"

abbreviation ring_cap :: "'p store \<Rightarrow> nat" where
  "ring_cap s \<equiv> nat (st_cap s)"

section \<open>The ring implements the list of the last snapshots\<close>

lemma ring_wfD:
  assumes "ring_wf s"
  shows "1 \<le> st_cap s" "length (st_buf s) = nat (st_cap s)" "0 \<le> st_head s" "st_head s < st_cap s"
    "0 \<le> st_size s" "st_size s \<le> st_cap s" "st_size s < st_cap s \<Longrightarrow> st_head s = st_size s"
  using assms by (simp_all add: ring_wf_def)

lemma New_wf: "store_wf (New n)"
  by (simp add: store_wf_def ring_wf_def hub_wf_def New_def Let_def)

lemma New_ring_list [ring_simps]: "ring_list (New n) = []"
  by (simp add: ring_list_def New_def Let_def)

lemma New_cap [simp]: "st_cap (New n) = max 1 n"
  by (simp add: New_def Let_def)

lemma length_ring_list [ring_simps]: "ring_wf s \<Longrightarrow> length (ring_list s) = nat (st_size s)"
  by (auto simp: ring_list_def ring_wf_def)

lemma ring_list_Nil_iff: "ring_wf s \<Longrightarrow> ring_list s = [] \<longleftrightarrow> st_size s = 0"
  using ring_wfD(5) [of s] by (auto simp: length_ring_list simp flip: length_0_conv)

text \<open>Entry \<open>i\<close> of the list, counted from the oldest, is where the loops look for it.\<close>

lemma ring_list_nth:
  assumes "ring_wf s" "0 \<le> i" "i < st_size s"
  shows "ring_list s ! nat i = st_buf s ! nat ((st_head s - st_size s + i + st_cap s * 2) mod st_cap s)"
proof (cases "st_size s < st_cap s")
  case True
  then have "(st_head s - st_size s + i + st_cap s * 2) mod st_cap s = i"
    using ring_wfD [OF assms(1)] assms(2,3) by simp
  with True assms(2,3) show ?thesis by (simp add: ring_list_def)
next
  case False
  then have full: "st_size s = st_cap s" using ring_wfD(6) [OF assms(1)] by simp
  have "(st_head s - st_size s + i + st_cap s * 2) mod st_cap s = (st_head s + i + 1 * st_cap s) mod st_cap s"
    using full by (simp add: algebra_simps)
  also have "\<dots> = (st_head s + i) mod st_cap s" by (rule mod_mult_self1)
  finally have "nat ((st_head s - st_size s + i + st_cap s * 2) mod st_cap s) =
      (nat (st_head s) + nat i) mod nat (st_cap s)"
    using ring_wfD [OF assms(1)] assms(2) by (simp add: nat_mod_distrib nat_add_distrib)
  with full assms ring_wfD [OF assms(1)] show ?thesis
    by (simp add: ring_list_def nth_rotate)
qed

lemma ring_index_bounds:
  assumes "ring_wf s"
  shows "0 \<le> k mod st_cap s" "k mod st_cap s < int (length (st_buf s))"
  using ring_wfD [OF assms] by simp_all

lemma put_ring_ok:
  assumes "ring_wf s"
  shows "put_ring snap s = Some (s\<lparr>st_buf := (st_buf s)[nat (st_head s) := snap],
      st_head := (st_head s + 1) mod st_cap s,
      st_size := (if st_size s < st_cap s then st_size s + 1 else st_size s)\<rparr>)"
  using ring_wfD [OF assms] by (simp add: put_ring_def go_simps)

lemma put_ring_wf: "ring_wf s \<Longrightarrow> put_ring snap s = Some s' \<Longrightarrow> ring_wf s'"
proof -
  assume wf: "ring_wf s" and eq: "put_ring snap s = Some s'"
  have "(st_head s + 1) mod st_cap s = st_size s + 1" if "st_size s + 1 < st_cap s"
    using that ring_wfD [OF wf] by simp
  then show ?thesis
    using wf eq ring_wfD [OF wf] by (auto simp: put_ring_ok ring_wf_def)
qed

lemma rotate_write:
  assumes "h < length xs"
  shows "rotate (Suc h) (xs[h := x]) = drop (Suc h) xs @ take h xs @ [x]"
proof -
  have "rotate h (xs[h := x]) = x # drop (Suc h) xs @ take h xs"
    using assms by (simp add: rotate_drop_take drop_update_cancel Cons_nth_drop_Suc [symmetric])
  then show ?thesis by simp
qed

lemma put_ring_list [ring_simps]:
  assumes "ring_wf s" "put_ring snap s = Some s'"
  shows "ring_list s' = last_n (ring_cap s) (ring_list s @ [snap])"
proof (cases "st_size s < st_cap s")
  case True
  define n where "n = nat (st_size s)"
  have head: "nat (st_head s) = n" "n < length (st_buf s)"
    using True ring_wfD [OF assms(1)] by (simp_all add: n_def)
  have grown: "take (Suc n) ((st_buf s)[n := snap]) = take n (st_buf s) @ [snap]"
    using head(2) by (simp add: take_Suc_conv_app_nth)
  have "ring_list s' = take n (st_buf s) @ [snap]"
  proof (cases "st_size s + 1 < st_cap s")
    case True
    with assms grown head show ?thesis
      using ring_wfD(5) [OF assms(1)] by (auto simp: put_ring_ok ring_list_def n_def nat_add_distrib)
  next
    case False
    with True have "st_cap s = st_size s + 1" by simp
    with assms grown head show ?thesis
      using ring_wfD [OF assms(1)] by (auto simp: put_ring_ok ring_list_def n_def nat_add_distrib)
  qed
  moreover have "ring_list s = take n (st_buf s)" using True by (simp add: ring_list_def n_def)
  moreover have "Suc n \<le> ring_cap s" using True ring_wfD(5) [OF assms(1)] by (simp add: n_def)
  ultimately show ?thesis using head by simp
next
  case False
  define h where "h = nat (st_head s)"
  have h: "h < length (st_buf s)" "length (st_buf s) = ring_cap s"
    using ring_wfD [OF assms(1)] by (simp_all add: h_def)
  have full: "ring_list s = drop h (st_buf s) @ take h (st_buf s)"
    using False h(1) by (simp add: ring_list_def h_def rotate_drop_take)
  have "nat ((st_head s + 1) mod st_cap s) = Suc h mod length (st_buf s)"
    using ring_wfD [OF assms(1)] h by (simp add: h_def nat_mod_distrib nat_add_distrib)
  then have "ring_list s' = rotate (Suc h mod length (st_buf s)) ((st_buf s)[h := snap])"
    using assms False by (auto simp: put_ring_ok ring_list_def h_def)
  also have "\<dots> = rotate (Suc h) ((st_buf s)[h := snap])"
    by (metis length_list_update rotate_conv_mod)
  also have "\<dots> = drop (Suc h) (st_buf s) @ take h (st_buf s) @ [snap]"
    using h(1) by (rule rotate_write)
  also have "\<dots> = last_n (ring_cap s) (ring_list s @ [snap])"
    using h by (simp add: full last_n_def)
  finally show ?thesis .
qed

section \<open>The hub\<close>

text \<open>The effect of one non-blocking send on an open channel.\<close>

definition deliver :: "snapshot \<Rightarrow> chan \<Rightarrow> chan" where
  "deliver snap c = (if ch_buf c = [] then c\<lparr>ch_buf := [snap]\<rparr> else c)"

lemma deliver_simps [simp]:
  "ch_closed (deliver snap c) = ch_closed c" "deliver snap (deliver snap c) = deliver snap c"
  "length (ch_buf (deliver snap c)) \<le> Suc 0 \<longleftrightarrow> length (ch_buf c) \<le> Suc 0"
  by (simp_all add: deliver_def)

lemma try_send_open:
  "fmlookup h r = Some c \<Longrightarrow> \<not> ch_closed c \<Longrightarrow> \<exists>h'. try_send r snap h = Some h' \<and>
     (\<forall>q. fmlookup h' q = (if q = r then Some (deliver snap c) else fmlookup h q))"
  by (auto simp: try_send_def deliver_def)

text \<open>A round of sends over open channels succeeds and reaches exactly these channels.\<close>

lemma put_sends_open:
  assumes "\<And>r. r \<in> set rs \<Longrightarrow> \<exists>c. fmlookup h r = Some c \<and> \<not> ch_closed c"
  shows "\<exists>h'. put_sends rs snap h = Some h' \<and>
    (\<forall>q. fmlookup h' q = (if q \<in> set rs then map_option (deliver snap) (fmlookup h q) else fmlookup h q))"
  using assms
proof (induction rs arbitrary: h)
  case Nil
  then show ?case by simp
next
  case (Cons r rs)
  obtain c where c: "fmlookup h r = Some c" "\<not> ch_closed c" using Cons.prems [of r] by auto
  then obtain h1 where h1: "try_send r snap h = Some h1"
    and look: "\<forall>q. fmlookup h1 q = (if q = r then Some (deliver snap c) else fmlookup h q)"
    using try_send_open by blast
  have "\<exists>c. fmlookup h1 q = Some c \<and> \<not> ch_closed c" if "q \<in> set rs" for q
    using Cons.prems [of q] that c look by auto
  from Cons.IH [OF this] obtain h' where "put_sends rs snap h1 = Some h'"
    and "\<forall>q. fmlookup h' q = (if q \<in> set rs then map_option (deliver snap) (fmlookup h1 q) else fmlookup h1 q)"
    by blast
  then show ?case using c h1 look by auto
qed

lemma set_put_capture:
  assumes "map_order ord"
  shows "set (put_capture ord s) = {r. \<exists>sid. fmlookup (st_subs s) sid = Some r}"
  by (auto simp: put_capture_def List.map_filter_def map_order.ord_set [OF assms] image_iff
      intro: fmdomI) (metis fmdomI option.sel)

lemma put_ring_hub [simp]:
  assumes "put_ring snap s = Some s'"
  shows "st_subs s' = st_subs s" "st_chans s' = st_chans s" "st_nextID s' = st_nextID s"
    "st_persist s' = st_persist s" "st_cap s' = st_cap s" "st_log s' = st_log s"
  using assms by (auto simp: put_ring_def split: bind_splits)

lemma put_persist_frame [simp]:
  "st_buf (put_persist ops snap s) = st_buf s" "st_head (put_persist ops snap s) = st_head s"
  "st_size (put_persist ops snap s) = st_size s" "st_cap (put_persist ops snap s) = st_cap s"
  "st_subs (put_persist ops snap s) = st_subs s" "st_nextID (put_persist ops snap s) = st_nextID s"
  "st_chans (put_persist ops snap s) = st_chans s"
  by (simp_all add: put_persist_def log_warn_def split: option.splits prod.splits)

lemma ring_cong:
  assumes "st_buf s = st_buf s'" "st_head s = st_head s'" "st_size s = st_size s'" "st_cap s = st_cap s'"
  shows "ring_list s = ring_list s'" "ring_wf s = ring_wf s'"
  using assms by (simp_all add: ring_list_def ring_wf_def)

lemma hub_wf_deliver:
  assumes "hub_wf s" "st_subs s' = st_subs s" "st_nextID s' = st_nextID s"
    and "\<forall>q. fmlookup (st_chans s') q =
      (if q \<in> A then map_option (deliver snap) (fmlookup (st_chans s) q) else fmlookup (st_chans s) q)"
  shows "hub_wf s'"
proof -
  have "\<exists>c'. fmlookup (st_chans s) r = Some c' \<and> ch_closed c = ch_closed c' \<and>
      (length (ch_buf c) \<le> 1 \<longleftrightarrow> length (ch_buf c') \<le> 1)" if "fmlookup (st_chans s') r = Some c" for r c
    using that assms(4) by (cases "r \<in> A") auto
  moreover have "\<exists>c'. fmlookup (st_chans s') r = Some c' \<and> ch_closed c' = ch_closed c"
    if "fmlookup (st_chans s) r = Some c" for r c
    using that assms(4) by simp
  ultimately show ?thesis using assms(1-3) unfolding hub_wf_def by metis
qed

text \<open>On a well-formed store \<open>Put\<close> never panics. It adds the snapshot to the retained
  list, and gives it to every subscriber whose buffer is empty.\<close>

lemma ring_list_cap: "ring_wf s \<Longrightarrow> last_n (ring_cap s) (ring_list s) = ring_list s"
  using length_ring_list [of s] by (intro last_n_all) (simp add: ring_wf_def nat_mono)

lemma Put_ok:
  assumes "store_wf s" "map_order ord"
  shows "\<exists>s'. Put ops ord snap s = Some s' \<and> store_wf s' \<and> st_cap s' = st_cap s \<and>
    ring_list s' = last_n (ring_cap s) (ring_list s @ [snap]) \<and>
    st_subs s' = st_subs s \<and> st_nextID s' = st_nextID s \<and>
    (\<forall>q. fmlookup (st_chans s') q =
      (if q \<in> map_keys (st_subs s) then map_option (deliver snap) (fmlookup (st_chans s) q)
       else fmlookup (st_chans s) q))"
proof -
  have ring: "ring_wf s" and hub: "hub_wf s" using assms(1) by (simp_all add: store_wf_def)
  obtain s1 where s1: "put_ring snap s = Some s1" using put_ring_ok [OF ring] by blast
  let ?s2 = "put_persist ops snap s1"
  have subs: "set (put_capture ord s1) = map_keys (st_subs s)"
    using hub s1 by (simp add: set_put_capture [OF assms(2)] hub_wf_def fset_eqI set_eq_iff fmlookup_dom_iff) metis
  have "\<exists>c. fmlookup (st_chans s) r = Some c \<and> \<not> ch_closed c" if "r \<in> set (put_capture ord s1)" for r
    using that hub unfolding subs by (auto simp: hub_wf_def fmlookup_dom_iff)
  from put_sends_open [of "put_capture ord s1" "st_chans s" snap, OF this]
  obtain h where h: "put_sends (put_capture ord s1) snap (st_chans ?s2) = Some h"
    and look: "\<forall>q. fmlookup h q = (if q \<in> map_keys (st_subs s) then map_option (deliver snap) (fmlookup (st_chans s) q)
       else fmlookup (st_chans s) q)"
    using s1 unfolding subs by auto
  let ?s' = "?s2\<lparr>st_chans := h\<rparr>"
  have "ring_wf ?s'" "ring_list ?s' = last_n (ring_cap s) (ring_list s @ [snap])"
    using put_ring_wf [OF ring s1] put_ring_list [OF ring s1] ring_cong [of ?s' s1] by simp_all
  moreover have "hub_wf ?s'"
    by (rule hub_wf_deliver [OF hub, where A = "map_keys (st_subs s)" and snap = snap])
      (use s1 look in simp_all)
  ultimately show ?thesis
    using s1 h look by (auto simp: Put_def store_wf_def intro!: exI [of _ ?s'])
qed

lemma Subscribe_wf: "store_wf s \<Longrightarrow> store_wf (fst (Subscribe s))"
  by (auto simp: store_wf_def ring_wf_def hub_wf_def Subscribe_def Let_def split: if_splits) force+

lemma unsubscribe_wf: "store_wf s \<Longrightarrow> store_wf (unsubscribe sid s)"
  by (auto simp: store_wf_def ring_wf_def hub_wf_def unsubscribe_def split: option.splits if_splits) force+

lemma chan_recv_wf:
  assumes "store_wf s" "chan_recv r s = Some (s', x)"
  shows "store_wf s'"
proof -
  from assms(2) obtain c xs where c: "fmlookup (st_chans s) r = Some c" "ch_buf c = x # xs"
    and s': "s' = s\<lparr>st_chans := fmupd r (c\<lparr>ch_buf := xs\<rparr>) (st_chans s)\<rparr>"
    by (auto simp: chan_recv_def split: option.splits list.splits)
  have "ring_wf s'" using assms(1) ring_cong(2) [of s s'] by (simp add: s' store_wf_def)
  moreover have "hub_wf s'"
    using assms(1) c by (fastforce simp: s' store_wf_def hub_wf_def)
  ultimately show ?thesis by (simp add: store_wf_def)
qed

lemma hub_ops_ring_list [simp]:
  "ring_list (fst (Subscribe s)) = ring_list s" "ring_list (unsubscribe sid s) = ring_list s"
  "ring_list (log_warn m s) = ring_list s"
  by (simp_all add: Subscribe_def unsubscribe_def log_warn_def ring_list_def Let_def split: option.splits)

section \<open>Reading the ring\<close>

lemma ring_loop_read:
  assumes "ring_wf s" "0 \<le> i" "i < st_size s"
    and "j mod st_cap s = (st_head s - st_size s + i + st_cap s * 2) mod st_cap s" "0 \<le> j"
  shows "go_mod j (st_cap s) = Some (j mod st_cap s)"
    and "idx_get (st_buf s) (j mod st_cap s) = Some (ring_list s ! nat i)"
  using ring_wfD(1) [OF assms(1)] ring_index_bounds [OF assms(1), of j] assms
  by (simp_all add: go_simps ring_list_nth)

lemma Latest_ring [ring_simps]:
  assumes "ring_wf s"
  shows "Latest s = Some (if ring_list s = [] then (zero_snapshot, False) else (last (ring_list s), True))"
proof (cases "st_size s = 0")
  case True
  then show ?thesis by (simp add: Latest_def ring_list_Nil_iff [OF assms])
next
  case False
  let ?i = "st_size s - 1" and ?j = "st_head s - 1 + st_cap s"
  have i: "0 \<le> ?i" "?i < st_size s" using False ring_wfD(5) [OF assms] by simp_all
  have "(st_head s - st_size s + ?i + st_cap s * 2) mod st_cap s = (?j + 1 * st_cap s) mod st_cap s"
    by (simp add: algebra_simps)
  then have j: "?j mod st_cap s = (st_head s - st_size s + ?i + st_cap s * 2) mod st_cap s"
    by (simp only: mod_mult_self1)
  have pos: "0 \<le> ?j" using ring_wfD [OF assms] by simp
  have "nat ?i = length (ring_list s) - 1" using length_ring_list [OF assms] by linarith
  then have "last (ring_list s) = ring_list s ! nat ?i"
    using False ring_list_Nil_iff [OF assms] by (simp add: last_conv_nth)
  then show ?thesis
    using False ring_loop_read [OF assms i j pos] by (simp add: Latest_def ring_list_Nil_iff [OF assms])
qed

text \<open>The loop of \<open>At\<close> over the retained list, newest first.\<close>

primrec at_scan :: "time \<Rightarrow> snapshot list \<Rightarrow> snapshot \<Rightarrow> duration \<Rightarrow> bool \<Rightarrow> snapshot \<times> bool" where
  "at_scan t [] best bestDiff found = (best, found)"
| "at_scan t (x # xs) best bestDiff found =
     (let d = at_diff t (snap_TakenAt x)
      in if d < bestDiff then at_scan t xs x d True else at_scan t xs best bestDiff found)"

lemma at_loop_scan:
  assumes "ring_wf s" "0 \<le> i" "i + int n = st_size s"
  shows "at_loop n i s t best bestDiff found =
    Some (at_scan t (drop (nat i) (rev (ring_list s))) best bestDiff found)"
  using assms(2,3)
proof (induction n arbitrary: i best bestDiff found)
  case 0
  then show ?case by (simp add: length_ring_list [OF assms(1)])
next
  case (Suc n)
  let ?k = "st_size s - 1 - i" and ?j = "st_head s - 1 - i + st_cap s * 2"
  have k: "0 \<le> ?k" "?k < st_size s" using Suc.prems by simp_all
  have j: "?j mod st_cap s = (st_head s - st_size s + ?k + st_cap s * 2) mod st_cap s"
    by (simp add: algebra_simps)
  have pos: "0 \<le> ?j" using ring_wfD [OF assms(1)] Suc.prems by simp
  have len: "nat i < length (rev (ring_list s))"
    using Suc.prems by (simp add: length_ring_list [OF assms(1)])
  have "drop (nat i) (rev (ring_list s)) = ring_list s ! nat ?k # drop (nat (i + 1)) (rev (ring_list s))"
    using len Suc.prems(1) length_ring_list [OF assms(1)]
    by (simp add: Cons_nth_drop_Suc [symmetric] rev_nth nat_add_distrib nat_diff_distrib Suc_diff_Suc)
  with ring_loop_read [OF assms(1) k j pos] Suc.prems show ?case
    by (simp add: Suc.IH Let_def)
qed

lemma at_ring_scan [ring_simps]:
  assumes "ring_wf s"
  shows "at_ring s t = Some (at_scan t (rev (ring_list s)) zero_snapshot max_int64 False)"
  using at_loop_scan [OF assms, of 0 "nat (st_size s)"] ring_wfD(5) [OF assms]
  by (simp add: at_ring_def ring_list_Nil_iff [OF assms, symmetric])

text \<open>A result of the scan: the first entry of least distance, if one beats the start.\<close>

lemma at_scan_found:
  assumes "\<exists>x \<in> set xs. at_diff t (snap_TakenAt x) < d"
  shows "\<exists>ys x zs. xs = ys @ x # zs \<and> at_scan t xs b d f = (x, True) \<and>
    (\<forall>y \<in> set ys. at_diff t (snap_TakenAt x) < at_diff t (snap_TakenAt y)) \<and>
    (\<forall>z \<in> set zs. at_diff t (snap_TakenAt x) \<le> at_diff t (snap_TakenAt z)) \<and>
    at_diff t (snap_TakenAt x) < d"
  using assms
proof (induction xs arbitrary: b d f)
  case Nil
  then show ?case by simp
next
  case (Cons a xs)
  let ?d = "at_diff t (snap_TakenAt a)"
  show ?case
  proof (cases "?d < d \<and> \<not> (\<exists>x \<in> set xs. at_diff t (snap_TakenAt x) < ?d)")
    case True
    have "at_scan t ys a e True = (a, True)" if "\<forall>y \<in> set ys. e \<le> at_diff t (snap_TakenAt y)" for ys e
      using that by (induction ys) (auto simp: Let_def)
    with True show ?thesis
      by (intro exI [of _ "[]"] exI [of _ a] exI [of _ xs]) (auto simp: Let_def not_less)
  next
    case False
    define e b' f' where "e = (if ?d < d then ?d else d)" "b' = (if ?d < d then a else b)"
      "f' = (if ?d < d then True else f)"
    have "\<exists>x \<in> set xs. at_diff t (snap_TakenAt x) < e" using False Cons.prems by (auto simp: e_b'_f'_def)
    from Cons.IH [OF this, of b' f'] obtain ys x zs where
      split: "xs = ys @ x # zs" "at_scan t xs b' e f' = (x, True)"
      and best: "\<forall>y \<in> set ys. at_diff t (snap_TakenAt x) < at_diff t (snap_TakenAt y)"
        "\<forall>z \<in> set zs. at_diff t (snap_TakenAt x) \<le> at_diff t (snap_TakenAt z)"
        "at_diff t (snap_TakenAt x) < e" by blast
    have "at_scan t (a # xs) b d f = (x, True)" using split(2) by (auto simp: e_b'_f'_def Let_def split: if_splits)
    moreover have "at_diff t (snap_TakenAt x) < ?d" "at_diff t (snap_TakenAt x) < d"
      using best(3) by (auto simp: e_b'_f'_def split: if_splits)
    ultimately show ?thesis
      using split(1) best by (intro exI [of _ "a # ys"] exI [of _ x] exI [of _ zs]) simp
  qed
qed

lemma at_scan_none:
  "\<forall>x \<in> set xs. d \<le> at_diff t (snap_TakenAt x) \<Longrightarrow> at_scan t xs b d f = (b, f)"
  by (induction xs) (auto simp: Let_def)

lemma at_diff_exact: "\<bar>t - u\<bar> \<le> max_int64 \<Longrightarrow> at_diff t u = \<bar>t - u\<bar>"
  by (auto simp: at_diff_def Let_def time_Sub_def dur_neg_def wrap64_def in_int64_def)

lemma at_diff_future: "max_int64 \<le> t - u \<Longrightarrow> at_diff t u = max_int64"
  by (auto simp: at_diff_def Let_def time_Sub_def in_int64_def)

lemma at_diff_past: "t - u \<le> min_int64 \<Longrightarrow> at_diff t u = min_int64"
  using dur_neg_min by (auto simp: at_diff_def Let_def time_Sub_def in_int64_def)

text \<open>\<open>History\<close> filters the retained list.\<close>

definition in_window :: "time \<Rightarrow> time \<Rightarrow> snapshot \<Rightarrow> bool" where
  "in_window from to snap \<longleftrightarrow>
     (time_IsZero from \<or> from \<le> snap_TakenAt snap) \<and> (time_IsZero to \<or> snap_TakenAt snap \<le> to)"

lemma history_loop_filter:
  assumes "ring_wf s" "0 \<le> i" "i + int n = st_size s"
  shows "history_loop n i s from to out =
    Some (out @ map meta_of (filter (in_window from to) (drop (nat i) (ring_list s))))"
  using assms(2,3)
proof (induction n arbitrary: i out)
  case 0
  then show ?case by (simp add: length_ring_list [OF assms(1)])
next
  case (Suc n)
  let ?j = "st_head s - st_size s + i + st_cap s * 2"
  have i: "0 \<le> i" "i < st_size s" using Suc.prems by simp_all
  have pos: "0 \<le> ?j" using ring_wfD [OF assms(1)] Suc.prems by simp
  have "drop (nat i) (ring_list s) = ring_list s ! nat i # drop (nat (i + 1)) (ring_list s)"
    using i by (simp add: length_ring_list [OF assms(1)] Cons_nth_drop_Suc nat_add_distrib)
  with ring_loop_read [OF assms(1) i refl pos] Suc.prems show ?case
    by (auto simp: Suc.IH in_window_def)
qed

lemma history_ring [ring_simps]:
  assumes "ring_wf s"
  shows "history_loop (nat (st_size s)) 0 s from to [] =
    Some (map meta_of (filter (in_window from to) (ring_list s)))"
  using history_loop_filter [OF assms, of 0 "nat (st_size s)"] ring_wfD(5) [OF assms] by simp

section \<open>The interface of a bounded snapshot log\<close>

text \<open>What the readers of a store rely on: adding a snapshot cannot fail, keeps the
  invariant and the capacity, and leaves the last \<open>cap\<close> snapshots; \<open>latest\<close> reads the
  last of them.\<close>

primrec run_puts :: "(snapshot \<Rightarrow> 's \<Rightarrow> 's option) \<Rightarrow> snapshot list \<Rightarrow> 's \<Rightarrow> 's option" where
  "run_puts put [] s = Some s"
| "run_puts put (x # xs) s = do { s' \<leftarrow> put x s; run_puts put xs s' }"

locale snapshot_log =
  fixes inv :: "'s \<Rightarrow> bool"
    and cap :: "'s \<Rightarrow> nat"
    and log :: "'s \<Rightarrow> snapshot list"
    and put :: "snapshot \<Rightarrow> 's \<Rightarrow> 's option"
    and latest :: "'s \<Rightarrow> (snapshot \<times> bool) option"
  assumes cap_pos: "inv s \<Longrightarrow> 0 < cap s"
    and put_total: "inv s \<Longrightarrow> \<exists>s'. put x s = Some s'"
    and put_inv: "inv s \<Longrightarrow> put x s = Some s' \<Longrightarrow> inv s' \<and> cap s' = cap s"
    and put_log: "inv s \<Longrightarrow> put x s = Some s' \<Longrightarrow> log s' = last_n (cap s) (log s @ [x])"
    and latest_log: "inv s \<Longrightarrow>
      latest s = Some (if log s = [] then (zero_snapshot, False) else (last (log s), True))"
begin

lemma run_puts_log:
  "inv s \<Longrightarrow> log s = last_n (cap s) (log s) \<Longrightarrow>
   \<exists>s'. run_puts put xs s = Some s' \<and> inv s' \<and> cap s' = cap s \<and>
     log s' = last_n (cap s) (log s @ xs)"
proof (induction xs arbitrary: s)
  case Nil
  then show ?case by simp
next
  case (Cons x xs)
  obtain s1 where s1: "put x s = Some s1" using put_total [OF Cons.prems(1)] by blast
  have inv1: "inv s1" "cap s1 = cap s" using put_inv [OF Cons.prems(1) s1] by simp_all
  have log1: "log s1 = last_n (cap s) (log s @ [x])" by (rule put_log [OF Cons.prems(1) s1])
  then have "log s1 = last_n (cap s1) (log s1)"
    using last_n_append [of "cap s" "log s @ [x]" "[]"] by (simp add: inv1)
  from Cons.IH [OF inv1(1) this] log1 inv1 s1 show ?case
    by (auto simp: last_n_append)
qed

lemma latest_after_put:
  assumes "inv s" "put x s = Some s'"
  shows "latest s' = Some (x, True)"
  using put_inv [OF assms] put_log [OF assms] cap_pos [OF assms(1)] latest_log [of s'] by simp

end

lemma store_snapshot_log:
  fixes ops :: "'p persister"
  assumes "map_order ord"
  shows "snapshot_log store_wf ring_cap ring_list (Put ops ord) Latest"
proof
  fix s :: "'p store" and x s'
  assume wf: "store_wf s"
  show "0 < ring_cap s" using wf by (simp add: store_wf_def ring_wf_def)
  obtain t where t: "Put ops ord x s = Some t" "store_wf t" "st_cap t = st_cap s"
    "ring_list t = last_n (ring_cap s) (ring_list s @ [x])"
    using Put_ok [OF wf assms] by blast
  show "\<exists>s'. Put ops ord x s = Some s'" using t(1) by blast
  show "Latest s = Some (if ring_list s = [] then (zero_snapshot, False) else (last (ring_list s), True))"
    using wf by (simp add: store_wf_def Latest_ring)
  assume "Put ops ord x s = Some s'"
  then show "store_wf s' \<and> ring_cap s' = ring_cap s"
    and "ring_list s' = last_n (ring_cap s) (ring_list s @ [x])"
    using t by simp_all
qed

interpretation ring: snapshot_log store_wf ring_cap ring_list "Put ops key_order" Latest for ops
  by (rule store_snapshot_log [OF key_order.map_order_axioms])

lemma SetPersister_wf [simp]:
  "store_wf (SetPersister p lg s) = store_wf s" "ring_list (SetPersister p lg s) = ring_list s"
  "st_cap (SetPersister p lg s) = st_cap s" "ring_wf (SetPersister p lg s) = ring_wf s"
  by (simp_all add: SetPersister_def store_wf_def ring_wf_def hub_wf_def ring_list_def)

section \<open>Properties\<close>

text \<open>C11: the ring implements the bounded log. Starting from a new store of size \<open>n\<close>
  (a size below 1 counts as 1), with a durable backend of any behaviour attached, any
  sequence of \<open>Put\<close>s runs without a panic, leaves exactly the last \<open>n\<close> snapshots in
  the order they came, and \<open>Latest\<close> returns the last one.\<close>

theorem store_ring_refines_log:
  assumes "map_order ord"
  shows "\<exists>s. run_puts (Put ops ord) (xs @ [x]) (SetPersister p lg (New n)) = Some s \<and> store_wf s \<and>
    ring_list s = last_n (nat (max 1 n)) (xs @ [x]) \<and> Latest s = Some (x, True)"
proof -
  have log: "snapshot_log store_wf ring_cap ring_list (Put ops ord) Latest"
    by (rule store_snapshot_log [OF assms])
  let ?s0 = "SetPersister p lg (New n)"
  obtain s where s: "run_puts (Put ops ord) (xs @ [x]) ?s0 = Some s" "store_wf s"
    "ring_list s = last_n (nat (max 1 n)) (xs @ [x])"
    using snapshot_log.run_puts_log [OF log, of ?s0 "xs @ [x]"]
    by (auto simp: New_wf New_ring_list)
  then have "Latest s = Some (x, True)" using snapshot_log.latest_log [OF log s(2)] by simp
  with s show ?thesis by blast
qed

definition demo_snap :: "time \<Rightarrow> snapshot" where
  "demo_snap t = zero_snapshot\<lparr>snap_TakenAt := t\<rparr>"

definition nil_persister :: "unit persister" where
  "nil_persister = \<lparr>p_Save = \<lambda>p snap. (p, None), p_At = \<lambda>p t. Inl ''no backend'',
     p_History = \<lambda>p a b. Inl ''no backend''\<rparr>"

theorem store_ring_refines_log_witness:
  "\<exists>s. run_puts (Put nil_persister key_order) ([demo_snap 1, demo_snap 2] @ [demo_snap 3])
      (SetPersister () None (New 2)) = Some s \<and> store_wf s \<and>
    ring_list s = last_n (nat (max 1 2)) ([demo_snap 1, demo_snap 2] @ [demo_snap 3]) \<and>
    Latest s = Some (demo_snap 3, True)"
  by (rule store_ring_refines_log) (rule key_order.map_order_axioms)

lemma At_ring_closest:
  assumes "store_wf s" "st_persist s = None" "ring_list s \<noteq> []"
    and "\<forall>x \<in> set (ring_list s). \<bar>t - snap_TakenAt x\<bar> < max_int64"
  shows "\<exists>older x newer. ring_list s = older @ x # newer \<and> At ops t s = Some (s, x, True) \<and>
    (\<forall>y \<in> set older. \<bar>t - snap_TakenAt x\<bar> \<le> \<bar>t - snap_TakenAt y\<bar>) \<and>
    (\<forall>y \<in> set newer. \<bar>t - snap_TakenAt x\<bar> < \<bar>t - snap_TakenAt y\<bar>)"
proof -
  have ring: "ring_wf s" using assms(1) by (simp add: store_wf_def)
  have exact: "at_diff t (snap_TakenAt x) = \<bar>t - snap_TakenAt x\<bar>" if "x \<in> set (ring_list s)" for x
    using assms(4) that by (intro at_diff_exact) force
  have "\<exists>x \<in> set (rev (ring_list s)). at_diff t (snap_TakenAt x) < max_int64"
    using assms(3,4) exact by (metis last_in_set set_rev)
  from at_scan_found [OF this, of zero_snapshot False] obtain ys x zs where
    split: "rev (ring_list s) = ys @ x # zs"
    and scan: "at_scan t (rev (ring_list s)) zero_snapshot max_int64 False = (x, True)"
    and best: "\<forall>y \<in> set ys. at_diff t (snap_TakenAt x) < at_diff t (snap_TakenAt y)"
      "\<forall>z \<in> set zs. at_diff t (snap_TakenAt x) \<le> at_diff t (snap_TakenAt z)" by blast
  have eq: "ring_list s = rev zs @ x # rev ys" using split by (simp add: rev_swap)
  moreover have "At ops t s = Some (s, x, True)"
    using assms(2) scan by (simp add: At_def at_ring_scan [OF ring])
  ultimately show ?thesis
    using best exact by (intro exI [of _ "rev zs"] exI [of _ x] exI [of _ "rev ys"]) simp
qed

text \<open>C35: \<open>At\<close> without a durable backend returns the retained snapshot closest in time
  to \<open>t\<close>, the newest one among equally close ones, whenever the distances involved are
  below the largest duration (about 292 years).\<close>

theorem At_ring_nearest:
  assumes "store_wf s" "st_persist s = None" "ring_list s \<noteq> []"
    and "\<forall>x \<in> set (ring_list s). \<bar>t - snap_TakenAt x\<bar> < max_int64"
  shows "\<exists>older x newer. ring_list s = older @ x # newer \<and> At ops t s = Some (s, x, True) \<and>
    (\<forall>y \<in> set older. \<bar>t - snap_TakenAt x\<bar> \<le> \<bar>t - snap_TakenAt y\<bar>) \<and>
    (\<forall>y \<in> set newer. \<bar>t - snap_TakenAt x\<bar> < \<bar>t - snap_TakenAt y\<bar>)"
  by (rule At_ring_closest [OF assms])

text \<open>A store holding snapshots taken at 10 s and 20 s, for the witnesses.\<close>

definition demo_store :: "unit store" where
  "demo_store = (New 3)\<lparr>st_buf := [demo_snap 10, demo_snap 20, zero_snapshot], st_head := 2, st_size := 2\<rparr>"

lemma demo_store_facts:
  "store_wf demo_store" "st_persist demo_store = None" "ring_list demo_store = [demo_snap 10, demo_snap 20]"
  by (simp_all add: demo_store_def store_wf_def ring_wf_def hub_wf_def New_def Let_def ring_list_def)

theorem At_ring_nearest_witness:
  "\<exists>older x newer. ring_list demo_store = older @ x # newer \<and>
    At nil_persister 12 demo_store = Some (demo_store, x, True) \<and>
    (\<forall>y \<in> set older. \<bar>12 - snap_TakenAt x\<bar> \<le> \<bar>12 - snap_TakenAt y\<bar>) \<and>
    (\<forall>y \<in> set newer. \<bar>12 - snap_TakenAt x\<bar> < \<bar>12 - snap_TakenAt y\<bar>)"
  by (rule At_ring_nearest) (simp_all add: demo_store_facts demo_snap_def zero_snapshot_def)

text \<open>Beyond that range the distances saturate and \<open>At\<close> is no longer the nearest
  neighbour. For a \<open>t\<close> at least the largest duration after every retained snapshot it
  reports that there is none; for a \<open>t\<close> at least the least duration before all of them the
  negated distance stays negative, and it returns the newest snapshot, not the oldest.\<close>

theorem At_ring_saturates:
  assumes "store_wf s" "st_persist s = None" "ring_list s \<noteq> []"
  shows "((\<forall>x \<in> set (ring_list s). max_int64 \<le> t - snap_TakenAt x) \<longrightarrow>
      At ops t s = Some (s, zero_snapshot, False)) \<and>
    ((\<forall>x \<in> set (ring_list s). t - snap_TakenAt x \<le> min_int64) \<longrightarrow>
      At ops t s = Some (s, last (ring_list s), True))"
proof (intro conjI impI)
  have ring: "ring_wf s" using assms(1) by (simp add: store_wf_def)
  have At_scan: "At ops t s = Some (s, at_scan t (rev (ring_list s)) zero_snapshot max_int64 False)"
    using assms(2) by (simp add: At_def at_ring_scan [OF ring])
  {
    assume "\<forall>x \<in> set (ring_list s). max_int64 \<le> t - snap_TakenAt x"
    then have "\<forall>x \<in> set (rev (ring_list s)). max_int64 \<le> at_diff t (snap_TakenAt x)"
      by (metis at_diff_future order_refl set_rev)
    then show "At ops t s = Some (s, zero_snapshot, False)"
      by (simp only: At_scan at_scan_none)
  }
  assume "\<forall>x \<in> set (ring_list s). t - snap_TakenAt x \<le> min_int64"
  then have least: "at_diff t (snap_TakenAt x) = min_int64" if "x \<in> set (ring_list s)" for x
    using that by (intro at_diff_past) blast
  obtain xs x where split: "ring_list s = xs @ [x]" using assms(3) by (metis append_butlast_last_id)
  have "at_scan t (rev xs) x min_int64 True = (x, True)"
    using least split by (intro at_scan_none) auto
  then show "At ops t s = Some (s, last (ring_list s), True)"
    using least [of x] by (simp add: At_scan split Let_def)
qed

theorem At_ring_saturates_witness:
  "At nil_persister (2 ^ 64) demo_store = Some (demo_store, zero_snapshot, False) \<and>
   At nil_persister (- (2 ^ 64)) demo_store = Some (demo_store, demo_snap 20, True)"
  using At_ring_saturates [OF demo_store_facts(1,2), of "2 ^ 64" nil_persister]
    At_ring_saturates [OF demo_store_facts(1,2), of "- (2 ^ 64)" nil_persister]
  by (simp add: demo_store_facts demo_snap_def)

text \<open>\<open>History\<close> without a durable backend lists, oldest first, the summaries of
  exactly the retained snapshots in the window, a zero bound meaning no bound.\<close>

theorem History_ring_window:
  assumes "store_wf s" "st_persist s = None"
  shows "History ops from to s = Some (s, map meta_of (filter (in_window from to) (ring_list s)))"
  using assms history_ring [of s "from" to] by (simp add: History_def store_wf_def)

theorem History_ring_window_witness:
  "History nil_persister 15 zero_time demo_store =
     Some (demo_store, map meta_of (filter (in_window 15 zero_time) (ring_list demo_store)))"
  by (rule History_ring_window) (simp_all add: demo_store_facts)

end
