(* ===== verification/Hub.thy ===== *)
theory Hub
  imports Store
begin

text \<open>
  The subscriber hub of \<open>internal/store\<close> under concurrency. \<open>Put\<close> writes the ring and
  copies the subscriber table under the lock, then saves and sends outside it, so the other
  goroutines run between its parts. A state is the store, the \<open>Put\<close> in flight (there is
  one poller goroutine), whether a send has panicked, and two histories kept for the
  properties: the snapshots put so far and what each subscriber has received. The
  parameter \<open>serial\<close> of the step relation restricts \<open>unsubscribe\<close> to moments with no
  \<open>Put\<close> in flight.
\<close>

datatype put_phase =
    Persisting snapshot "chan_ref list"
  | Sending snapshot "chan_ref list"

record 'p hub =
  hub_store :: "'p store"
  hub_pending :: "put_phase option"
  hub_panicked :: bool
  hub_puts :: "snapshot list"
  hub_recv :: "chan_ref \<Rightarrow> snapshot list"

definition hub_init :: "'p store \<Rightarrow> 'p hub" where
  "hub_init s = \<lparr>hub_store = s, hub_pending = None, hub_panicked = False, hub_puts = [],
     hub_recv = (\<lambda>_. [])\<rparr>"

inductive hub_step :: "bool \<Rightarrow> 'p persister \<Rightarrow> (int fset \<Rightarrow> int list) \<Rightarrow> 'p hub \<Rightarrow> 'p hub \<Rightarrow> bool"
  for serial ops ord where
  put_locked: "\<not> hub_panicked h \<Longrightarrow> hub_pending h = None \<Longrightarrow> put_ring snap (hub_store h) = Some s1 \<Longrightarrow>
    hub_step serial ops ord h
      (h\<lparr>hub_store := s1, hub_pending := Some (Persisting snap (put_capture ord s1)),
         hub_puts := hub_puts h @ [snap]\<rparr>)"
| put_saved: "\<not> hub_panicked h \<Longrightarrow> hub_pending h = Some (Persisting snap rs) \<Longrightarrow>
    hub_step serial ops ord h
      (h\<lparr>hub_store := put_persist ops snap (hub_store h), hub_pending := Some (Sending snap rs)\<rparr>)"
| put_sent: "\<not> hub_panicked h \<Longrightarrow> hub_pending h = Some (Sending snap (r # rs)) \<Longrightarrow>
    try_send r snap (st_chans (hub_store h)) = Some chans \<Longrightarrow>
    hub_step serial ops ord h
      (h\<lparr>hub_store := (hub_store h)\<lparr>st_chans := chans\<rparr>, hub_pending := Some (Sending snap rs)\<rparr>)"
| put_crashed: "\<not> hub_panicked h \<Longrightarrow> hub_pending h = Some (Sending snap (r # rs)) \<Longrightarrow>
    try_send r snap (st_chans (hub_store h)) = None \<Longrightarrow>
    hub_step serial ops ord h (h\<lparr>hub_panicked := True\<rparr>)"
| put_done: "\<not> hub_panicked h \<Longrightarrow> hub_pending h = Some (Sending snap []) \<Longrightarrow>
    hub_step serial ops ord h (h\<lparr>hub_pending := None\<rparr>)"
| subscribed: "\<not> hub_panicked h \<Longrightarrow>
    hub_step serial ops ord h (h\<lparr>hub_store := fst (Subscribe (hub_store h))\<rparr>)"
| unsubscribed: "\<not> hub_panicked h \<Longrightarrow> serial \<longrightarrow> hub_pending h = None \<Longrightarrow>
    hub_step serial ops ord h (h\<lparr>hub_store := unsubscribe sid (hub_store h)\<rparr>)"
| received: "\<not> hub_panicked h \<Longrightarrow> chan_recv r (hub_store h) = Some (s1, x) \<Longrightarrow>
    hub_step serial ops ord h
      (h\<lparr>hub_store := s1, hub_recv := (hub_recv h)(r := hub_recv h r @ [x])\<rparr>)"

inductive hub_reach :: "bool \<Rightarrow> 'p persister \<Rightarrow> (int fset \<Rightarrow> int list) \<Rightarrow> int \<Rightarrow> 'p hub \<Rightarrow> bool"
  for serial ops ord n where
  start: "hub_reach serial ops ord n (hub_init (New n))"
| step: "hub_reach serial ops ord n h \<Longrightarrow> hub_step serial ops ord h h' \<Longrightarrow> hub_reach serial ops ord n h'"

inductive_cases hub_stepE: "hub_step serial ops ord h h'"

section \<open>Invariants\<close>

text \<open>The channels a \<open>Put\<close> in flight has still to serve.\<close>

definition pending_refs :: "'p hub \<Rightarrow> chan_ref list" where
  "pending_refs h =
     (case hub_pending h of
        None \<Rightarrow> []
      | Some (Persisting _ rs) \<Rightarrow> rs
      | Some (Sending _ rs) \<Rightarrow> rs)"

definition pending_snap :: "'p hub \<Rightarrow> snapshot option" where
  "pending_snap h =
     (case hub_pending h of
        None \<Rightarrow> None
      | Some (Persisting x _) \<Rightarrow> Some x
      | Some (Sending x _) \<Rightarrow> Some x)"

definition hub_inv :: "'p hub \<Rightarrow> bool" where
  "hub_inv h \<longleftrightarrow> store_wf (hub_store h) \<and> distinct (pending_refs h) \<and>
     set (pending_refs h) \<subseteq> map_keys (st_chans (hub_store h)) \<and>
     (\<forall>x. pending_snap h = Some x \<longrightarrow> hub_puts h \<noteq> [] \<and> last (hub_puts h) = x) \<and>
     (\<forall>r. fmlookup (st_chans (hub_store h)) r = None \<longrightarrow> hub_recv h r = []) \<and>
     (\<forall>r c. fmlookup (st_chans (hub_store h)) r = Some c \<longrightarrow>
        (r \<in> set (pending_refs h) \<longrightarrow> subseq (hub_recv h r @ ch_buf c) (butlast (hub_puts h))) \<and>
        (r \<notin> set (pending_refs h) \<longrightarrow> subseq (hub_recv h r @ ch_buf c) (hub_puts h)))"

definition serial_inv :: "'p hub \<Rightarrow> bool" where
  "serial_inv h \<longleftrightarrow> \<not> hub_panicked h \<and> set (pending_refs h) \<subseteq> map_keys (st_subs (hub_store h))"

lemma hub_inv_init: "hub_inv (hub_init (New n))"
  by (simp add: hub_inv_def hub_init_def New_wf pending_refs_def pending_snap_def)
    (simp add: New_def Let_def)

lemma store_wf_cong:
  assumes "store_wf s" "st_buf s' = st_buf s" "st_head s' = st_head s" "st_size s' = st_size s"
    "st_cap s' = st_cap s" "st_subs s' = st_subs s" "st_nextID s' = st_nextID s" "st_chans s' = st_chans s"
  shows "store_wf s'"
  using assms by (simp add: store_wf_def ring_wf_def hub_wf_def)

lemma store_wf_chans:
  assumes "store_wf s" "st_subs s' = st_subs s" "st_nextID s' = st_nextID s" "st_chans s' = st_chans s"
    "ring_wf s'"
  shows "store_wf s'"
  using assms by (simp add: store_wf_def hub_wf_def)

lemma put_capture_wf:
  assumes "store_wf s" "map_order ord"
  shows "distinct (put_capture ord s)" "set (put_capture ord s) = map_keys (st_subs s)"
proof -
  have look: "fmlookup (st_subs s) sid = Some r \<Longrightarrow> r = sid" for sid r
    using assms(1) by (simp add: store_wf_def hub_wf_def)
  have eq: "put_capture ord s = ord (fmdom (st_subs s))"
  proof -
    have "List.map_filter f xs = xs" if "\<forall>x \<in> set xs. f x = Some x" for f :: "int \<Rightarrow> int option" and xs
      using that by (induction xs) (simp_all add: List.map_filter_simps)
    moreover have "\<forall>x \<in> set (ord (fmdom (st_subs s))). fmlookup (st_subs s) x = Some x"
      using look by (auto simp: map_order.ord_set [OF assms(2)])
    ultimately show ?thesis by (simp add: put_capture_def)
  qed
  show "distinct (put_capture ord s)" by (simp add: eq map_order.ord_distinct [OF assms(2)])
  show "set (put_capture ord s) = map_keys (st_subs s)" by (simp add: eq map_order.ord_set [OF assms(2)])
qed

lemma subs_have_chans:
  assumes "store_wf s"
  shows "map_keys (st_subs s) \<subseteq> map_keys (st_chans s)"
  using assms by (force simp: store_wf_def hub_wf_def intro: fmdomI)

lemma try_send_cases:
  assumes "try_send r x ch = Some ch'"
  obtains c where "fmlookup ch r = Some c" "\<not> ch_closed c"
    "\<forall>q. fmlookup ch' q = (if q = r then Some (deliver x c) else fmlookup ch q)"
  using assms by (auto simp: try_send_def deliver_def split: if_splits bind_splits)

lemma fmdom_eq_iff: "fmdom m = fmdom n \<longleftrightarrow> (\<forall>k. fmlookup m k = None \<longleftrightarrow> fmlookup n k = None)"
  by (auto simp: fset_eq_iff fmlookup_dom_iff) (metis not_None_eq)+

lemma subseq_butlast: "subseq xs (butlast ps) \<Longrightarrow> subseq xs ps"
  by (metis append_butlast_last_id butlast.simps(1) subseq_rev_drop_many)

lemma subseq_deliver:
  assumes "subseq (xs @ ch_buf c) (butlast ps)" "ps \<noteq> []" "last ps = x"
  shows "subseq (xs @ ch_buf (deliver x c)) ps"
proof -
  have ps: "ps = butlast ps @ [x]" using assms(2,3) by (metis append_butlast_last_id)
  show ?thesis
  proof (cases "ch_buf c = []")
    case True
    then have "subseq (xs @ [x]) (butlast ps @ [x])" using assms(1) by simp
    with True ps show ?thesis by (simp add: deliver_def)
  next
    case False
    with assms(1) ps show ?thesis by (metis deliver_def subseq_rev_drop_many)
  qed
qed

lemma put_ring_store_wf:
  assumes "store_wf s" "put_ring x s = Some s1"
  shows "store_wf s1"
  by (rule store_wf_chans [OF assms(1)])
    (use put_ring_hub [OF assms(2)] put_ring_wf [OF _ assms(2)] assms(1) in \<open>auto simp: store_wf_def\<close>)

text \<open>Each kind of step keeps the invariant.\<close>

lemma hub_inv_put_locked:
  assumes "map_order ord" "hub_inv h" "hub_pending h = None" "put_ring x (hub_store h) = Some s1"
  shows "hub_inv (h\<lparr>hub_store := s1, hub_pending := Some (Persisting x (put_capture ord s1)),
     hub_puts := hub_puts h @ [x]\<rparr>)"
proof -
  have wf: "store_wf (hub_store h)" using assms(2) by (simp add: hub_inv_def)
  then have wf1: "store_wf s1" using assms(4) by (rule put_ring_store_wf)
  have grow: "subseq ys (hub_puts h) \<Longrightarrow> subseq ys (hub_puts h @ [x])" for ys
    by (metis subseq_rev_drop_many)
  show ?thesis
    using assms(2,3) wf1 put_capture_wf [OF wf1 assms(1)] subs_have_chans [OF wf1] grow put_ring_hub [OF assms(4)]
    by (auto simp: hub_inv_def pending_refs_def pending_snap_def)
qed

lemma hub_inv_put_saved:
  assumes "hub_inv h" "hub_pending h = Some (Persisting x rs)"
  shows "hub_inv (h\<lparr>hub_store := put_persist ops x (hub_store h), hub_pending := Some (Sending x rs)\<rparr>)"
  using assms store_wf_cong [of "hub_store h" "put_persist ops x (hub_store h)"]
  by (auto simp: hub_inv_def pending_refs_def pending_snap_def)

lemma hub_inv_put_sent:
  assumes "hub_inv h" "hub_pending h = Some (Sending x (r # rs))"
    "try_send r x (st_chans (hub_store h)) = Some ch"
  shows "hub_inv (h\<lparr>hub_store := (hub_store h)\<lparr>st_chans := ch\<rparr>, hub_pending := Some (Sending x rs)\<rparr>)"
proof -
  obtain c where c: "fmlookup (st_chans (hub_store h)) r = Some c"
    and look: "\<forall>q. fmlookup ch q = (if q = r then Some (deliver x c) else fmlookup (st_chans (hub_store h)) q)"
    using try_send_cases [OF assms(3)] by blast
  have dom: "fmdom ch = fmdom (st_chans (hub_store h))" using c look by (auto simp: fmdom_eq_iff)
  have wf: "store_wf ((hub_store h)\<lparr>st_chans := ch\<rparr>)"
    using assms(1) c look hub_wf_deliver [of "hub_store h" "(hub_store h)\<lparr>st_chans := ch\<rparr>" "{r}" x]
    by (auto simp: hub_inv_def store_wf_def ring_wf_def)
  have "r \<notin> set rs" "hub_puts h \<noteq> []" "last (hub_puts h) = x"
    "subseq (hub_recv h r @ ch_buf c) (butlast (hub_puts h))"
    using assms(1,2) c by (auto simp: hub_inv_def pending_refs_def pending_snap_def)
  then have "subseq (hub_recv h r @ ch_buf (deliver x c)) (hub_puts h)" "r \<notin> set rs"
    by (simp_all add: subseq_deliver)
  then show ?thesis
    using assms(1,2) wf dom look c by (auto simp: hub_inv_def pending_refs_def pending_snap_def)
qed

lemma hub_inv_put_done:
  "hub_inv h \<Longrightarrow> hub_pending h = Some (Sending x []) \<Longrightarrow> hub_inv (h\<lparr>hub_pending := None\<rparr>)"
  by (simp add: hub_inv_def pending_refs_def pending_snap_def)

lemma pending_frame [simp]:
  "pending_refs (h\<lparr>hub_store := s\<rparr>) = pending_refs h" "pending_snap (h\<lparr>hub_store := s\<rparr>) = pending_snap h"
  "pending_refs (h\<lparr>hub_panicked := b\<rparr>) = pending_refs h" "pending_snap (h\<lparr>hub_panicked := b\<rparr>) = pending_snap h"
  "pending_refs (h\<lparr>hub_recv := f\<rparr>) = pending_refs h" "pending_snap (h\<lparr>hub_recv := f\<rparr>) = pending_snap h"
  by (simp_all add: pending_refs_def pending_snap_def)

lemma hub_inv_subscribed:
  assumes "hub_inv h"
  shows "hub_inv (h\<lparr>hub_store := fst (Subscribe (hub_store h))\<rparr>)"
proof -
  let ?s = "hub_store h" and ?r = "st_nextID (hub_store h)"
  have "fmlookup (st_chans ?s) ?r = None"
    using assms by (cases "fmlookup (st_chans ?s) ?r") (force simp: hub_inv_def store_wf_def hub_wf_def)+
  then have "hub_recv h ?r = []" "?r \<notin> map_keys (st_chans ?s)"
    using assms by (auto simp: hub_inv_def dest: fmdom_notI)
  moreover have "st_chans (fst (Subscribe ?s)) = fmupd ?r \<lparr>ch_buf = [], ch_closed = False\<rparr> (st_chans ?s)"
    by (simp add: Subscribe_def Let_def)
  ultimately show ?thesis using assms Subscribe_wf [of ?s] by (auto simp: hub_inv_def)
qed

lemma hub_inv_unsubscribed:
  assumes "hub_inv h"
  shows "hub_inv (h\<lparr>hub_store := unsubscribe sid (hub_store h)\<rparr>)"
proof (cases "fmlookup (st_subs (hub_store h)) sid")
  case None
  with assms show ?thesis by (simp add: unsubscribe_def)
next
  case (Some r)
  let ?s = "hub_store h"
  obtain c where c: "fmlookup (st_chans ?s) r = Some c"
    using assms Some by (force simp: hub_inv_def store_wf_def hub_wf_def)
  then have ch: "st_chans (unsubscribe sid ?s) = fmupd r (c\<lparr>ch_closed := True\<rparr>) (st_chans ?s)"
    using Some by (simp add: unsubscribe_def)
  have "r \<in> map_keys (st_chans ?s)" using c by (rule fmdomI)
  then show ?thesis
    using assms c ch unsubscribe_wf [of ?s sid] by (auto simp: hub_inv_def split: if_splits)
qed

lemma hub_inv_received:
  assumes "hub_inv h" "chan_recv r (hub_store h) = Some (s1, x)"
  shows "hub_inv (h\<lparr>hub_store := s1, hub_recv := (hub_recv h)(r := hub_recv h r @ [x])\<rparr>)"
proof -
  obtain c xs where c: "fmlookup (st_chans (hub_store h)) r = Some c" "ch_buf c = x # xs"
    and s1: "st_chans s1 = fmupd r (c\<lparr>ch_buf := xs\<rparr>) (st_chans (hub_store h))"
    using assms(2) by (auto simp: chan_recv_def split: option.splits list.splits)
  have "r \<in> map_keys (st_chans (hub_store h))" using c(1) by (rule fmdomI)
  moreover have "(r \<in> set (pending_refs h) \<longrightarrow> subseq (hub_recv h r @ x # xs) (butlast (hub_puts h))) \<and>
      (r \<notin> set (pending_refs h) \<longrightarrow> subseq (hub_recv h r @ x # xs) (hub_puts h))"
    using assms(1) c unfolding hub_inv_def by metis
  ultimately show ?thesis
    using assms(1) c s1 chan_recv_wf [OF _ assms(2)] by (auto simp: hub_inv_def split: if_splits)
qed

lemma hub_step_inv:
  assumes "map_order ord" "hub_step serial ops ord h h'" "hub_inv h"
  shows "hub_inv h'"
  using assms(2)
proof (cases rule: hub_step.cases)
  case put_crashed
  then show ?thesis using assms(3) by (simp add: hub_inv_def)
qed (use assms in \<open>auto intro: hub_inv_put_locked hub_inv_put_saved hub_inv_put_sent hub_inv_put_done
    hub_inv_subscribed hub_inv_unsubscribed hub_inv_received\<close>)

lemma hub_reach_inv:
  assumes "map_order ord" "hub_reach serial ops ord n h"
  shows "hub_inv h"
  using assms(2) by (induction rule: hub_reach.induct) (auto intro: hub_inv_init hub_step_inv [OF assms(1)])

lemma serial_step_inv:
  assumes "map_order ord" "hub_step True ops ord h h'" "hub_inv h" "serial_inv h"
  shows "serial_inv h'"
  using assms(2)
proof (cases rule: hub_step.cases)
  case (put_locked snap s1)
  have wf: "store_wf s1"
    using put_locked assms(3) put_ring_store_wf by (auto simp: hub_inv_def)
  then show ?thesis
    using put_locked assms(4) put_capture_wf(2) [OF wf assms(1)] put_ring_hub(1) [OF put_locked(4)]
    by (simp add: serial_inv_def pending_refs_def)
next
  case (put_crashed snap r rs)
  have "r \<in> map_keys (st_subs (hub_store h))"
    using put_crashed assms(4) by (auto simp: serial_inv_def pending_refs_def)
  then have "\<exists>c. fmlookup (st_chans (hub_store h)) r = Some c \<and> \<not> ch_closed c"
    using assms(3) by (force simp: hub_inv_def store_wf_def hub_wf_def)
  with put_crashed(4) show ?thesis by (auto simp: try_send_def split: if_splits)
next
  case (unsubscribed sid)
  then show ?thesis using assms(4) by (simp add: serial_inv_def pending_refs_def)
next
  case (received r s1 x)
  then show ?thesis
    using assms(4) by (auto simp: serial_inv_def pending_refs_def chan_recv_def split: option.splits list.splits)
qed (use assms(4) in \<open>auto simp: serial_inv_def pending_refs_def Subscribe_def Let_def
    split: option.splits put_phase.splits\<close>)

section \<open>Properties\<close>

text \<open>C23: no subscriber ever sees a snapshot twice or out of order. In every reachable
  state of the hub, under any interleaving, what a subscriber has received is a subsequence
  of the snapshots put; together with what waits in its buffer it is a subsequence too.\<close>

theorem hub_frames_in_order:
  assumes "map_order ord" "hub_reach serial ops ord n h"
  shows "subseq (hub_recv h r) (hub_puts h)"
proof (cases "fmlookup (st_chans (hub_store h)) r")
  case None
  then show ?thesis using hub_reach_inv [OF assms] by (simp add: hub_inv_def)
next
  case (Some c)
  have "subseq (hub_recv h r @ ch_buf c) (hub_puts h)"
    using hub_reach_inv [OF assms] Some subseq_butlast unfolding hub_inv_def by metis
  moreover have "subseq (hub_recv h r) (hub_recv h r @ ch_buf c)"
    by (rule prefix_imp_subseq) simp
  ultimately show ?thesis by (rule subseq_order.trans [rotated])
qed

text \<open>A run for the witnesses: a client subscribes, a snapshot is put and delivered.\<close>

definition demo_hub :: "unit hub" where
  "demo_hub = hub_init (New 2)"

definition demo_hub1 :: "unit hub" where
  "demo_hub1 = demo_hub\<lparr>hub_store := fst (Subscribe (hub_store demo_hub))\<rparr>"

definition demo_hub2 :: "unit hub" where
  "demo_hub2 = demo_hub1\<lparr>hub_store := the (put_ring (demo_snap 1) (hub_store demo_hub1)),
     hub_pending := Some (Persisting (demo_snap 1) [0]), hub_puts := [demo_snap 1]\<rparr>"

definition demo_hub3 :: "unit hub" where
  "demo_hub3 = demo_hub2\<lparr>hub_pending := Some (Sending (demo_snap 1) [0])\<rparr>"

lemmas demo_hub_defs = demo_hub_def demo_hub1_def demo_hub2_def demo_hub3_def hub_init_def New_def
  Let_def Subscribe_def put_ring_def idx_set_def go_mod_def go_rem_def

lemma demo_hub3_reach: "hub_reach serial nil_persister key_order 2 demo_hub3"
proof -
  have "hub_reach serial nil_persister key_order 2 demo_hub"
    unfolding demo_hub_def by (rule hub_reach.start)
  moreover have "hub_step serial nil_persister key_order demo_hub demo_hub1"
    unfolding demo_hub1_def by (rule hub_step.subscribed) (simp add: demo_hub_defs)
  moreover have "hub_step serial nil_persister key_order demo_hub1 demo_hub2"
  proof -
    obtain s1 where s1: "put_ring (demo_snap 1) (hub_store demo_hub1) = Some s1"
      by (simp add: demo_hub_defs)
    have "st_subs s1 = fmupd 0 0 fmempty"
      using put_ring_hub(1) [OF s1]
      by (simp add: demo_hub1_def demo_hub_def hub_init_def New_def Let_def Subscribe_def)
    then have "put_capture key_order s1 = [0]" by (simp add: put_capture_def List.map_filter_def)
    moreover have "\<not> hub_panicked demo_hub1" "hub_pending demo_hub1 = None" "hub_puts demo_hub1 = []"
      by (simp_all add: demo_hub1_def demo_hub_def hub_init_def)
    ultimately show ?thesis
      using hub_step.put_locked [of demo_hub1 "demo_snap 1" s1 serial nil_persister key_order] s1 by (simp add: demo_hub2_def)
  qed
  moreover have "hub_step serial nil_persister key_order demo_hub2 demo_hub3"
  proof -
    have "put_persist nil_persister (demo_snap 1) (hub_store demo_hub2) = hub_store demo_hub2"
      by (simp add: put_persist_def demo_hub_defs)
    moreover have "\<not> hub_panicked demo_hub2" "hub_pending demo_hub2 = Some (Persisting (demo_snap 1) [0])"
      by (simp_all add: demo_hub2_def demo_hub1_def demo_hub_def hub_init_def)
    ultimately show ?thesis
      using hub_step.put_saved [of demo_hub2 "demo_snap 1" "[0]" serial nil_persister key_order] by (simp add: demo_hub3_def)
  qed
  ultimately show ?thesis by (blast intro: hub_reach.step)
qed

theorem hub_frames_in_order_witness: "subseq (hub_recv demo_hub3 0) (hub_puts demo_hub3)"
  by (rule hub_frames_in_order [OF key_order.map_order_axioms demo_hub3_reach [of False]])

text \<open>C24: while no client unsubscribes during a \<open>Put\<close>, no send hits a closed channel:
  the poller goroutine never panics.\<close>

theorem hub_serial_no_panic:
  assumes "map_order ord" "hub_reach True ops ord n h"
  shows "\<not> hub_panicked h"
proof -
  from assms(2) have "serial_inv h"
  proof (induction rule: hub_reach.induct)
    case start
    show ?case by (simp add: serial_inv_def hub_init_def pending_refs_def)
  next
    case (step h h')
    then show ?case using serial_step_inv [OF assms(1) step(2)] hub_reach_inv [OF assms(1)] by blast
  qed
  then show ?thesis by (simp add: serial_inv_def)
qed

theorem hub_serial_no_panic_witness: "\<not> hub_panicked demo_hub3"
  by (rule hub_serial_no_panic [OF key_order.map_order_axioms demo_hub3_reach])

text \<open>Without that restriction the poller can panic. A client that unsubscribes after
  \<open>Put\<close> has copied the subscriber table and before it sends has its channel closed under
  the send, and a send on a closed channel panics even in a \<open>select\<close> with a default.\<close>

theorem hub_race_panics:
  "\<exists>h. hub_reach False nil_persister key_order 2 h \<and> hub_panicked h"
proof -
  let ?h4 = "demo_hub3\<lparr>hub_store := unsubscribe 0 (hub_store demo_hub3)\<rparr>"
  have run: "\<not> hub_panicked demo_hub3" "hub_pending demo_hub3 = Some (Sending (demo_snap 1) [0])"
    by (simp_all add: demo_hub3_def demo_hub2_def demo_hub1_def demo_hub_def hub_init_def)
  then have "hub_step False nil_persister key_order demo_hub3 ?h4"
    by (intro hub_step.unsubscribed) simp_all
  moreover have "try_send 0 (demo_snap 1) (st_chans (hub_store ?h4)) = None"
    by (simp add: demo_hub_defs unsubscribe_def try_send_def)
  then have "hub_step False nil_persister key_order ?h4 (?h4\<lparr>hub_panicked := True\<rparr>)"
    using run by (intro hub_step.put_crashed [of _ "demo_snap 1" 0 "[]"]) simp_all
  ultimately have "hub_reach False nil_persister key_order 2 (?h4\<lparr>hub_panicked := True\<rparr>)"
    using demo_hub3_reach [of False] by (blast intro: hub_reach.step)
  then show ?thesis by (rule exI [of _ "?h4\<lparr>hub_panicked := True\<rparr>", OF conjI]) simp
qed

end
