(* ===== verification/Utf8.thy ===== *)
theory Utf8
  imports Prelude
begin

text \<open>
  Go strings and runes. A Go string is a sequence of bytes; the model writes it as a
  \<open>string\<close>, whose characters are 8-bit values. A rune is a code point, a \<open>nat\<close>.
  \<open>runes_of\<close> is the conversion \<open>[]rune(s)\<close> (an invalid byte becomes U+FFFD),
  \<open>string_of\<close> the conversion \<open>string(rs)\<close> and what \<open>WriteRune\<close> appends,
  \<open>str_index\<close> the byte offset \<open>strings.Index\<close> returns. The lemmas give the round trip on
  valid runes and the ASCII case.
\<close>

type_synonym rune = nat

abbreviation byte_val :: "char \<Rightarrow> nat" where "byte_val \<equiv> of_char"

definition valid_rune :: "rune \<Rightarrow> bool" where
  "valid_rune r \<longleftrightarrow> r < 55296 \<or> (57343 < r \<and> r \<le> 1114111)"

abbreviation rune_error :: rune where "rune_error \<equiv> 65533"

definition enc_bytes :: "rune \<Rightarrow> nat list" where
  "enc_bytes r =
     (if r < 128 then [r]
      else if r < 2048 then [192 + r div 64, 128 + r mod 64]
      else if \<not> valid_rune r then [239, 191, 189]
      else if r < 65536 then [224 + r div 4096, 128 + (r div 64) mod 64, 128 + r mod 64]
      else [240 + r div 262144, 128 + (r div 4096) mod 64, 128 + (r div 64) mod 64, 128 + r mod 64])"

definition enc_rune :: "rune \<Rightarrow> string" where
  "enc_rune r = map char_of (enc_bytes r)"

definition string_of :: "rune list \<Rightarrow> string" where
  "string_of rs = concat (map enc_rune rs)"

text \<open>A continuation byte, and the range the second byte must lie in.\<close>

definition cont_byte :: "nat \<Rightarrow> bool" where
  "cont_byte b \<longleftrightarrow> 128 \<le> b \<and> b \<le> 191"

definition second_ok :: "nat \<Rightarrow> nat \<Rightarrow> bool" where
  "second_ok a b \<longleftrightarrow>
     (if a = 224 then 160 \<le> b \<and> b \<le> 191
      else if a = 237 then 128 \<le> b \<and> b \<le> 159
      else if a = 240 then 144 \<le> b \<and> b \<le> 191
      else if a = 244 then 128 \<le> b \<and> b \<le> 143
      else cont_byte b)"

text \<open>One decoding step on the bytes: the rune and how many bytes it takes.\<close>

fun dec_bytes :: "nat list \<Rightarrow> rune \<times> nat" where
  "dec_bytes [] = (rune_error, 1)"
| "dec_bytes (a # bs) =
     (if a < 128 then (a, 1)
      else if 194 \<le> a \<and> a \<le> 223 then
        (case bs of
           b # _ \<Rightarrow> if second_ok a b then ((a - 192) * 64 + (b - 128), 2) else (rune_error, 1)
         | _ \<Rightarrow> (rune_error, 1))
      else if 224 \<le> a \<and> a \<le> 239 then
        (case bs of
           b # c # _ \<Rightarrow>
             if second_ok a b \<and> cont_byte c
             then ((a - 224) * 4096 + (b - 128) * 64 + (c - 128), 3) else (rune_error, 1)
         | _ \<Rightarrow> (rune_error, 1))
      else if 240 \<le> a \<and> a \<le> 244 then
        (case bs of
           b # c # d # _ \<Rightarrow>
             if second_ok a b \<and> cont_byte c \<and> cont_byte d
             then ((a - 240) * 262144 + (b - 128) * 4096 + (c - 128) * 64 + (d - 128), 4)
             else (rune_error, 1)
         | _ \<Rightarrow> (rune_error, 1))
      else (rune_error, 1))"

lemma dec_bytes_pos: "0 < snd (dec_bytes bs)"
  by (cases bs) (auto split: list.splits)

function dec_all :: "nat list \<Rightarrow> rune list" where
  "dec_all bs =
     (if bs = [] then [] else fst (dec_bytes bs) # dec_all (drop (snd (dec_bytes bs)) bs))"
  by pat_completeness auto
termination
  by (relation "measure length") (auto simp: dec_bytes_pos)

declare dec_all.simps [simp del]

definition runes_of :: "string \<Rightarrow> rune list" where
  "runes_of s = dec_all (map byte_val s)"

text \<open>The least offset at which \<open>pat\<close> occurs in \<open>s\<close>.\<close>

fun str_index :: "'a list \<Rightarrow> 'a list \<Rightarrow> nat option" where
  "str_index [] pat = (if pat = [] then Some 0 else None)"
| "str_index (c # s) pat =
     (if take (length pat) (c # s) = pat then Some 0 else map_option Suc (str_index s pat))"

section \<open>Round trip\<close>

lemma dec_all_Nil [simp]: "dec_all [] = []"
  by (simp add: dec_all.simps)

lemma valid_rune_cases:
  assumes "valid_rune r"
  obtains "r < 128" | "128 \<le> r" "r < 2048" | "2048 \<le> r" "r < 65536" "r < 55296 \<or> 57343 < r"
  | "65536 \<le> r" "r \<le> 1114111"
  using assms unfolding valid_rune_def by linarith

lemma split_4096: "(r::nat) = r div 4096 * 4096 + r div 64 mod 64 * 64 + r mod 64"
proof -
  have "r div 4096 = r div 64 div 64" by (simp add: div_mult2_eq [symmetric])
  moreover have "r div 64 = r div 64 div 64 * 64 + r div 64 mod 64" "r = r div 64 * 64 + r mod 64"
    by simp_all
  ultimately show ?thesis by linarith
qed

lemma split_262144:
  "(r::nat) = r div 262144 * 262144 + r div 4096 mod 64 * 4096 + r div 64 mod 64 * 64 + r mod 64"
proof -
  have "r div 262144 = r div 4096 div 64" by (simp add: div_mult2_eq [symmetric])
  moreover have "r div 4096 = r div 4096 div 64 * 64 + r div 4096 mod 64" by simp
  ultimately show ?thesis using split_4096 [of r] by linarith
qed

lemma dec_enc_bytes:
  assumes "valid_rune r"
  shows "dec_bytes (enc_bytes r @ rest) = (r, length (enc_bytes r))"
  using assms
proof (cases rule: valid_rune_cases)
  case 1
  then show ?thesis by (simp add: enc_bytes_def)
next
  case 2
  then have "2 \<le> r div 64" "r div 64 < 32" "r mod 64 < 64" by auto
  then show ?thesis
    using 2 by (simp add: enc_bytes_def second_ok_def cont_byte_def)
next
  case 3
  define a b c where "a = r div 4096" "b = (r div 64) mod 64" "c = r mod 64"
  have r: "r = a * 4096 + b * 64 + c" and "a < 16" "b < 64" "c < 64"
    using 3 split_4096 [of r] by (auto simp: a_b_c_def)
  moreover have "a = 0 \<Longrightarrow> 32 \<le> b" "a = 13 \<Longrightarrow> b < 32"
    using 3 r \<open>b < 64\<close> \<open>c < 64\<close> by auto
  moreover have "enc_bytes r = [224 + a, 128 + b, 128 + c]"
    using 3 assms by (simp add: enc_bytes_def a_b_c_def)
  ultimately show ?thesis
    by (auto simp: second_ok_def cont_byte_def)
next
  case 4
  define a b c d where "a = r div 262144" "b = (r div 4096) mod 64" "c = (r div 64) mod 64" "d = r mod 64"
  have r: "r = a * 262144 + b * 4096 + c * 64 + d" and "a \<le> 4" "b < 64" "c < 64" "d < 64"
    using 4 split_262144 [of r] by (auto simp: a_b_c_d_def)
  moreover have "a = 0 \<Longrightarrow> 16 \<le> b" "a = 4 \<Longrightarrow> b < 16"
    using 4 r \<open>b < 64\<close> \<open>c < 64\<close> \<open>d < 64\<close> by auto
  moreover have "enc_bytes r = [240 + a, 128 + b, 128 + c, 128 + d]"
    using 4 assms by (simp add: enc_bytes_def a_b_c_d_def)
  ultimately show ?thesis
    by (auto simp: second_ok_def cont_byte_def)
qed

lemma map_byte_val_enc_rune: "map byte_val (enc_rune r) = enc_bytes r"
proof -
  have "\<forall>b \<in> set (enc_bytes r). b < 256"
    by (auto simp: enc_bytes_def valid_rune_def)
  then show ?thesis by (simp add: enc_rune_def comp_def map_idI)
qed

lemma enc_bytes_not_Nil [simp]: "enc_bytes r \<noteq> []"
  by (simp add: enc_bytes_def)

lemma runes_of_string_of_append:
  "\<forall>r \<in> set rs. valid_rune r \<Longrightarrow>
   dec_all (concat (map enc_bytes rs) @ bs) = rs @ dec_all bs"
  by (induction rs) (simp_all add: dec_all.simps [of "enc_bytes _ @ _"] dec_enc_bytes)

lemma map_byte_val_string_of: "map byte_val (string_of rs) = concat (map enc_bytes rs)"
  by (induction rs) (simp_all add: string_of_def map_byte_val_enc_rune)

lemma runes_of_string_of [simp]:
  "\<forall>r \<in> set rs. valid_rune r \<Longrightarrow> runes_of (string_of rs) = rs"
  using runes_of_string_of_append [of rs "[]"] by (simp add: runes_of_def map_byte_val_string_of)

lemma dec2_valid:
  assumes "194 \<le> a" "a \<le> 223" "second_ok a b"
  shows "valid_rune ((a - 192) * 64 + (b - 128))"
proof -
  have "b - 128 \<le> 63" "a - 192 \<le> 31"
    using assms by (auto simp: second_ok_def cont_byte_def split: if_splits)
  then show ?thesis unfolding valid_rune_def by linarith
qed

lemma dec3_valid:
  assumes "224 \<le> a" "a \<le> 239" "second_ok a b" "cont_byte c"
  shows "valid_rune ((a - 224) * 4096 + (b - 128) * 64 + (c - 128))"
proof -
  have "b - 128 \<le> 63" "c - 128 \<le> 63" "a = 237 \<Longrightarrow> b - 128 \<le> 31"
    using assms(3,4) by (auto simp: second_ok_def cont_byte_def split: if_splits)
  moreover have "a - 224 \<le> 12 \<or> a = 237 \<or> 14 \<le> a - 224 \<and> a - 224 \<le> 15" using assms(1,2) by linarith
  ultimately show ?thesis unfolding valid_rune_def by auto
qed

lemma dec4_valid:
  assumes "240 \<le> a" "a \<le> 244" "second_ok a b" "cont_byte c" "cont_byte d"
  shows "valid_rune ((a - 240) * 262144 + (b - 128) * 4096 + (c - 128) * 64 + (d - 128))"
proof -
  have "b - 128 \<le> 63" "c - 128 \<le> 63" "d - 128 \<le> 63" "a = 240 \<Longrightarrow> 16 \<le> b - 128" "a = 244 \<Longrightarrow> b - 128 \<le> 15"
    using assms(3,4,5) by (auto simp: second_ok_def cont_byte_def split: if_splits)
  moreover have "a = 240 \<or> 1 \<le> a - 240 \<and> a - 240 \<le> 3 \<or> a = 244" using assms(1,2) by linarith
  ultimately show ?thesis unfolding valid_rune_def by auto
qed

lemma dec_bytes_valid: "valid_rune (fst (dec_bytes bs))"
proof -
  have "valid_rune rune_error" "\<And>a. a < 128 \<Longrightarrow> valid_rune a" by (simp_all add: valid_rune_def)
  then show ?thesis
    by (cases bs) (auto simp: dec2_valid dec3_valid dec4_valid split: list.splits)
qed

lemma dec_all_valid: "\<forall>r \<in> set (dec_all bs). valid_rune r"
proof (induction bs rule: dec_all.induct)
  case (1 bs)
  then show ?case using dec_bytes_valid [of bs] by (subst dec_all.simps) auto
qed

lemma runes_of_valid: "r \<in> set (runes_of s) \<Longrightarrow> valid_rune r"
  by (simp add: runes_of_def dec_all_valid)

section \<open>ASCII\<close>

definition ascii :: "string \<Rightarrow> bool" where
  "ascii s \<longleftrightarrow> (\<forall>c \<in> set s. byte_val c < 128)"

lemma ascii_simps [simp]: "ascii []" "ascii (c # s) \<longleftrightarrow> byte_val c < 128 \<and> ascii s"
  "ascii (s @ t) \<longleftrightarrow> ascii s \<and> ascii t"
  by (auto simp: ascii_def)

lemma runes_of_ascii: "ascii s \<Longrightarrow> runes_of s = map byte_val s"
  by (induction s) (simp_all add: runes_of_def dec_all.simps)

lemma string_of_Cons [simp]: "string_of (r # rs) = enc_rune r @ string_of rs"
  by (simp add: string_of_def)

lemma string_of_Nil [simp]: "string_of [] = []"
  by (simp add: string_of_def)

lemma string_of_append [simp]: "string_of (xs @ ys) = string_of xs @ string_of ys"
  by (simp add: string_of_def)

lemma enc_rune_ascii: "r < 128 \<Longrightarrow> enc_rune r = [char_of r]"
  by (simp add: enc_rune_def enc_bytes_def)

lemma string_of_ascii: "\<forall>r \<in> set rs. r < 128 \<Longrightarrow> string_of rs = map char_of rs"
  by (induction rs) (simp_all add: enc_rune_ascii)

lemma string_of_inj_valid:
  "\<forall>r \<in> set rs. valid_rune r \<Longrightarrow> \<forall>r \<in> set rs'. valid_rune r \<Longrightarrow> string_of rs = string_of rs' \<Longrightarrow> rs = rs'"
  by (metis runes_of_string_of)

section \<open>Searching\<close>

lemma str_index_Some:
  "str_index s pat = Some k \<Longrightarrow> k + length pat \<le> length s \<and> take (length pat) (drop k s) = pat"
proof (induction s pat arbitrary: k rule: str_index.induct)
  case (1 pat)
  then show ?case by (auto split: if_splits)
next
  case (2 c s pat)
  show ?case
  proof (cases "take (length pat) (c # s) = pat")
    case True
    then have "length pat \<le> length (c # s)" by (metis length_take min.cobounded1)
    with True 2(2) show ?thesis by auto
  next
    case False
    with 2 show ?thesis by fastforce
  qed
qed

lemma str_index_None: "str_index s pat = None \<Longrightarrow> take (length pat) (drop k s) = pat \<Longrightarrow> pat = []"
proof (induction s arbitrary: k)
  case Nil
  then show ?case by (auto split: if_splits)
next
  case (Cons c s)
  then show ?case by (cases k) (auto split: if_splits)
qed

section \<open>Validity\<close>

text \<open>\<open>utf8.ValidString\<close>: replacing what cannot be decoded changes nothing.\<close>

definition valid_text :: "string \<Rightarrow> bool" where
  "valid_text s \<longleftrightarrow> string_of (runes_of s) = s"

end
