(* ===== verification/Mask.thy ===== *)
theory Mask
  imports Utf8
begin

text \<open>
  Package \<open>internal/redact\<close>, \<open>redact.go\<close>: the lexer that masks literals in query texts.
  \<open>mask_step\<close> is one turn of the main loop at index \<open>i\<close> of the runes: what it writes and
  the index it leaves; every inner loop is a function of its own. \<open>Mask\<close> converts the
  string to runes, runs the loop and writes the result. \<open>lex_step\<close> and \<open>lex\<close> are a
  reference lexer over the remaining runes and the previous one; \<open>mask_from_lex\<close> shows that
  the loop over indices computes it.
\<close>

section \<open>Runes\<close>

abbreviation r_newline :: rune where "r_newline \<equiv> 10"
abbreviation r_dquote :: rune where "r_dquote \<equiv> 34"
abbreviation r_dollar :: rune where "r_dollar \<equiv> 36"
abbreviation r_quote :: rune where "r_quote \<equiv> 39"
abbreviation r_star :: rune where "r_star \<equiv> 42"
abbreviation r_plus :: rune where "r_plus \<equiv> 43"
abbreviation r_minus :: rune where "r_minus \<equiv> 45"
abbreviation r_dot :: rune where "r_dot \<equiv> 46"
abbreviation r_slash :: rune where "r_slash \<equiv> 47"
abbreviation r_qmark :: rune where "r_qmark \<equiv> 63"
abbreviation r_E :: rune where "r_E \<equiv> 69"
abbreviation r_e :: rune where "r_e \<equiv> 101"

definition isDigit :: "rune \<Rightarrow> bool" where
  "isDigit c \<longleftrightarrow> 48 \<le> c \<and> c \<le> 57"

text \<open>The closure \<open>isWord\<close>: underscore, letter or digit.\<close>

definition isWord :: "rune \<Rightarrow> bool" where
  "isWord c \<longleftrightarrow> c = 95 \<or> (97 \<le> c \<and> c \<le> 122) \<or> (65 \<le> c \<and> c \<le> 90) \<or> (48 \<le> c \<and> c \<le> 57)"

section \<open>The inner loops\<close>

text \<open>\<open>for i < n && p(r[i]) { i++ }\<close>\<close>

function scan_while :: "(rune \<Rightarrow> bool) \<Rightarrow> rune list \<Rightarrow> nat \<Rightarrow> nat" where
  "scan_while p r i = (if i < length r \<and> p (r ! i) then scan_while p r (i + 1) else i)"
  by pat_completeness auto
termination
  by (relation "measure (\<lambda>(p, r, i). length r - i)") auto

text \<open>The search for the end of a block comment.\<close>

function scan_block :: "rune list \<Rightarrow> nat \<Rightarrow> nat" where
  "scan_block r i =
     (if i + 1 < length r \<and> \<not> (r ! i = r_star \<and> r ! (i + 1) = r_slash) then scan_block r (i + 1) else i)"
  by pat_completeness auto
termination
  by (relation "measure (\<lambda>(r, i). length r - i)") auto

text \<open>The body of a string literal: two quotes are an escaped quote.\<close>

function scan_string :: "rune list \<Rightarrow> nat \<Rightarrow> nat" where
  "scan_string r i =
     (if i < length r then
        (if r ! i = r_quote then
           (if i + 1 < length r \<and> r ! (i + 1) = r_quote then scan_string r (i + 2) else i + 1)
         else scan_string r (i + 1))
      else i)"
  by pat_completeness auto
termination
  by (relation "measure (\<lambda>(r, i). length r - i)") auto

text \<open>A quoted identifier is copied up to its closing quote.\<close>

function scan_ident :: "rune list \<Rightarrow> nat \<Rightarrow> rune list \<times> nat" where
  "scan_ident r i =
     (if i < length r then
        (if r ! i = r_dquote then ([r ! i], i + 1)
         else (case scan_ident r (i + 1) of (out, j) \<Rightarrow> (r ! i # out, j)))
      else ([], i))"
  by pat_completeness auto
termination
  by (relation "measure (\<lambda>(r, i). length r - i)") auto

definition num_char :: "rune \<Rightarrow> bool" where
  "num_char c \<longleftrightarrow> c = r_dot \<or> c = r_e \<or> c = r_E \<or> c = r_plus \<or> c = r_minus \<or> isDigit c"

text \<open>A numeric literal: a sign ends it unless it follows an exponent marker.\<close>

function scan_num :: "rune list \<Rightarrow> nat \<Rightarrow> nat" where
  "scan_num r i =
     (if i < length r \<and> num_char (r ! i) then
        (if (r ! i = r_plus \<or> r ! i = r_minus) \<and>
            \<not> (0 < i \<and> (r ! (i - 1) = r_e \<or> r ! (i - 1) = r_E))
         then i else scan_num r (i + 1))
      else i)"
  by pat_completeness auto
termination
  by (relation "measure (\<lambda>(r, i). length r - i)") auto

declare scan_while.simps [simp del] scan_block.simps [simp del] scan_string.simps [simp del]
  scan_ident.simps [simp del] scan_num.simps [simp del]

section \<open>The main loop\<close>

definition slice :: "'a list \<Rightarrow> nat \<Rightarrow> nat \<Rightarrow> 'a list" where
  "slice r i j = take (j - i) (drop i r)"

text \<open>The dollar case: a dollar-quoted string, an unterminated one, or a plain dollar with
  the digits of a positional parameter. The offset that \<open>strings.Index\<close> returns counts
  bytes of the converted string.\<close>

definition mask_dollar :: "rune list \<Rightarrow> nat \<Rightarrow> rune list \<times> nat" where
  "mask_dollar r i =
     (let j = scan_while (\<lambda>c. c \<noteq> r_dollar \<and> isWord c) r (i + 1)
      in if j < length r \<and> r ! j = r_dollar then
           (let tag = string_of (slice r i (j + 1)); rest = string_of (drop (j + 1) r)
            in case str_index rest tag of
                 Some end \<Rightarrow> ([r_qmark], j + 1 + end + length (runes_of tag))
               | None \<Rightarrow> ([r_qmark], length r))
         else (let k = scan_while isDigit r (i + 1) in (slice r i k, k)))"

definition mask_step :: "rune list \<Rightarrow> nat \<Rightarrow> rune list \<times> nat" where
  "mask_step r i =
     (let n = length r; c = r ! i
      in if c = r_minus \<and> i + 1 < n \<and> r ! (i + 1) = r_minus then
           ([r_minus, r_minus, r_qmark], scan_while (\<lambda>c. c \<noteq> r_newline) r i)
         else if c = r_slash \<and> i + 1 < n \<and> r ! (i + 1) = r_star then
           ([r_slash, r_star, r_qmark, r_star, r_slash],
            let k = scan_block r (i + 2) + 2 in if k > n then n else k)
         else if c = r_quote then ([r_qmark], scan_string r (i + 1))
         else if c = r_dollar then mask_dollar r i
         else if c = r_dquote then
           (case scan_ident r (i + 1) of (out, k) \<Rightarrow> (c # out, k))
         else if isDigit c \<and> (i = 0 \<or> \<not> isWord (r ! (i - 1))) then ([r_qmark], scan_num r i)
         else ([c], i + 1))"

section \<open>Progress\<close>

lemma scan_while_ge: "i \<le> scan_while p r i"
proof (induction p r i rule: scan_while.induct)
  case (1 p r i)
  then show ?case by (subst scan_while.simps) auto
qed

lemma scan_while_Suc: "i < length r \<Longrightarrow> p (r ! i) \<Longrightarrow> i < scan_while p r i"
  using scan_while_ge [of "i + 1" p r] by (subst scan_while.simps) simp

lemma scan_block_ge: "i \<le> scan_block r i"
proof (induction r i rule: scan_block.induct)
  case (1 r i)
  then show ?case by (subst scan_block.simps) auto
qed

lemma scan_string_ge: "i \<le> scan_string r i"
proof (induction r i rule: scan_string.induct)
  case (1 r i)
  then show ?case by (subst scan_string.simps) auto
qed

lemma scan_ident_ge: "i \<le> snd (scan_ident r i)"
proof (induction r i rule: scan_ident.induct)
  case (1 r i)
  then show ?case by (subst scan_ident.simps) (auto split: prod.splits)
qed

lemma scan_num_ge: "i \<le> scan_num r i"
proof (induction r i rule: scan_num.induct)
  case (1 r i)
  then show ?case by (subst scan_num.simps) auto
qed

lemma mask_dollar_progress: "i < length r \<Longrightarrow> i < snd (mask_dollar r i)"
  using scan_while_ge [of "i + 1" "\<lambda>c. c \<noteq> r_dollar \<and> isWord c" r] scan_while_ge [of "i + 1" isDigit r]
  by (auto simp: mask_dollar_def Let_def split: option.splits)

lemma mask_step_progress:
  assumes "i < length r"
  shows "i < snd (mask_step r i)"
proof -
  have "i < scan_num r i" if "isDigit (r ! i)"
    using that assms scan_num_ge [of "i + 1" r]
    by (subst scan_num.simps) (auto simp: num_char_def isDigit_def)
  then show ?thesis
    using assms scan_string_ge [of "i + 1" r] scan_ident_ge [of "i + 1" r] scan_block_ge [of "i + 2" r]
      mask_dollar_progress [OF assms] scan_while_Suc [of i r "\<lambda>c. c \<noteq> r_newline"]
    by (auto simp: mask_step_def Let_def split: prod.splits)
qed

function mask_from :: "rune list \<Rightarrow> nat \<Rightarrow> rune list" where
  "mask_from r i =
     (if i < length r then fst (mask_step r i) @ mask_from r (snd (mask_step r i)) else [])"
  by pat_completeness auto
termination
  by (relation "measure (\<lambda>(r, i). length r - i)") (auto simp: diff_less_mono2 mask_step_progress)

declare mask_from.simps [simp del]

definition Mask :: "string \<Rightarrow> string" where
  "Mask q = string_of (mask_from (runes_of q) 0)"

section \<open>The reference lexer\<close>

fun block_len :: "rune list \<Rightarrow> nat" where
  "block_len (a # b # cs) = (if a = r_star \<and> b = r_slash then 0 else Suc (block_len (b # cs)))"
| "block_len _ = 0"

fun string_len :: "rune list \<Rightarrow> nat" where
  "string_len [] = 0"
| "string_len [c] = 1"
| "string_len (c # d # cs) =
     (if c = r_quote then (if d = r_quote then 2 + string_len cs else 1) else Suc (string_len (d # cs)))"

fun ident_len :: "rune list \<Rightarrow> nat" where
  "ident_len [] = 0"
| "ident_len (c # cs) = (if c = r_dquote then 1 else Suc (ident_len cs))"

fun num_len :: "rune option \<Rightarrow> rune list \<Rightarrow> nat" where
  "num_len p [] = 0"
| "num_len p (c # cs) =
     (if num_char c then
        (if (c = r_plus \<or> c = r_minus) \<and> p \<noteq> Some r_e \<and> p \<noteq> Some r_E then 0
         else Suc (num_len (Some c) cs))
      else 0)"

definition tag_run :: "rune list \<Rightarrow> rune list" where
  "tag_run ds = takeWhile (\<lambda>c. c \<noteq> r_dollar \<and> isWord c) ds"

text \<open>The dollar case on the runes after the dollar.\<close>

definition lex_dollar :: "rune list \<Rightarrow> rune list \<times> nat" where
  "lex_dollar ds =
     (let w = tag_run ds; more = drop (length w) ds
      in if more \<noteq> [] \<and> hd more = r_dollar then
           (case str_index (string_of (tl more)) (string_of (r_dollar # w @ [r_dollar])) of
              Some end \<Rightarrow> ([r_qmark], length w + 2 + end + (length w + 2))
            | None \<Rightarrow> ([r_qmark], Suc (length ds)))
         else (r_dollar # takeWhile isDigit ds, Suc (length (takeWhile isDigit ds))))"

definition prev_word :: "rune option \<Rightarrow> bool" where
  "prev_word p = (case p of None \<Rightarrow> False | Some x \<Rightarrow> isWord x)"

fun lex_step :: "rune option \<Rightarrow> rune list \<Rightarrow> rune list \<times> nat" where
  "lex_step p [] = ([], 1)"
| "lex_step p (c # ds) =
     (if c = r_minus \<and> ds \<noteq> [] \<and> hd ds = r_minus then
        ([r_minus, r_minus, r_qmark], length (takeWhile (\<lambda>c. c \<noteq> r_newline) (c # ds)))
      else if c = r_slash \<and> ds \<noteq> [] \<and> hd ds = r_star then
        ([r_slash, r_star, r_qmark, r_star, r_slash], min (block_len (tl ds) + 4) (Suc (length ds)))
      else if c = r_quote then ([r_qmark], Suc (string_len ds))
      else if c = r_dollar then lex_dollar ds
      else if c = r_dquote then (c # take (ident_len ds) ds, Suc (ident_len ds))
      else if isDigit c \<and> \<not> prev_word p then ([r_qmark], num_len p (c # ds))
      else ([c], 1))"

declare lex_step.simps [simp del]

lemma num_len_pos: "isDigit c \<Longrightarrow> 0 < num_len p (c # ds)"
  by (auto simp: num_char_def isDigit_def)

lemma lex_step_pos: "0 < snd (lex_step p cs)"
  by (cases cs) (auto simp: lex_step.simps lex_dollar_def Let_def num_len_pos simp del: num_len.simps
      split: option.splits)

function lex :: "rune option \<Rightarrow> rune list \<Rightarrow> rune list" where
  "lex p cs =
     (if cs = [] then []
      else fst (lex_step p cs) @ lex (Some (last (take (snd (lex_step p cs)) cs))) (drop (snd (lex_step p cs)) cs))"
  by pat_completeness auto
termination
  by (relation "measure (\<lambda>(p, cs). length cs)") (auto simp: lex_step_pos)

declare lex.simps [simp del]

section \<open>The loop computes the reference\<close>

lemma scan_while_takeWhile: "scan_while p r i = i + length (takeWhile p (drop i r))"
proof (induction p r i rule: scan_while.induct)
  case (1 p r i)
  show ?case
  proof (cases "i < length r")
    case True
    then have "drop i r = r ! i # drop (i + 1) r" by (simp add: Cons_nth_drop_Suc)
    with True 1 show ?thesis by (subst scan_while.simps) simp
  next
    case False
    then show ?thesis by (subst scan_while.simps) simp
  qed
qed

lemma drop_next: "i + 1 < length r \<Longrightarrow> drop (i + 1) r = r ! (i + 1) # drop (i + 2) r"
  using Cons_nth_drop_Suc [of "i + 1" r] by simp

lemma drop_two: "i + 1 < length r \<Longrightarrow> drop i r = r ! i # r ! (i + 1) # drop (i + 2) r"
  by (metis Cons_nth_drop_Suc Suc_eq_plus1 Suc_lessD add_2_eq_Suc')

lemma scan_block_len: "scan_block r i = i + block_len (drop i r)"
proof (induction r i rule: scan_block.induct)
  case (1 r i)
  show ?case
  proof (cases "i + 1 < length r")
    case True
    then have two: "drop i r = r ! i # r ! (i + 1) # drop (i + 2) r" by (rule drop_two)
    with True two drop_next [of i r] 1 show ?thesis by (subst scan_block.simps) auto
  next
    case False
    then have "length (drop i r) \<le> 1" by simp
    then have "block_len (drop i r) = 0" by (cases "drop i r" rule: block_len.cases) auto
    with False show ?thesis by (subst scan_block.simps) simp
  qed
qed

lemma scan_string_len: "scan_string r i = i + string_len (drop i r)"
proof (induction r i rule: scan_string.induct)
  case (1 r i)
  consider "length r \<le> i" | "i + 1 = length r" | "i + 1 < length r" by linarith
  then show ?case
  proof cases
    case 1
    then show ?thesis by (subst scan_string.simps) simp
  next
    case 2
    then have "drop i r = [r ! i]" by (metis Cons_nth_drop_Suc Suc_eq_plus1 drop_all lessI order_refl)
    moreover from 2 have "scan_string r (i + 1) = i + 1" by (subst scan_string.simps) simp
    ultimately show ?thesis using 2 by (subst scan_string.simps) simp
  next
    case 3
    then have two: "drop i r = r ! i # r ! (i + 1) # drop (i + 2) r" by (rule drop_two)
    with 3 two drop_next [of i r] 1 show ?thesis by (subst scan_string.simps) auto
  qed
qed

lemma scan_ident_len: "scan_ident r i = (take (ident_len (drop i r)) (drop i r), i + ident_len (drop i r))"
proof (induction r i rule: scan_ident.induct)
  case (1 r i)
  show ?case
  proof (cases "i < length r")
    case True
    then have "drop i r = r ! i # drop (i + 1) r" by (simp add: Cons_nth_drop_Suc)
    with True 1 show ?thesis by (subst scan_ident.simps) simp
  next
    case False
    then show ?thesis by (subst scan_ident.simps) simp
  qed
qed

definition prev_rune :: "rune list \<Rightarrow> nat \<Rightarrow> rune option" where
  "prev_rune r i = (if i = 0 then None else Some (r ! (i - 1)))"

lemma scan_num_len: "scan_num r i = i + num_len (prev_rune r i) (drop i r)"
proof (induction r i rule: scan_num.induct)
  case (1 r i)
  show ?case
  proof (cases "i < length r")
    case True
    then have "drop i r = r ! i # drop (i + 1) r" by (simp add: Cons_nth_drop_Suc)
    moreover have "prev_rune r (i + 1) = Some (r ! i)" by (simp add: prev_rune_def)
    ultimately show ?thesis using True 1 by (subst scan_num.simps) (auto simp: prev_rune_def)
  next
    case False
    then show ?thesis by (subst scan_num.simps) simp
  qed
qed

lemma runes_of_ascii_runes: "\<forall>r \<in> set rs. r < 128 \<Longrightarrow> runes_of (string_of rs) = rs"
  by (rule runes_of_string_of) (auto simp: valid_rune_def)

lemma isWord_ascii: "isWord c \<Longrightarrow> c < 128"
  by (auto simp: isWord_def)

lemma tag_run_word: "\<forall>c \<in> set (tag_run ds). isWord c \<and> c \<noteq> r_dollar"
  by (auto simp: tag_run_def dest: set_takeWhileD)

lemma mask_dollar_lex:
  assumes "i < length r" "r ! i = r_dollar"
  shows "fst (lex_dollar (drop (i + 1) r)) = fst (mask_dollar r i) \<and>
    i + snd (lex_dollar (drop (i + 1) r)) = snd (mask_dollar r i)"
proof -
  define ds w where "ds = drop (i + 1) r" "w = tag_run ds"
  have r: "drop i r = r_dollar # ds"
    using assms Cons_nth_drop_Suc [of i r] by (simp add: ds_w_def)
  have j: "scan_while (\<lambda>c. c \<noteq> r_dollar \<and> isWord c) r (i + 1) = i + 1 + length w"
    by (simp add: scan_while_takeWhile ds_w_def tag_run_def)
  have k: "scan_while isDigit r (i + 1) = i + 1 + length (takeWhile isDigit ds)"
    by (simp add: scan_while_takeWhile ds_w_def)
  have more: "drop (i + 1 + length w) r = drop (length w) ds" by (simp add: ds_w_def add.commute)
  have len: "length r = i + 1 + length ds" using assms(1) by (simp add: ds_w_def)
  have pre: "take (length w) ds = w" by (simp add: ds_w_def tag_run_def takeWhile_eq_take [symmetric])
  have digits: "slice r i (i + 1 + length (takeWhile isDigit ds)) = r_dollar # takeWhile isDigit ds"
    by (simp add: slice_def r takeWhile_eq_take [symmetric])
  show ?thesis
  proof (cases "i + 1 + length w < length r \<and> r ! (i + 1 + length w) = r_dollar")
    case True
    then have hd: "drop (length w) ds = r_dollar # drop (i + 1 + length w + 1) r"
      using Cons_nth_drop_Suc [of "i + 1 + length w" r] more by simp
    then have "slice r i (i + 1 + length w + 1) = r_dollar # w @ [r_dollar]"
      using pre len True by (simp add: slice_def r take_Suc_conv_app_nth hd_drop_conv_nth [symmetric])
    moreover have "runes_of (string_of (r_dollar # w @ [r_dollar])) = r_dollar # w @ [r_dollar]"
      using tag_run_word [of ds] by (intro runes_of_ascii_runes) (auto simp: ds_w_def(2) isWord_ascii)
    ultimately show ?thesis
      using True hd len unfolding mask_dollar_def lex_dollar_def Let_def j ds_w_def(2)[symmetric] ds_w_def(1)[symmetric]
      by (auto split: option.splits simp del: string_of_Cons string_of_append)
  next
    case False
    then have "\<not> (drop (length w) ds \<noteq> [] \<and> hd (drop (length w) ds) = r_dollar)"
      using more len by (metis drop_eq_Nil hd_drop_conv_nth not_le)
    with False show ?thesis
      unfolding mask_dollar_def lex_dollar_def Let_def j k ds_w_def(2)[symmetric] ds_w_def(1)[symmetric]
      using digits by auto
  qed
qed

lemma mask_step_lex:
  assumes "i < length r"
  shows "fst (lex_step (prev_rune r i) (drop i r)) = fst (mask_step r i) \<and>
    i + snd (lex_step (prev_rune r i) (drop i r)) = snd (mask_step r i)"
proof -
  define ds where "ds = drop (i + 1) r"
  have r: "drop i r = r ! i # ds" using assms by (simp add: ds_def Cons_nth_drop_Suc)
  have nxt: "ds \<noteq> [] \<and> hd ds = x \<longleftrightarrow> i + 1 < length r \<and> r ! (i + 1) = x" for x
    by (metis ds_def drop_eq_Nil hd_drop_conv_nth not_le)
  have len: "length r = i + Suc (length ds)" using assms by (simp add: ds_def)
  have pw: "(\<not> prev_word (prev_rune r i)) = (i = 0 \<or> \<not> isWord (r ! (i - 1)))"
    by (simp add: prev_word_def prev_rune_def)
  have line: "scan_while (\<lambda>c. c \<noteq> r_newline) r i = i + length (takeWhile (\<lambda>c. c \<noteq> r_newline) (r ! i # ds))"
    by (simp only: scan_while_takeWhile r)
  have block: "scan_block r (i + 2) = i + 2 + block_len (tl ds)"
    by (simp add: scan_block_len ds_def drop_Suc tl_drop)
  have str: "scan_string r (i + 1) = i + 1 + string_len ds" by (simp add: scan_string_len ds_def)
  have ident: "scan_ident r (i + 1) = (take (ident_len ds) ds, i + 1 + ident_len ds)"
    by (simp add: scan_ident_len ds_def)
  have num: "scan_num r i = i + num_len (prev_rune r i) (r ! i # ds)" by (simp only: scan_num_len r)
  show ?thesis
  proof (cases "r ! i = r_dollar")
    case True
    then show ?thesis
      using mask_dollar_lex [OF assms True] unfolding r lex_step.simps
      by (simp add: mask_step_def Let_def ds_def)
  next
    case False
    have blk: "(if length r < i + 2 + block_len (tl ds) + 2 then length r else i + 2 + block_len (tl ds) + 2) =
        i + min (block_len (tl ds) + 4) (Suc (length ds))"
      unfolding len by (auto simp: min_def)
    show ?thesis
      using False unfolding r lex_step.simps mask_step_def Let_def nxt pw line block str ident num blk
      by (auto simp del: num_len.simps)
  qed
qed

lemma last_take_drop:
  assumes "0 < k" "i + k \<le> length r"
  shows "last (take k (drop i r)) = r ! (i + k - 1)"
proof -
  have len: "length (take k (drop i r)) = k" using assms(2) by simp
  then have "take k (drop i r) \<noteq> []" using assms(1) by auto
  then have "last (take k (drop i r)) = take k (drop i r) ! (k - 1)" by (metis last_conv_nth len)
  then show ?thesis using assms by simp
qed

lemma mask_from_lex: "mask_from r i = lex (prev_rune r i) (drop i r)"
proof (induction r i rule: mask_from.induct)
  case (1 r i)
  show ?case
  proof (cases "i < length r")
    case True
    let ?k = "snd (lex_step (prev_rune r i) (drop i r))"
    have step: "fst (mask_step r i) = fst (lex_step (prev_rune r i) (drop i r))"
      "snd (mask_step r i) = i + ?k" using mask_step_lex [OF True] by simp_all
    have tail: "mask_from r (i + ?k) = lex (prev_rune r (i + ?k)) (drop ?k (drop i r))"
      using 1 True step by (simp add: add.commute)
    have "lex (prev_rune r (i + ?k)) (drop ?k (drop i r)) =
        lex (Some (last (take ?k (drop i r)))) (drop ?k (drop i r))"
    proof (cases "i + ?k \<le> length r")
      case True
      then have "last (take ?k (drop i r)) = r ! (i + ?k - 1)"
        using lex_step_pos [of "prev_rune r i" "drop i r"] by (intro last_take_drop)
      then show ?thesis using lex_step_pos [of "prev_rune r i" "drop i r"] by (simp add: prev_rune_def)
    next
      case False
      then show ?thesis by (simp add: lex.simps)
    qed
    with True step tail show ?thesis
      by (simp add: mask_from.simps [of r i] lex.simps [of "prev_rune r i" "drop i r"])
  next
    case False
    then show ?thesis by (simp add: mask_from.simps lex.simps)
  qed
qed

lemma Mask_lex: "Mask q = string_of (lex None (runes_of q))"
  by (simp add: Mask_def mask_from_lex prev_rune_def)

end
