(* ===== verification/Mask_Spec.thy ===== *)
theory Mask_Spec
  imports Mask
begin

text \<open>
  What the masker guarantees. A query text is described as a list of tokens; \<open>tok_text\<close> is
  the text of a token and \<open>tok_redacted\<close> what should be left of it. The side conditions
  \<open>tok_ok\<close> say that the texts of neighbouring tokens do not run together. The refinement
  theorem: on the text of a well-formed token list, \<open>Mask\<close> returns the redacted text, so
  its result does not depend on the contents of literals and comments.
\<close>

section \<open>Tokens\<close>

datatype sql_tok =
    TWord "rune list"
  | TStr "rune list"
  | TNum "rune list"
  | TLine "rune list"
  | TBlock "rune list"
  | TDollar "rune list" "rune list"
  | TIdent "rune list"
  | TParam "rune list"
  | TPunct rune

text \<open>A quote in the body of a string literal is written twice.\<close>

fun esc_quotes :: "rune list \<Rightarrow> rune list" where
  "esc_quotes [] = []"
| "esc_quotes (c # cs) = (if c = r_quote then r_quote # r_quote # esc_quotes cs else c # esc_quotes cs)"

definition dollar_tag :: "rune list \<Rightarrow> rune list" where
  "dollar_tag w = r_dollar # w @ [r_dollar]"

fun tok_text :: "sql_tok \<Rightarrow> rune list" where
  "tok_text (TWord w) = w"
| "tok_text (TStr b) = r_quote # esc_quotes b @ [r_quote]"
| "tok_text (TNum n) = n"
| "tok_text (TLine b) = r_minus # r_minus # b"
| "tok_text (TBlock b) = r_slash # r_star # b @ [r_star, r_slash]"
| "tok_text (TDollar w b) = dollar_tag w @ b @ dollar_tag w"
| "tok_text (TIdent b) = r_dquote # b @ [r_dquote]"
| "tok_text (TParam ds) = r_dollar # ds"
| "tok_text (TPunct c) = [c]"

fun tok_redacted :: "sql_tok \<Rightarrow> rune list" where
  "tok_redacted (TStr b) = [r_qmark]"
| "tok_redacted (TNum n) = [r_qmark]"
| "tok_redacted (TLine b) = [r_minus, r_minus, r_qmark]"
| "tok_redacted (TBlock b) = [r_slash, r_star, r_qmark, r_star, r_slash]"
| "tok_redacted (TDollar w b) = [r_qmark]"
| "tok_redacted t = tok_text t"

definition starts :: "rune \<Rightarrow> rune list \<Rightarrow> bool" where
  "starts c rest \<longleftrightarrow> rest \<noteq> [] \<and> hd rest = c"

fun tok_ok :: "rune option \<Rightarrow> sql_tok \<Rightarrow> rune list \<Rightarrow> bool" where
  "tok_ok p (TWord w) rest \<longleftrightarrow> w \<noteq> [] \<and> list_all isWord w \<and> (isDigit (hd w) \<longrightarrow> prev_word p)"
| "tok_ok p (TStr b) rest \<longleftrightarrow> \<not> starts r_quote rest"
| "tok_ok p (TNum n) rest \<longleftrightarrow>
     n \<noteq> [] \<and> isDigit (hd n) \<and> \<not> prev_word p \<and> num_len p (n @ rest) = length n"
| "tok_ok p (TLine b) rest \<longleftrightarrow> list_all (\<lambda>c. c \<noteq> r_newline) b \<and> (rest = [] \<or> starts r_newline rest)"
| "tok_ok p (TBlock b) rest \<longleftrightarrow> block_len (b @ [r_star, r_slash]) = length b"
| "tok_ok p (TDollar w b) rest \<longleftrightarrow>
     list_all isWord w \<and> list_all (\<lambda>c. c < 128) b \<and>
     str_index (b @ dollar_tag w) (dollar_tag w) = Some (length b)"
| "tok_ok p (TIdent b) rest \<longleftrightarrow> list_all (\<lambda>c. c \<noteq> r_dquote) b"
| "tok_ok p (TParam ds) rest \<longleftrightarrow>
     ds \<noteq> [] \<and> list_all isDigit ds \<and> (rest = [] \<or> \<not> isWord (hd rest) \<and> hd rest \<noteq> r_dollar)"
| "tok_ok p (TPunct c) rest \<longleftrightarrow>
     \<not> isWord c \<and> c \<noteq> r_quote \<and> c \<noteq> r_dquote \<and> c \<noteq> r_dollar \<and>
     (c = r_minus \<longrightarrow> \<not> starts r_minus rest) \<and> (c = r_slash \<longrightarrow> \<not> starts r_star rest)"

definition render :: "sql_tok list \<Rightarrow> rune list" where
  "render ts = concat (map tok_text ts)"

definition render_redacted :: "sql_tok list \<Rightarrow> rune list" where
  "render_redacted ts = concat (map tok_redacted ts)"

fun toks_ok :: "rune option \<Rightarrow> sql_tok list \<Rightarrow> bool" where
  "toks_ok p [] = True"
| "toks_ok p (t # ts) \<longleftrightarrow> tok_ok p t (render ts) \<and> toks_ok (Some (last (tok_text t))) ts"

section \<open>One token\<close>

lemma lex_Nil [simp]: "lex p [] = []"
  by (simp add: lex.simps)

lemma lex_token:
  assumes "lex_step p (t @ cs) = (out, length t)" "t \<noteq> []"
  shows "lex p (t @ cs) = out @ lex (Some (last t)) cs"
  using assms by (subst lex.simps) simp

lemma isDigit_isWord: "isDigit c \<Longrightarrow> isWord c"
  by (simp add: isDigit_def isWord_def)

lemma isWord_plain:
  "isWord c \<Longrightarrow> c \<noteq> r_minus \<and> c \<noteq> r_slash \<and> c \<noteq> r_quote \<and> c \<noteq> r_dollar \<and> c \<noteq> r_dquote \<and>
     c \<noteq> r_newline \<and> c \<noteq> r_star \<and> c \<noteq> r_qmark"
  by (auto simp: isWord_def)

lemma lex_word_rune:
  assumes "isWord c" "isDigit c \<longrightarrow> prev_word p"
  shows "lex p (c # cs) = c # lex (Some c) cs"
  using lex_token [of p "[c]" cs "[c]"] isWord_plain [OF assms(1)] assms
  by (simp add: lex_step.simps)

lemma lex_words:
  "list_all isWord w \<Longrightarrow> w \<noteq> [] \<Longrightarrow> (isDigit (hd w) \<longrightarrow> prev_word p) \<Longrightarrow>
   lex p (w @ cs) = w @ lex (Some (last w)) cs"
proof (induction w arbitrary: p)
  case Nil
  then show ?case by simp
next
  case (Cons c w)
  then have first: "lex p ((c # w) @ cs) = c # lex (Some c) (w @ cs)"
    by (simp add: lex_word_rune)
  show ?case
  proof (cases "w = []")
    case True
    with first show ?thesis by simp
  next
    case False
    then have "lex (Some c) (w @ cs) = w @ lex (Some (last w)) cs"
      using Cons by (simp add: prev_word_def)
    with first False show ?thesis by simp
  qed
qed

lemma string_len_esc:
  "\<not> starts r_quote rest \<Longrightarrow> string_len (esc_quotes b @ r_quote # rest) = Suc (length (esc_quotes b))"
proof (induction b)
  case Nil
  then show ?case by (cases rest) (simp_all add: starts_def)
next
  case (Cons c b)
  have "\<exists>d ds. esc_quotes b @ r_quote # rest = d # ds" by (cases "esc_quotes b") auto
  with Cons show ?case by auto
qed

lemma ident_len_close: "list_all (\<lambda>c. c \<noteq> r_dquote) b \<Longrightarrow> ident_len (b @ r_dquote # rest) = Suc (length b)"
  by (induction b) simp_all

lemma block_len_close:
  "block_len (b @ [r_star, r_slash]) = length b \<Longrightarrow> block_len (b @ r_star # r_slash # rest) = length b"
proof (induction b)
  case Nil
  then show ?case by simp
next
  case (Cons a b)
  then show ?case by (cases b) (auto split: if_splits)
qed

lemma takeWhile_prefix_all:
  "\<forall>c \<in> set xs. P c \<Longrightarrow> ys = [] \<or> \<not> P (hd ys) \<Longrightarrow> takeWhile P (xs @ ys) = xs"
  by (cases ys) (simp_all add: takeWhile_append)

lemma takeWhile_line:
  "list_all (\<lambda>c. c \<noteq> r_newline) b \<Longrightarrow> rest = [] \<or> starts r_newline rest \<Longrightarrow>
   takeWhile (\<lambda>c. c \<noteq> r_newline) (b @ rest) = b"
  by (induction b) (auto simp: starts_def neq_Nil_conv)

lemma str_index_append: "str_index s pat = Some k \<Longrightarrow> str_index (s @ t) pat = Some k"
proof (induction s pat arbitrary: k rule: str_index.induct)
  case (1 pat)
  then show ?case by (cases t) (auto split: if_splits)
next
  case (2 c s pat)
  show ?case
  proof (cases "take (length pat) (c # s) = pat")
    case True
    then have "length pat \<le> length (c # s)" by (metis length_take min.cobounded1)
    then have "take (length pat) (c # s @ t) = pat" using True by (simp flip: append_Cons)
    with True 2(2) show ?thesis by simp
  next
    case False
    with 2(2) obtain j where j: "str_index s pat = Some j" "k = Suc j" by auto
    have "length pat \<le> length (c # s)" using str_index_Some [OF j(1)] by simp
    then have "take (length pat) (c # s @ t) = take (length pat) (c # s)" by (simp flip: append_Cons)
    with False 2 j show ?thesis by simp
  qed
qed

lemma str_index_map:
  assumes "inj_on f (set s \<union> set pat)"
  shows "str_index (map f s) (map f pat) = str_index s pat"
  using assms
proof (induction s)
  case Nil
  then show ?case by simp
next
  case (Cons c s)
  have "take (length pat) (f c # map f s) = map f pat \<longleftrightarrow> take (length pat) (c # s) = pat"
  proof -
    have "take (length pat) (f c # map f s) = map f (take (length pat) (c # s))" by (metis list.simps(9) take_map)
    moreover have "set (take (length pat) (c # s)) \<subseteq> set (c # s) \<union> set pat"
      using set_take_subset by fast
    ultimately show ?thesis
      using Cons.prems by (metis (mono_tags, lifting) inj_on_map_eq_map inj_on_subset le_sup_iff sup_ge2)
  qed
  moreover have "inj_on f (set s \<union> set pat)" using Cons.prems by (rule inj_on_subset) auto
  ultimately show ?case using Cons.IH by simp
qed

text \<open>On ASCII runes the byte offset of the closing tag is its rune offset.\<close>

lemma str_index_ascii:
  assumes "\<forall>c \<in> set s \<union> set pat. c < 128"
  shows "str_index (string_of s) (string_of pat) = str_index s pat"
proof -
  have "set s \<union> set pat \<subseteq> {0..<256}"
  proof
    fix c assume "c \<in> set s \<union> set pat"
    then have "c < 128" using assms by blast
    then show "c \<in> {0..<256}" by simp
  qed
  then have "inj_on (char_of :: nat \<Rightarrow> char) (set s \<union> set pat)"
    by (rule inj_on_subset [OF inj_on_char_of_nat])
  then show ?thesis using assms by (simp add: string_of_ascii str_index_map)
qed

lemma str_index_close:
  assumes "list_all isWord w" "list_all (\<lambda>c. c < 128) b"
    "str_index (b @ dollar_tag w) (dollar_tag w) = Some (length b)"
  shows "str_index (string_of (b @ dollar_tag w @ rest)) (string_of (dollar_tag w)) = Some (length b)"
proof -
  have "\<forall>c \<in> set (b @ dollar_tag w) \<union> set (dollar_tag w). c < 128"
    using assms(1,2) by (auto simp: dollar_tag_def list_all_iff isWord_ascii)
  then have "str_index (string_of (b @ dollar_tag w)) (string_of (dollar_tag w)) = Some (length b)"
    using assms(3) by (simp only: str_index_ascii)
  from str_index_append [OF this, of "string_of rest"] show ?thesis by simp
qed

lemma tag_run_close: "list_all isWord w \<Longrightarrow> tag_run (w @ r_dollar # rest) = w"
  by (induction w) (auto simp: tag_run_def dest: isWord_plain)

text \<open>One step of the lexer consumes exactly one token that is not a word.\<close>

lemma lex_step_tok_num:
  assumes "tok_ok p (TNum n) rest"
  shows "n \<noteq> [] \<and> lex_step p (tok_text (TNum n) @ rest) = (tok_redacted (TNum n), length (tok_text (TNum n)))"
proof -
  obtain c n' where n: "n = c # n'" "isDigit c" "\<not> prev_word p" "num_len p (c # n' @ rest) = length n"
    using assms by (cases n) auto
  then show ?thesis
    using isWord_plain [OF isDigit_isWord [OF n(2)]] by (simp add: lex_step.simps del: num_len.simps)
qed

lemma lex_step_tok_dollar:
  assumes "tok_ok p (TDollar w b) rest"
  shows "lex_step p (tok_text (TDollar w b) @ rest) = (tok_redacted (TDollar w b), length (tok_text (TDollar w b)))"
proof -
  have "lex_dollar (w @ r_dollar # b @ dollar_tag w @ rest) = ([r_qmark], length w + 2 + length b + (length w + 2))"
    using str_index_close [of w b rest] assms
    by (simp add: lex_dollar_def Let_def tag_run_close dollar_tag_def [symmetric]
        del: string_of_append string_of_Cons)
  then show ?thesis by (simp add: lex_step.simps dollar_tag_def)
qed

lemma lex_step_tok_param:
  assumes "tok_ok p (TParam ds) rest"
  shows "lex_step p (tok_text (TParam ds) @ rest) = (tok_redacted (TParam ds), length (tok_text (TParam ds)))"
proof -
  from assms have digits: "list_all isDigit ds" "rest = [] \<or> \<not> isWord (hd rest) \<and> hd rest \<noteq> r_dollar" by auto
  from digits have all_digit: "\<forall>c \<in> set ds. isDigit c" by (simp add: list_all_iff)
  then have all_tag: "\<forall>c \<in> set ds. c \<noteq> r_dollar \<and> isWord c"
    using isDigit_isWord isWord_plain by blast
  have tag: "tag_run (ds @ rest) = ds"
    unfolding tag_run_def by (rule takeWhile_prefix_all) (use all_tag digits(2) in auto)
  have run: "takeWhile isDigit (ds @ rest) = ds"
    by (rule takeWhile_prefix_all) (use all_digit digits(2) isDigit_isWord in auto)
  show ?thesis using digits by (auto simp: lex_step.simps lex_dollar_def Let_def tag run)
qed

lemma lex_step_tok:
  assumes "tok_ok p t rest" "\<forall>w. t \<noteq> TWord w"
  shows "tok_text t \<noteq> [] \<and> lex_step p (tok_text t @ rest) = (tok_redacted t, length (tok_text t))"
proof (cases t)
  case (TNum n)
  then show ?thesis using lex_step_tok_num assms(1) by auto
next
  case (TDollar w b)
  then show ?thesis using lex_step_tok_dollar assms(1) by (simp add: dollar_tag_def)
next
  case (TParam ds)
  then show ?thesis using lex_step_tok_param assms(1) by simp
next
  case (TPunct c)
  then show ?thesis using assms(1) isDigit_isWord [of c] by (auto simp: lex_step.simps starts_def)
qed (use assms in \<open>auto simp: lex_step.simps string_len_esc takeWhile_line block_len_close ident_len_close\<close>)

lemma lex_tok:
  assumes "tok_ok p t rest"
  shows "lex p (tok_text t @ rest) = tok_redacted t @ lex (Some (last (tok_text t))) rest"
proof (cases "\<exists>w. t = TWord w")
  case True
  with assms show ?thesis by (auto simp: lex_words)
next
  case False
  with lex_step_tok [OF assms] show ?thesis by (auto intro: lex_token)
qed

lemma lex_toks: "toks_ok p ts \<Longrightarrow> lex p (render ts) = render_redacted ts"
proof (induction ts arbitrary: p)
  case Nil
  then show ?case by (simp add: render_def render_redacted_def)
next
  case (Cons t ts)
  then show ?case
    using lex_tok [of p t "render ts"] by (simp add: render_def render_redacted_def)
qed

section \<open>Redaction of well-formed texts\<close>

text \<open>C10: On the text of a well-formed token list the masker returns the redacted text: a
  string literal, a dollar-quoted string or a number becomes one question mark, a comment
  keeps its delimiters only, and identifiers, keywords, parameters and punctuation stay.\<close>

theorem Mask_refines_tokens:
  assumes "toks_ok None ts" "\<forall>c \<in> set (render ts). valid_rune c"
  shows "Mask (string_of (render ts)) = string_of (render_redacted ts)"
  using assms by (simp add: Mask_lex lex_toks)

definition demo_toks :: "rune list \<Rightarrow> rune list \<Rightarrow> sql_tok list" where
  "demo_toks b n =
     [TWord [120], TPunct 61, TStr b, TPunct 32, TNum n, TPunct 32, TDollar [] [98], TPunct 32, TIdent [34 + 1],
      TParam [49], TBlock [104], TLine [105]]"

theorem Mask_refines_tokens_witness:
  "toks_ok None (demo_toks [39, 97] [49, 46, 53]) \<and>
   Mask (string_of (render (demo_toks [39, 97] [49, 46, 53]))) =
     string_of (render_redacted (demo_toks [39, 97] [49, 46, 53]))"
proof -
  have ok: "toks_ok None (demo_toks [39, 97] [49, 46, 53])"
    by (simp add: demo_toks_def render_def starts_def prev_word_def isWord_def isDigit_def num_char_def dollar_tag_def)
  have valid: "\<forall>c \<in> set (render (demo_toks [39, 97] [49, 46, 53])). valid_rune c"
    by (simp add: demo_toks_def render_def dollar_tag_def valid_rune_def)
  show ?thesis using ok Mask_refines_tokens [OF ok valid] by simp
qed

end
