(* ===== verification/Redact.thy ===== *)
theory Redact
  imports Graph Mask_Spec
begin

text \<open>
  Package \<open>internal/redact\<close>, \<open>source.go\<close>: the source that masks the query text of every
  session between the database client and the poller. A source is what one call of
  \<open>Snapshot\<close> returns: an error, or the sessions and the labels.
\<close>

type_synonym polled = "string + (sessions \<times> labels)"

text \<open>The \<open>range\<close> loop; it reads and writes the same map.\<close>

primrec mask_sessions :: "int list \<Rightarrow> sessions \<Rightarrow> sessions" where
  "mask_sessions [] sessions = sessions"
| "mask_sessions (pid # pids) sessions =
     (case fmlookup sessions pid of
        None \<Rightarrow> mask_sessions pids sessions
      | Some sess \<Rightarrow> mask_sessions pids (fmupd pid (sess\<lparr>sess_Query := Mask (sess_Query sess)\<rparr>) sessions))"

definition Source_Snapshot :: "(int fset \<Rightarrow> int list) \<Rightarrow> polled \<Rightarrow> polled" where
  "Source_Snapshot ord inner =
     (case inner of
        Inl err \<Rightarrow> Inl err
      | Inr (sessions, labels) \<Rightarrow> Inr (mask_sessions (ord (fmdom sessions)) sessions, labels))"

definition mask_session :: "session \<Rightarrow> session" where
  "mask_session s = s\<lparr>sess_Query := Mask (sess_Query s)\<rparr>"

lemma mask_session_simps [simp]:
  "sess_Query (mask_session s) = Mask (sess_Query s)" "sess_BlockedBy (mask_session s) = sess_BlockedBy s"
  by (simp_all add: mask_session_def)

lemma mask_sessions_lookup:
  "distinct pids \<Longrightarrow>
   fmlookup (mask_sessions pids sessions) p =
     (if p \<in> set pids then map_option mask_session (fmlookup sessions p) else fmlookup sessions p)"
  by (induction pids arbitrary: sessions) (auto simp: mask_session_def split: option.splits)

lemma mask_sessions_fmmap:
  assumes "map_order ord"
  shows "mask_sessions (ord (fmdom sessions)) sessions = fmmap mask_session sessions"
proof (rule fmap_ext)
  fix p
  show "fmlookup (mask_sessions (ord (fmdom sessions)) sessions) p = fmlookup (fmmap mask_session sessions) p"
    using map_order.ord_set [OF assms] map_order.ord_distinct [OF assms]
    by (auto simp: mask_sessions_lookup fmdomI fmdom_notD)
qed

text \<open>The masking source hands on an error unchanged; otherwise it masks the query of every
  session, whatever the order of the loop, and touches nothing else: the keys, the blocker
  lists and the labels are those of the inner source.\<close>

theorem Source_Snapshot_masks:
  assumes "map_order ord"
  shows "Source_Snapshot ord inner =
    map_sum id (map_prod (fmmap (\<lambda>s. s\<lparr>sess_Query := Mask (sess_Query s)\<rparr>)) id) inner"
  using assms by (auto simp: Source_Snapshot_def mask_sessions_fmmap mask_session_def [abs_def] split: sum.splits)

theorem Source_Snapshot_masks_witness:
  "Source_Snapshot key_order (Inr (fmupd 1 (zero_session\<lparr>sess_Query := ''1''\<rparr>) fmempty, fmempty)) =
    map_sum id (map_prod (fmmap (\<lambda>s. s\<lparr>sess_Query := Mask (sess_Query s)\<rparr>)) id)
      (Inr (fmupd 1 (zero_session\<lparr>sess_Query := ''1''\<rparr>) fmempty, fmempty))"
  by (rule Source_Snapshot_masks) (rule key_order.map_order_axioms)

end
