(* ===== verification/Poller.thy ===== *)
theory Poller
  imports Store Redact
begin

text \<open>
  Package \<open>internal/poller\<close>: the poll loop of one cluster. What the loop reads from outside
  is an input per iteration: the result of the source, the readings of the clock, and how the
  context stands (\<open>in_ctxErr\<close> after a failed poll; for the sleep, whether the context is
  done already and whether the timer fires before it). \<open>Run\<close> consumes a list of inputs and
  returns the poller, the durations it slept and whether it returned.
\<close>

section \<open>State\<close>

record poll_status =
  ps_Cluster :: string
  ps_Connected :: bool
  ps_LastPoll :: time
  ps_LastError :: string

text \<open>An observer sees the cluster, the duration and the error of each poll.\<close>

type_synonym observation = "string \<times> duration \<times> string option"

record 'p poller =
  pl_cluster :: string
  pl_store :: "'p store"
  pl_interval :: duration
  pl_log :: "(string \<times> duration) list"
  pl_obs :: "observation list option"
  pl_status :: poll_status

definition New_poller :: "string \<Rightarrow> 'p store \<Rightarrow> duration \<Rightarrow> 'p poller" where
  "New_poller cluster st interval =
     \<lparr>pl_cluster = cluster, pl_store = st, pl_interval = interval, pl_log = [], pl_obs = None,
      pl_status = \<lparr>ps_Cluster = cluster, ps_Connected = False, ps_LastPoll = zero_time, ps_LastError = ''''\<rparr>\<rparr>"

definition SetMetrics_poller :: "'p poller \<Rightarrow> 'p poller" where
  "SetMetrics_poller p = p\<lparr>pl_obs := Some []\<rparr>"

definition Status :: "'p poller \<Rightarrow> poll_status" where
  "Status p = pl_status p"

record poll_input =
  in_polled :: polled
  in_build :: time
  in_ok :: time
  in_elapsed :: duration
  in_spent :: duration
  in_ctxErr :: bool
  in_done :: bool
  in_timer :: bool

text \<open>The parts of the environment that stay fixed: the operations of the durable backend and
  the orders of the \<open>range\<close> loops in \<open>Build\<close> and \<open>Put\<close>.\<close>

record 'p poll_env =
  pe_ops :: "'p persister"
  pe_ordS :: "int fset \<Rightarrow> int list"
  pe_ordB :: "int fset \<Rightarrow> int list"
  pe_ordC :: "int fset \<Rightarrow> int list"

section \<open>Operations\<close>

definition setOK :: "time \<Rightarrow> 'p poller \<Rightarrow> 'p poller" where
  "setOK now p = p\<lparr>pl_status := (pl_status p)\<lparr>ps_Connected := True, ps_LastPoll := now, ps_LastError := ''''\<rparr>\<rparr>"

definition setError :: "string \<Rightarrow> 'p poller \<Rightarrow> 'p poller" where
  "setError err p = p\<lparr>pl_status := (pl_status p)\<lparr>ps_Connected := False, ps_LastError := err\<rparr>\<rparr>"

definition pollOnce :: "'p poll_env \<Rightarrow> poll_input \<Rightarrow> 'p poller \<Rightarrow> ('p poller \<times> string option) option" where
  "pollOnce env i p =
     (case in_polled i of
        Inl err \<Rightarrow> Some (p, Some err)
      | Inr (sessions, labels) \<Rightarrow>
          let snap = Build (pe_ordS env) (pe_ordB env) (pl_cluster p) (in_build i) sessions labels
          in do {
               st \<leftarrow> Put (pe_ops env) (pe_ordC env) snap (pl_store p);
               Some (setOK (in_ok i) (p\<lparr>pl_store := st\<rparr>), None)
             })"

definition observe_poll :: "poll_input \<Rightarrow> string option \<Rightarrow> 'p poller \<Rightarrow> 'p poller" where
  "observe_poll i err p = p\<lparr>pl_obs := map_option (\<lambda>obs. obs @ [(pl_cluster p, in_elapsed i, err)]) (pl_obs p)\<rparr>"

text \<open>\<open>sleep\<close>: without a wait only a context that is done already ends it.\<close>

definition sleep :: "poll_input \<Rightarrow> duration \<Rightarrow> bool" where
  "sleep i d = (if d \<le> 0 then \<not> in_done i else in_timer i)"

definition maxBackoff :: duration where
  "maxBackoff = 30 * second"

definition next_backoff :: "duration \<Rightarrow> duration" where
  "next_backoff backoff =
     (if backoff < maxBackoff then
        (let b = wrap64 (backoff * 2) in if b > maxBackoff then maxBackoff else b)
      else backoff)"

text \<open>The time to sleep after a successful poll.\<close>

definition ok_wait :: "poll_input \<Rightarrow> 'p poller \<Rightarrow> duration" where
  "ok_wait i p = (let wait = wrap64 (pl_interval p - in_spent i) in if wait > 0 then wait else 0)"

definition log_poll :: "string \<Rightarrow> duration \<Rightarrow> 'p poller \<Rightarrow> 'p poller" where
  "log_poll err backoff p = p\<lparr>pl_log := pl_log p @ [(err, backoff)]\<rparr>"

primrec Run_loop ::
  "'p poll_env \<Rightarrow> poll_input list \<Rightarrow> duration \<Rightarrow> 'p poller \<Rightarrow> ('p poller \<times> duration list \<times> bool) option" where
  "Run_loop env [] backoff p = Some (p, [], False)"
| "Run_loop env (i # is) backoff p = do {
     r \<leftarrow> pollOnce env i p;
     let p = observe_poll i (snd r) (fst r);
     case snd r of
       Some err \<Rightarrow>
         if in_ctxErr i then Some (p, [], True)
         else let p = log_poll err backoff (setError err p)
              in if \<not> sleep i backoff then Some (p, [backoff], True)
                 else do {
                   r \<leftarrow> Run_loop env is (next_backoff backoff) p;
                   Some (fst r, backoff # fst (snd r), snd (snd r))
                 }
     | None \<Rightarrow>
         let wait = ok_wait i p
         in if \<not> sleep i wait then Some (p, [wait], True)
            else do {
              r \<leftarrow> Run_loop env is (pl_interval p) p;
              Some (fst r, wait # fst (snd r), snd (snd r))
            }
   }"

definition Run :: "'p poll_env \<Rightarrow> poll_input list \<Rightarrow> 'p poller \<Rightarrow> ('p poller \<times> duration list \<times> bool) option" where
  "Run env is p = Run_loop env is (pl_interval p) p"

section \<open>What one poll does\<close>

definition failed :: "poll_input \<Rightarrow> bool" where
  "failed i = (case in_polled i of Inl _ \<Rightarrow> True | Inr _ \<Rightarrow> False)"

definition fail_text :: "poll_input \<Rightarrow> string option" where
  "fail_text i = (case in_polled i of Inl err \<Rightarrow> Some err | Inr _ \<Rightarrow> None)"

definition built :: "'p poll_env \<Rightarrow> string \<Rightarrow> poll_input \<Rightarrow> snapshot list" where
  "built env cluster i =
     (case in_polled i of
        Inl _ \<Rightarrow> []
      | Inr (sessions, labels) \<Rightarrow> [Build (pe_ordS env) (pe_ordB env) cluster (in_build i) sessions labels])"

text \<open>The context stays open: no iteration is the last one.\<close>

definition live :: "poll_input \<Rightarrow> bool" where
  "live i \<longleftrightarrow> \<not> in_ctxErr i \<and> \<not> in_done i \<and> in_timer i"

definition poller_wf :: "'p poller \<Rightarrow> bool" where
  "poller_wf p \<longleftrightarrow> store_wf (pl_store p)"

text \<open>What an iteration leaves, apart from the log: the ring with the new snapshot, the status
  and the observation.\<close>

definition polled_as :: "'p poll_env \<Rightarrow> poll_input \<Rightarrow> 'p poller \<Rightarrow> 'p poller \<Rightarrow> bool" where
  "polled_as env i p p' \<longleftrightarrow>
     poller_wf p' \<and> pl_cluster p' = pl_cluster p \<and> pl_interval p' = pl_interval p \<and>
     ring_cap (pl_store p') = ring_cap (pl_store p) \<and>
     ring_list (pl_store p') = last_n (ring_cap (pl_store p)) (ring_list (pl_store p) @ built env (pl_cluster p) i) \<and>
     pl_obs p' = map_option (\<lambda>obs. obs @ [(pl_cluster p, in_elapsed i, fail_text i)]) (pl_obs p) \<and>
     ps_Cluster (pl_status p') = ps_Cluster (pl_status p) \<and>
     ps_Connected (pl_status p') = (\<not> failed i) \<and>
     ps_LastError (pl_status p') = (case fail_text i of None \<Rightarrow> '''' | Some err \<Rightarrow> err) \<and>
     ps_LastPoll (pl_status p') = (if failed i then ps_LastPoll (pl_status p) else in_ok i)"

lemma iteration_error:
  assumes "poller_wf p" "in_polled i = Inl err"
  shows "pollOnce env i p = Some (p, Some err) \<and>
    polled_as env i p (log_poll err b (setError err (observe_poll i (Some err) p)))"
  using assms ring_list_cap [of "pl_store p"]
  by (simp_all add: pollOnce_def polled_as_def log_poll_def setError_def observe_poll_def failed_def fail_text_def
      built_def poller_wf_def store_wf_def)

lemma iteration_ok:
  assumes "poller_wf p" "in_polled i = Inr res" "map_order (pe_ordC env)"
  shows "\<exists>q. pollOnce env i p = Some (q, None) \<and> polled_as env i p (observe_poll i None q)"
proof -
  obtain sessions labels where res: "res = (sessions, labels)" by fastforce
  let ?snap = "Build (pe_ordS env) (pe_ordB env) (pl_cluster p) (in_build i) sessions labels"
  obtain st where st: "Put (pe_ops env) (pe_ordC env) ?snap (pl_store p) = Some st" "store_wf st"
    "st_cap st = st_cap (pl_store p)"
    "ring_list st = last_n (ring_cap (pl_store p)) (ring_list (pl_store p) @ [?snap])"
    using Put_ok [OF _ assms(3), of "pl_store p" "pe_ops env" ?snap] assms(1) unfolding poller_wf_def by blast
  then show ?thesis using assms(1,2)
    by (simp add: pollOnce_def polled_as_def observe_poll_def setOK_def failed_def fail_text_def built_def
        poller_wf_def res)
qed

section \<open>Back-off\<close>

text \<open>The back-off after \<open>k\<close> failures in a row.\<close>

definition backoff_after :: "duration \<Rightarrow> nat \<Rightarrow> duration" where
  "backoff_after interval k = (if interval \<ge> maxBackoff then interval else min (interval * 2 ^ k) maxBackoff)"

lemma backoff_zero: "backoff_after interval 0 = interval"
  by (auto simp: backoff_after_def)

lemma next_backoff_after:
  assumes "0 < interval"
  shows "next_backoff (backoff_after interval k) = backoff_after interval (Suc k)"
proof (cases "backoff_after interval k < maxBackoff")
  case True
  then have small: "interval < maxBackoff" "interval * 2 ^ k < maxBackoff" "backoff_after interval k = interval * 2 ^ k"
    by (auto simp: backoff_after_def split: if_splits)
  moreover have "wrap64 (interval * 2 ^ k * 2) = interval * 2 ^ k * 2"
  proof (rule wrap64_id)
    have "0 \<le> interval * 2 ^ k" using assms by simp
    then show "in_int64 (interval * 2 ^ k * 2)" using small(2) by (auto simp: in_int64_def maxBackoff_def second_def)
  qed
  ultimately show ?thesis by (auto simp: next_backoff_def backoff_after_def Let_def min_def)
next
  case False
  show ?thesis
  proof (cases "interval < maxBackoff")
    case True
    with False have ge: "maxBackoff \<le> interval * 2 ^ k" by (simp add: backoff_after_def)
    also have "\<dots> \<le> interval * 2 ^ Suc k" using assms by simp
    finally show ?thesis using True ge by (simp add: next_backoff_def backoff_after_def)
  qed (use False in \<open>simp add: next_backoff_def backoff_after_def\<close>)
qed

lemma backoff_bounds: "0 < interval \<Longrightarrow> interval \<le> backoff_after interval k \<and> backoff_after interval k \<le> max interval maxBackoff"
  by (auto simp: backoff_after_def min_def)

text \<open>How many polls failed in a row at the end of a list of inputs.\<close>

definition failures_at_end :: "poll_input list \<Rightarrow> nat" where
  "failures_at_end is = length (takeWhile failed (rev is))"

definition wait_after :: "duration \<Rightarrow> nat \<Rightarrow> poll_input \<Rightarrow> duration" where
  "wait_after interval k i =
     (if failed i then backoff_after interval k else max 0 (wrap64 (interval - in_spent i)))"

primrec waits_from :: "duration \<Rightarrow> nat \<Rightarrow> poll_input list \<Rightarrow> duration list" where
  "waits_from interval k [] = []"
| "waits_from interval k (i # is) =
     wait_after interval k i # waits_from interval (if failed i then Suc k else 0) is"

lemma length_waits_from [simp]: "length (waits_from interval k is) = length is"
  by (induction "is" arbitrary: k) simp_all

lemma waits_from_nth:
  "n < length is \<Longrightarrow>
   waits_from interval k is ! n =
     wait_after interval (foldl (\<lambda>k i. if failed i then Suc k else 0) k (take n is)) (is ! n)"
  by (induction "is" arbitrary: k n) (simp_all add: nth_Cons' take_Cons')

lemma foldl_failures: "foldl (\<lambda>k i. if failed i then Suc k else 0) 0 xs = failures_at_end xs"
  by (induction xs rule: rev_induct) (simp_all add: failures_at_end_def)

text \<open>Runs in which the context stays open.\<close>

definition final_status :: "poll_input list \<Rightarrow> poll_status \<Rightarrow> poll_status \<Rightarrow> bool" where
  "final_status is st st' \<longleftrightarrow>
     (if is = [] then st' = st
      else ps_Connected st' = (\<not> failed (last is)) \<and>
           ps_LastError st' = (case fail_text (last is) of None \<Rightarrow> '''' | Some err \<Rightarrow> err))"

definition ran_as :: "'p poll_env \<Rightarrow> poll_input list \<Rightarrow> 'p poller \<Rightarrow> 'p poller \<Rightarrow> bool" where
  "ran_as env is p p' \<longleftrightarrow>
     poller_wf p' \<and> ring_cap (pl_store p') = ring_cap (pl_store p) \<and>
     ring_list (pl_store p') =
       last_n (ring_cap (pl_store p)) (ring_list (pl_store p) @ concat (map (built env (pl_cluster p)) is)) \<and>
     pl_obs p' = map_option (\<lambda>obs. obs @ map (\<lambda>i. (pl_cluster p, in_elapsed i, fail_text i)) is) (pl_obs p) \<and>
     final_status is (pl_status p) (pl_status p')"

lemma ran_as_Cons:
  assumes "polled_as env i p q" "ran_as env is q p'"
  shows "ran_as env (i # is) p p'"
  using assms unfolding ran_as_def polled_as_def final_status_def
  by (auto simp: last_n_append option.map_comp comp_def)

lemma live_sleep: "live i \<Longrightarrow> sleep i d"
  by (simp add: live_def sleep_def)

lemma Run_loop_live:
  assumes "map_order (pe_ordC env)" "0 < interval"
  shows "poller_wf p \<Longrightarrow> pl_interval p = interval \<Longrightarrow> \<forall>i \<in> set is. live i \<Longrightarrow>
    \<exists>p'. Run_loop env is (backoff_after interval k) p = Some (p', waits_from interval k is, False) \<and> ran_as env is p p'"
proof (induction "is" arbitrary: k p)
  case Nil
  then show ?case by (simp add: ran_as_def final_status_def ring_list_cap poller_wf_def store_wf_def option.map_ident)
next
  case (Cons i "is")
  from Cons.prems have live: "live i" "\<forall>i \<in> set is. live i" by simp_all
  show ?case
  proof (cases "in_polled i")
    case (Inl err)
    let ?q = "log_poll err (backoff_after interval k) (setError err (observe_poll i (Some err) p))"
    have it: "pollOnce env i p = Some (p, Some err)" "polled_as env i p ?q"
      using iteration_error [OF Cons.prems(1) Inl, of env "backoff_after interval k"] by simp_all
    from it(2) have q: "poller_wf ?q" "pl_interval ?q = interval" using Cons.prems(2) by (simp_all add: polled_as_def)
    from Cons.IH [OF q live(2), of "Suc k"] obtain p' where p':
      "Run_loop env is (backoff_after interval (Suc k)) ?q = Some (p', waits_from interval (Suc k) is, False)"
      "ran_as env is ?q p'" by blast
    have "failed i" using Inl by (simp add: failed_def)
    then show ?thesis
      using it(1) p' ran_as_Cons [OF it(2) p'(2)] live(1) live_sleep [OF live(1)] next_backoff_after [OF assms(2), of k]
      by (simp add: Let_def live_def wait_after_def)
  next
    case (Inr res)
    from iteration_ok [OF Cons.prems(1) Inr assms(1)] obtain q where
      it: "pollOnce env i p = Some (q, None)" "polled_as env i p (observe_poll i None q)" by blast
    let ?q = "observe_poll i None q"
    from it(2) have q: "poller_wf ?q" "pl_interval ?q = interval" using Cons.prems(2) by (simp_all add: polled_as_def)
    from Cons.IH [OF q live(2), of 0] obtain p' where p':
      "Run_loop env is interval ?q = Some (p', waits_from interval 0 is, False)" "ran_as env is ?q p'"
      by (auto simp: backoff_zero)
    have "\<not> failed i" using Inr by (simp add: failed_def)
    moreover have "ok_wait i ?q = max 0 (wrap64 (interval - in_spent i))" by (simp add: ok_wait_def q(2) Let_def max_def)
    ultimately show ?thesis
      using it(1) p' q(2) ran_as_Cons [OF it(2) p'(2)] live_sleep [OF live(1)]
      by (simp add: Let_def wait_after_def)
  qed
qed

text \<open>Runs that end because the context is cancelled during iteration \<open>i\<close>.\<close>

definition cancelled :: "poll_input \<Rightarrow> bool" where
  "cancelled i \<longleftrightarrow> in_ctxErr i \<and> in_done i \<and> \<not> in_timer i"

definition polls_seen :: "'p poll_env \<Rightarrow> poll_input list \<Rightarrow> 'p poller \<Rightarrow> 'p poller \<Rightarrow> bool" where
  "polls_seen env is p p' \<longleftrightarrow>
     ring_list (pl_store p') =
       last_n (ring_cap (pl_store p)) (ring_list (pl_store p) @ concat (map (built env (pl_cluster p)) is)) \<and>
     pl_obs p' = map_option (\<lambda>obs. obs @ map (\<lambda>i. (pl_cluster p, in_elapsed i, fail_text i)) is) (pl_obs p)"

lemma polls_seen_Cons:
  "polled_as env i p q \<Longrightarrow> polls_seen env is q p' \<Longrightarrow> polls_seen env (i # is) p p'"
  unfolding polls_seen_def polled_as_def by (auto simp: last_n_append option.map_comp comp_def)

lemma cancelled_sleep: "cancelled i \<Longrightarrow> \<not> sleep i d"
  by (simp add: cancelled_def sleep_def)

lemma Run_loop_cancelled_now:
  assumes "map_order (pe_ordC env)" "poller_wf p" "cancelled i"
  shows "\<exists>p' ws. Run_loop env (i # js) b p = Some (p', ws, True) \<and> polls_seen env [i] p p' \<and>
    (failed i \<longrightarrow> pl_status p' = pl_status p)"
proof (cases "in_polled i")
  case (Inl err)
  with assms(3) show ?thesis using ring_list_cap [of "pl_store p"] assms(2)
    by (simp add: cancelled_def pollOnce_def polls_seen_def observe_poll_def built_def fail_text_def
        poller_wf_def store_wf_def Let_def)
next
  case (Inr res)
  from iteration_ok [OF assms(2) Inr assms(1)] obtain q where
    it: "pollOnce env i p = Some (q, None)" "polled_as env i p (observe_poll i None q)" by blast
  from it(2) have "polls_seen env [i] p (observe_poll i None q)" by (simp add: polls_seen_def polled_as_def)
  with it(1) cancelled_sleep [OF assms(3)] Inr show ?thesis by (simp add: Let_def failed_def)
qed

lemma Run_loop_cancelled:
  assumes "map_order (pe_ordC env)" "cancelled i"
  shows "poller_wf p \<Longrightarrow> \<forall>i \<in> set is. live i \<Longrightarrow>
    \<exists>p' ws. Run_loop env (is @ i # js) b p = Some (p', ws, True) \<and> polls_seen env (is @ [i]) p p'"
proof (induction "is" arbitrary: b p)
  case Nil
  from Run_loop_cancelled_now [OF assms(1) Nil(1) assms(2), of js b] show ?case by auto
next
  case (Cons x "is")
  from Cons.prems have live: "live x" "\<forall>i \<in> set is. live i" by simp_all
  show ?case
  proof (cases "in_polled x")
    case (Inl err)
    let ?q = "log_poll err b (setError err (observe_poll x (Some err) p))"
    have it: "pollOnce env x p = Some (p, Some err)" "polled_as env x p ?q"
      using iteration_error [OF Cons.prems(1) Inl, of env b] by simp_all
    from it(2) have "poller_wf ?q" by (simp add: polled_as_def)
    from Cons.IH [OF this live(2), of "next_backoff b"] polls_seen_Cons [OF it(2)]
    show ?thesis using it(1) live(1) live_sleep [OF live(1)] by (fastforce simp: Let_def live_def)
  next
    case (Inr res)
    from iteration_ok [OF Cons.prems(1) Inr assms(1)] obtain q where
      it: "pollOnce env x p = Some (q, None)" "polled_as env x p (observe_poll x None q)" by blast
    from it(2) have "poller_wf (observe_poll x None q)" by (simp add: polled_as_def)
    from Cons.IH [OF this live(2), of "pl_interval (observe_poll x None q)"] polls_seen_Cons [OF it(2)]
    show ?thesis using it(1) live_sleep [OF live(1)] by (fastforce simp: Let_def)
  qed
qed

section \<open>Properties\<close>

text \<open>C31: While the context stays open the loop never panics and never returns. After the poll
  number \<open>n\<close> it sleeps: if the poll succeeded, the rest of the interval; if it failed, the
  interval doubled once per failure immediately before, but at most 30 seconds (the interval
  itself when that is longer). So a failed poll is always followed by a wait between the
  interval and the larger of the interval and 30 seconds, and a success resets the back-off.\<close>

theorem Run_backoff:
  assumes "map_order (pe_ordC env)" "0 < interval" "poller_wf p" "pl_interval p = interval" "\<forall>i \<in> set is. live i"
  shows "\<exists>p' ws. Run env is p = Some (p', ws, False) \<and> length ws = length is \<and>
    (\<forall>n < length is.
       if failed (is ! n)
       then ws ! n = (let b = interval * 2 ^ length (takeWhile failed (rev (take n is)))
                      in if interval \<ge> 30 * second then interval else min b (30 * second)) \<and>
            interval \<le> ws ! n \<and> ws ! n \<le> max interval (30 * second)
       else ws ! n = max 0 (wrap64 (interval - in_spent (is ! n))))"
proof -
  from Run_loop_live [OF assms(1,2,3,4,5), of 0] obtain p' where
    run: "Run env is p = Some (p', waits_from interval 0 is, False)"
    by (auto simp: Run_def backoff_zero assms(4))
  have "waits_from interval 0 is ! n = wait_after interval (failures_at_end (take n is)) (is ! n)"
    if "n < length is" for n
    using that by (simp add: waits_from_nth foldl_failures)
  with run backoff_bounds [OF assms(2)] show ?thesis
    by (auto simp: wait_after_def backoff_after_def failures_at_end_def maxBackoff_def Let_def)
qed

text \<open>C15: After any sequence of polls the store holds the last snapshots built from the
  successful polls, in order; the observer has seen every poll once with its error; the status
  says connected exactly when the last poll succeeded, and shows its error otherwise.\<close>

theorem Run_refines_log:
  fixes env :: "'p poll_env"
  assumes "map_order (pe_ordC env)" "0 < interval" "\<forall>i \<in> set is. live i" "is \<noteq> []"
  shows "\<exists>p' ws. Run env is (SetMetrics_poller (New_poller cluster (New n) interval)) = Some (p', ws, False) \<and>
    ring_list (pl_store p') = last_n (nat (max 1 n)) (concat (map (built env cluster) is)) \<and>
    pl_obs p' = Some (map (\<lambda>i. (cluster, in_elapsed i, fail_text i)) is) \<and>
    ps_Connected (Status p') = (\<not> failed (last is)) \<and>
    ps_LastError (Status p') = (case fail_text (last is) of None \<Rightarrow> '''' | Some err \<Rightarrow> err)"
proof -
  let ?p = "SetMetrics_poller (New_poller cluster (New n) interval) :: 'p poller"
  have p: "poller_wf ?p" "pl_interval ?p = interval" "pl_cluster ?p = cluster" "pl_obs ?p = Some []"
    "pl_store ?p = New n"
    by (simp_all add: SetMetrics_poller_def New_poller_def poller_wf_def New_wf)
  from Run_loop_live [OF assms(1,2) p(1,2) assms(3), of 0] obtain p' where
    "Run env is ?p = Some (p', waits_from interval 0 is, False)" "ran_as env is ?p p'"
    by (auto simp: Run_def backoff_zero p(2))
  then show ?thesis using assms(4) p
    by (auto simp: ran_as_def final_status_def Status_def New_ring_list)
qed

text \<open>Once the context is cancelled the loop returns: an iteration during which it happens
  is the last one, so what is stored and observed comes from the polls up to it and from no
  later one.\<close>

theorem Run_stops:
  assumes "map_order (pe_ordC env)" "poller_wf p" "\<forall>i \<in> set is. live i" "cancelled i"
  shows "\<exists>p' ws. Run env (is @ i # js) p = Some (p', ws, True) \<and>
    ring_list (pl_store p') =
      last_n (ring_cap (pl_store p)) (ring_list (pl_store p) @ concat (map (built env (pl_cluster p)) (is @ [i]))) \<and>
    pl_obs p' = map_option (\<lambda>obs. obs @ map (\<lambda>i. (pl_cluster p, in_elapsed i, fail_text i)) (is @ [i])) (pl_obs p)"
  using Run_loop_cancelled [OF assms(1,4,2,3), of js "pl_interval p"] unfolding Run_def polls_seen_def by blast

definition demo_env :: "unit poll_env" where
  "demo_env = \<lparr>pe_ops = nil_persister, pe_ordS = key_order, pe_ordB = key_order, pe_ordC = key_order\<rparr>"

definition demo_poll :: "polled \<Rightarrow> bool \<Rightarrow> poll_input" where
  "demo_poll r stop = \<lparr>in_polled = r, in_build = 1, in_ok = 2, in_elapsed = 3, in_spent = 4,
     in_ctxErr = stop, in_done = stop, in_timer = \<not> stop\<rparr>"

definition demo_polls :: "poll_input list" where
  "demo_polls = [demo_poll (Inl ''down'') False, demo_poll (Inl ''down'') False, demo_poll (Inr (fmempty, fmempty)) False]"

definition demo_poller :: "unit poller" where
  "demo_poller = SetMetrics_poller (New_poller ''c'' (New 2) second)"

lemma demo_poller_facts:
  "map_order (pe_ordC demo_env)" "0 < second" "poller_wf demo_poller" "pl_interval demo_poller = second"
  "\<forall>i \<in> set demo_polls. live i" "cancelled (demo_poll (Inl ''x'') True)" "demo_polls \<noteq> []"
  by (simp_all add: demo_env_def key_order.map_order_axioms second_def demo_poller_def poller_wf_def New_wf
      SetMetrics_poller_def New_poller_def demo_polls_def demo_poll_def live_def cancelled_def)

theorem Run_backoff_witness:
  "\<exists>p' ws. Run demo_env demo_polls demo_poller = Some (p', ws, False) \<and> ws ! 1 = 2 * second"
  using Run_backoff [OF demo_poller_facts(1-5)]
  by (auto simp: demo_polls_def demo_poll_def failed_def Let_def second_def dest!: spec [of _ 1])

theorem Run_refines_log_witness:
  "\<exists>p' ws. Run demo_env demo_polls (SetMetrics_poller (New_poller ''c'' (New 2) second)) = Some (p', ws, False) \<and>
    ps_Connected (Status p')"
  using Run_refines_log [OF demo_poller_facts(1,2,5,7), of "''c''" 2]
  by (auto simp: demo_polls_def demo_poll_def failed_def)

theorem Run_stops_witness:
  "\<exists>p' ws. Run demo_env (demo_polls @ demo_poll (Inl ''x'') True # demo_polls) demo_poller = Some (p', ws, True)"
  using Run_stops [OF demo_poller_facts(1,3,5,6), of demo_polls] by blast

end
