(* ===== verification/Audit_Log.thy ===== *)
theory Audit_Log
  imports Prelude
begin

text \<open>
  Package \<open>internal/audit\<close>: the entry of the action trail, the interface \<open>Sink\<close> and the
  bounded in-memory sink. The locale \<open>audit_sink\<close> states what a sink promises in terms of
  the list of retained entries, oldest first; it is interpreted here on \<open>Memory\<close> and again
  on the SQLite backend.
\<close>

section \<open>Entries and the in-memory sink\<close>

record entry =
  ent_At :: time
  ent_Actor :: string
  ent_Action :: string
  ent_PID :: int
  ent_VictimQuery :: string
  ent_Delivered :: bool
  ent_Error :: string

record memory =
  mem_entries :: "entry list"
  mem_cap :: int

definition NewMemory :: "int \<Rightarrow> memory" where
  "NewMemory capacity =
     \<lparr>mem_entries = [], mem_cap = (if capacity < 1 then 1 else capacity)\<rparr>"

text \<open>\<open>Record\<close> appends and cuts the slice at the front; it returns no error. A slice
  expression with a bound out of range would panic; \<open>Record_eq\<close> shows that it never is.\<close>

definition slice_from :: "'a list \<Rightarrow> int \<Rightarrow> 'a list option" where
  "slice_from xs i = (if 0 \<le> i \<and> i \<le> int (length xs) then Some (drop (nat i) xs) else None)"

definition Record :: "entry \<Rightarrow> memory \<Rightarrow> (string option \<times> memory) option" where
  "Record e m =
     (let es = mem_entries m @ [e]
      in if int (length es) > mem_cap m
         then map_option (\<lambda>es'. (None, m\<lparr>mem_entries := es'\<rparr>)) (slice_from es (int (length es) - mem_cap m))
         else Some (None, m\<lparr>mem_entries := es\<rparr>))"

text \<open>The loop of \<open>Recent\<close>: \<open>k\<close> turns are left, the next one reads index \<open>i\<close>.\<close>

primrec recent_loop :: "nat \<Rightarrow> int \<Rightarrow> entry list \<Rightarrow> entry list option" where
  "recent_loop 0 i es = Some []"
| "recent_loop (Suc k) i es = do { e \<leftarrow> idx_get es i; out \<leftarrow> recent_loop k (i - 1) es; Some (e # out) }"

definition Recent :: "int \<Rightarrow> memory \<Rightarrow> (string + entry list) option" where
  "Recent limit m =
     (let n = int (length (mem_entries m));
          lim = (if limit \<le> 0 \<or> limit > n then n else limit)
      in map_option Inr (recent_loop (nat lim) (n - 1) (mem_entries m)))"

section \<open>The contract of a sink\<close>

text \<open>\<open>rec\<close> and \<open>recent\<close> are the two methods, \<open>trail\<close> the retained entries, \<open>good\<close> the
  entries the sink can hold unchanged and \<open>lim\<close> the largest number of entries \<open>recent\<close>
  serves. The order of \<open>recent\<close> is promised for entries recorded in the order of their
  times.\<close>

locale audit_sink =
  fixes ok :: "'s \<Rightarrow> bool"
    and good :: "entry \<Rightarrow> bool"
    and lim :: int
    and trail :: "'s \<Rightarrow> entry list"
    and rec :: "entry \<Rightarrow> 's \<Rightarrow> (string option \<times> 's) option"
    and recent :: "int \<Rightarrow> 's \<Rightarrow> (string + entry list) option"
  assumes lim_pos: "1 \<le> lim"
    and rec_returns: "ok s \<Longrightarrow> \<exists>err s'. rec e s = Some (err, s') \<and> ok s'"
    and rec_error: "ok s \<Longrightarrow> rec e s = Some (Some err, s') \<Longrightarrow> trail s' = trail s"
    and rec_keeps: "ok s \<Longrightarrow> good e \<Longrightarrow> rec e s = Some (None, s') \<Longrightarrow>
      trail s' \<noteq> [] \<and> suffix (trail s') (trail s @ [e])"
    and recent_returns: "ok s \<Longrightarrow> \<exists>r. recent l s = Some r"
    and recent_newest: "ok s \<Longrightarrow> 1 \<le> l \<Longrightarrow> l \<le> lim \<Longrightarrow> sorted (map ent_At (trail s)) \<Longrightarrow>
      recent l s = Some (Inr es) \<Longrightarrow> es = take (nat l) (rev (trail s))"
begin

lemma rec_last: "ok s \<Longrightarrow> good e \<Longrightarrow> rec e s = Some (None, s') \<Longrightarrow> last (trail s') = e"
  using rec_keeps [of s e s'] by (auto simp: suffix_def) (metis last_append last_snoc)

lemma recorded_first:
  assumes "ok s" "good e" "rec e s = Some (None, s')" "sorted (map ent_At (trail s @ [e]))"
    and "1 \<le> l" "l \<le> lim" "recent l s' = Some (Inr es)"
  shows "\<exists>rest. es = e # rest"
proof -
  have keep: "trail s' \<noteq> []" "suffix (trail s') (trail s @ [e])" using rec_keeps [OF assms(1-3)] by auto
  from keep(2) obtain d where "trail s @ [e] = d @ trail s'" by (auto simp: suffix_def)
  then have "sorted (map ent_At (trail s'))" using assms(4) by (metis map_append sorted_append)
  moreover have "ok s'" using rec_returns [OF assms(1), of e] assms(3) by auto
  ultimately have "es = take (nat l) (rev (trail s'))" using recent_newest assms(5-7) by blast
  moreover obtain ys where "trail s' = ys @ [e]"
    using keep(1) rec_last [OF assms(1-3)] by (metis append_butlast_last_id)
  ultimately show ?thesis using assms(5) by (cases "nat l") auto
qed

end

section \<open>The in-memory sink keeps the contract\<close>

definition memory_wf :: "memory \<Rightarrow> bool" where
  "memory_wf m \<longleftrightarrow> 1 \<le> mem_cap m \<and> int (length (mem_entries m)) \<le> mem_cap m"

lemma NewMemory_wf [simp]: "memory_wf (NewMemory n)"
  by (simp add: memory_wf_def NewMemory_def)

lemma Record_eq:
  "memory_wf m \<Longrightarrow> Record e m = Some (None, m\<lparr>mem_entries := last_n (nat (mem_cap m)) (mem_entries m @ [e])\<rparr>)"
proof -
  assume wf: "memory_wf m"
  have "nat (int (length (mem_entries m @ [e])) - mem_cap m) = length (mem_entries m @ [e]) - nat (mem_cap m)"
    using wf unfolding memory_wf_def length_append by simp linarith
  with wf show ?thesis unfolding Record_def memory_wf_def slice_from_def last_n_def Let_def by simp
qed

lemma Record_wf: "memory_wf m \<Longrightarrow> Record e m = Some (err, m') \<Longrightarrow> memory_wf m'"
  by (auto simp: Record_eq memory_wf_def)

lemma recent_loop_eq:
  "k \<le> n \<Longrightarrow> n \<le> length es \<Longrightarrow> recent_loop k (int n - 1) es = Some (take k (rev (take n es)))"
proof (induction k arbitrary: n)
  case (Suc k)
  then obtain m where n: "n = Suc m" by (cases n) auto
  with Suc have "recent_loop k (int m - 1) es = Some (take k (rev (take m es)))" by simp
  moreover have "take n es = take m es @ [es ! m]" using Suc(3) n by (simp add: take_Suc_conv_app_nth)
  ultimately show ?case using Suc(3) n by (simp add: idx_get_ok algebra_simps)
qed simp

lemma Recent_eq:
  "Recent l m = Some (Inr (if l \<le> 0 then rev (mem_entries m) else take (nat l) (rev (mem_entries m))))"
  using recent_loop_eq [of "nat l" "length (mem_entries m)" "mem_entries m"]
    recent_loop_eq [of "length (mem_entries m)" "length (mem_entries m)" "mem_entries m"]
  by (auto simp: Recent_def Let_def)

lemma last_n_suffix: "suffix (last_n n xs) xs"
  by (simp add: last_n_def suffix_drop)

interpretation memory: audit_sink memory_wf "\<lambda>_. True" max_int64 mem_entries Record Recent
proof unfold_locales
  fix s s' e
  assume "memory_wf s" "Record e s = Some (None, s')"
  then have "mem_entries s' = last_n (nat (mem_cap s)) (mem_entries s @ [e])" "1 \<le> mem_cap s"
    by (auto simp: Record_eq memory_wf_def)
  then show "mem_entries s' \<noteq> [] \<and> suffix (mem_entries s') (mem_entries s @ [e])"
    using last_n_suffix [of "nat (mem_cap s)" "mem_entries s @ [e]"] by simp
qed (auto simp: Record_eq Recent_eq memory_wf_def)

text \<open>A run of \<open>Record\<close> calls.\<close>

primrec record_all :: "entry list \<Rightarrow> memory \<Rightarrow> memory option" where
  "record_all [] m = Some m"
| "record_all (e # es) m = do { r \<leftarrow> Record e m; record_all es (snd r) }"

lemma record_all_eq:
  "memory_wf m \<Longrightarrow> \<exists>m'. record_all es m = Some m' \<and> mem_cap m' = mem_cap m \<and> memory_wf m' \<and>
     mem_entries m' = last_n (nat (mem_cap m)) (mem_entries m @ es)"
proof (induction es arbitrary: m)
  case Nil
  then have "length (mem_entries m) \<le> nat (mem_cap m)" unfolding memory_wf_def by linarith
  with Nil show ?case by simp
next
  case (Cons e es)
  let ?m = "m\<lparr>mem_entries := last_n (nat (mem_cap m)) (mem_entries m @ [e])\<rparr>"
  have "memory_wf ?m" using Cons.prems Record_wf Record_eq by blast
  from Cons.IH [OF this] Cons.prems show ?case by (simp add: Record_eq last_n_append)
qed

text \<open>After any sequence of \<open>Record\<close> calls on a new sink, none of which fails or
  panics, \<open>Recent\<close> serves the last recorded entries, newest first: at most \<open>limit\<close> of
  them when the limit is positive, and never more than the capacity.\<close>

theorem Memory_recent_refines_log:
  "\<exists>m. record_all es (NewMemory n) = Some m \<and>
     Recent limit m = Some (Inr
       (let newest = take (nat (max 1 n)) (rev es)
        in if limit \<le> 0 then newest else take (nat limit) newest))"
  using record_all_eq [OF NewMemory_wf, of es n]
  by (auto simp: Recent_eq rev_last_n NewMemory_def Let_def max_def)

end
