(* ===== verification/Signal.thy ===== *)
theory Signal
  imports Audit_Log
begin

text \<open>
  Package \<open>internal/signal\<close>: the audited cancel and terminate service. The database client
  (\<open>Signaler\<close>), the query lookup, the audit sink and the metrics observer are interfaces:
  their operations are arguments and the state they act on is part of \<open>service\<close>. The lemma
  \<open>Do_trail\<close> is proved once for every sink that keeps the contract \<open>audit_sink\<close>.
\<close>

definition ActionCancel :: string where "ActionCancel = ''cancel''"
definition ActionTerminate :: string where "ActionTerminate = ''terminate''"

text \<open>The interface \<open>Signaler\<close>: the new state of the cluster, the report of the server, and
  the error if there is one.\<close>

record 'd signaler =
  sg_Cancel :: "int \<Rightarrow> 'd \<Rightarrow> 'd \<times> bool \<times> string option"
  sg_Terminate :: "int \<Rightarrow> 'd \<Rightarrow> 'd \<times> bool \<times> string option"

datatype log_line =
    SinkFailed string
  | SignalDone string int string bool string time
  | SignalFailed string int string bool string time string

record ('d, 'k, 'o) service =
  svc_db :: 'd
  svc_sink :: "'k option"
  svc_obs :: "'o option"
  svc_log :: "log_line list"

record signal_result =
  res_Action :: string
  res_PID :: int
  res_Delivered :: bool
  res_At :: time

definition New_service :: "'d \<Rightarrow> 'k option \<Rightarrow> ('d, 'k, 'o) service" where
  "New_service db sink = \<lparr>svc_db = db, svc_sink = sink, svc_obs = None, svc_log = []\<rparr>"

definition SetMetrics :: "'o \<Rightarrow> ('d, 'k, 'o) service \<Rightarrow> ('d, 'k, 'o) service" where
  "SetMetrics obs svc = svc\<lparr>svc_obs := Some obs\<rparr>"

text \<open>The switch on the action: an unknown action sends nothing.\<close>

definition send_action :: "'d signaler \<Rightarrow> string \<Rightarrow> int \<Rightarrow> 'd \<Rightarrow> 'd \<times> bool \<times> string option" where
  "send_action sig action pid d =
     (if action = ActionCancel then sg_Cancel sig pid d
      else if action = ActionTerminate then sg_Terminate sig pid d
      else (d, False, None))"

definition mk_entry :: "time \<Rightarrow> string \<Rightarrow> string \<Rightarrow> int \<Rightarrow> string \<Rightarrow> bool \<Rightarrow> string option \<Rightarrow> entry" where
  "mk_entry at actor action pid victim delivered err =
     \<lparr>ent_At = at, ent_Actor = actor, ent_Action = action, ent_PID = pid, ent_VictimQuery = victim,
      ent_Delivered = (delivered \<and> err = None), ent_Error = (case err of None \<Rightarrow> '''' | Some e \<Rightarrow> e)\<rparr>"

text \<open>The write to the sink; a failure is only logged.\<close>

definition write_sink ::
  "(entry \<Rightarrow> 'k \<Rightarrow> (string option \<times> 'k) option) \<Rightarrow> entry \<Rightarrow> 'k option \<Rightarrow> ('k option \<times> log_line list) option" where
  "write_sink rec e sink =
     (case sink of
        None \<Rightarrow> Some (None, [])
      | Some k \<Rightarrow>
          (case rec e k of
             None \<Rightarrow> None
           | Some (None, k') \<Rightarrow> Some (Some k', [])
           | Some (Some rerr, k') \<Rightarrow> Some (Some k', [SinkFailed rerr])))"

definition Do ::
  "'d signaler \<Rightarrow> (int \<Rightarrow> string \<times> bool) option \<Rightarrow> (entry \<Rightarrow> 'k \<Rightarrow> (string option \<times> 'k) option) \<Rightarrow>
   (string \<Rightarrow> bool \<Rightarrow> 'o \<Rightarrow> 'o) \<Rightarrow> time \<Rightarrow> string \<Rightarrow> int \<Rightarrow> string \<Rightarrow> ('d, 'k, 'o) service \<Rightarrow>
   (('d, 'k, 'o) service \<times> signal_result \<times> string option) option" where
  "Do sig lookup rec observe now action pid actor svc =
     (case send_action sig action pid (svc_db svc) of
        (d, delivered, err) \<Rightarrow>
          let victimQuery = (case lookup of None \<Rightarrow> '''' | Some f \<Rightarrow> fst (f pid));
              e = mk_entry now actor action pid victimQuery delivered err
          in do {
               w \<leftarrow> write_sink rec e (svc_sink svc);
               let line = (case err of
                             None \<Rightarrow> SignalDone action pid actor delivered victimQuery now
                           | Some m \<Rightarrow> SignalFailed action pid actor delivered victimQuery now m);
               Some (svc\<lparr>svc_db := d, svc_sink := fst w,
                         svc_obs := map_option (observe action (ent_Delivered e)) (svc_obs svc),
                         svc_log := svc_log svc @ snd w @ [line]\<rparr>,
                     \<lparr>res_Action = action, res_PID = pid,
                      res_Delivered = (if err = None then delivered else False), res_At = now\<rparr>,
                     err)
             })"

section \<open>Every attempt is recorded\<close>

text \<open>\<open>Do\<close> in terms of the entry it records.\<close>

lemma Do_eq:
  assumes "send_action sig action pid (svc_db svc) = (d, delivered, err)"
    and "e = mk_entry now actor action pid (case lookup of None \<Rightarrow> '''' | Some f \<Rightarrow> fst (f pid)) delivered err"
    and "write_sink rec e (svc_sink svc) = Some (sink', lines)"
  shows "\<exists>line. Do sig lookup rec observe now action pid actor svc =
      Some (svc\<lparr>svc_db := d, svc_sink := sink', svc_obs := map_option (observe action (ent_Delivered e)) (svc_obs svc),
                svc_log := svc_log svc @ lines @ [line]\<rparr>,
            \<lparr>res_Action = action, res_PID = pid, res_Delivered = ent_Delivered e, res_At = now\<rparr>, err)"
proof -
  have "(if err = None then delivered else False) = ent_Delivered e" by (simp add: assms(2) mk_entry_def)
  then show ?thesis using assms(1,3) unfolding Do_def Let_def by (simp flip: assms(2)) (rule exI, rule refl)
qed

context audit_sink
begin

lemma Do_trail:
  assumes "svc_sink svc = Some k" "ok k" "send_action sig action pid (svc_db svc) = (d, delivered, err)"
    and "e = mk_entry now actor action pid (case lookup of None \<Rightarrow> '''' | Some f \<Rightarrow> fst (f pid)) delivered err"
  shows "\<exists>svc' k'. Do sig lookup rec observe now action pid actor svc =
      Some (svc', \<lparr>res_Action = action, res_PID = pid, res_Delivered = ent_Delivered e, res_At = now\<rparr>, err) \<and>
    svc_db svc' = d \<and> svc_sink svc' = Some k' \<and> ok k' \<and>
    svc_obs svc' = map_option (observe action (ent_Delivered e)) (svc_obs svc) \<and>
    (rec e k = Some (None, k') \<or>
     trail k' = trail k \<and> (\<exists>rerr line. svc_log svc' = svc_log svc @ [SinkFailed rerr, line]))"
proof -
  obtain rerr k' where r: "rec e k = Some (rerr, k')" "ok k'" using rec_returns [OF assms(2)] by blast
  let ?lines = "case rerr of None \<Rightarrow> [] | Some x \<Rightarrow> [SinkFailed x]"
  have w: "write_sink rec e (svc_sink svc) = Some (Some k', ?lines)"
    using r assms(1) by (auto simp: write_sink_def split: option.splits)
  from Do_eq [OF assms(3,4) w, of observe] obtain line where D:
    "Do sig lookup rec observe now action pid actor svc =
      Some (svc\<lparr>svc_db := d, svc_sink := Some k', svc_obs := map_option (observe action (ent_Delivered e)) (svc_obs svc),
                svc_log := svc_log svc @ ?lines @ [line]\<rparr>,
            \<lparr>res_Action = action, res_PID = pid, res_Delivered = ent_Delivered e, res_At = now\<rparr>, err)" by blast
  have "rec e k = Some (None, k') \<or> (\<exists>x. rerr = Some x \<and> trail k' = trail k)"
    using r rec_error [OF assms(2)] by (cases rerr) auto
  with r(2) show ?thesis unfolding D by auto
qed

end

definition demo_signaler :: "unit signaler" where
  "demo_signaler = \<lparr>sg_Cancel = (\<lambda>pid d. (d, True, None)), sg_Terminate = (\<lambda>pid d. (d, False, Some ''denied''))\<rparr>"

end
