(* ===== verification/Go_Strings.thy ===== *)
theory Go_Strings
  imports Utf8
begin

text \<open>
  The functions of \<open>strings\<close>, \<open>strconv\<close> and \<open>net/textproto\<close> that several packages use,
  on strings of bytes: \<open>TrimSpace\<close>, \<open>Split\<close>, \<open>HasSuffix\<close>, \<open>CutPrefix\<close>,
  \<open>ReplaceAll\<close> of one character, \<open>Join\<close>, \<open>EqualFold\<close> with an ASCII pattern,
  \<open>Atoi\<close>, hexadecimal digits and the canonical form of a header name.
\<close>

section \<open>Prefixes and suffixes\<close>

abbreviation (input) HasSuffix :: "string \<Rightarrow> string \<Rightarrow> bool" where
  "HasSuffix s suf \<equiv> suffix suf s"

definition CutPrefix :: "string \<Rightarrow> string \<Rightarrow> string \<times> bool" where
  "CutPrefix s p = (if prefix p s then (drop (length p) s, True) else (s, False))"

section \<open>TrimSpace\<close>

text \<open>The runes of the Unicode property White\_Space, and their encodings.\<close>

definition space_runes :: "rune list" where
  "space_runes = [9, 10, 11, 12, 13, 32, 133, 160, 5760] @ [8192..<8203] @ [8232, 8233, 8239, 8287, 12288]"

definition space_encs :: "string list" where
  "space_encs = map enc_rune space_runes"

lemma enc_bytes_Nil [simp]: "enc_bytes r \<noteq> []"
  by (simp add: enc_bytes_def)

lemma space_encs_Nil: "[] \<notin> set space_encs"
  by (auto simp: space_encs_def enc_rune_def)

function trim_left :: "string \<Rightarrow> string" where
  "trim_left s =
     (case find (\<lambda>e. prefix e s) space_encs of
        None \<Rightarrow> s
      | Some e \<Rightarrow> trim_left (drop (length e) s))"
  by pat_completeness auto
termination
proof (relation "measure length")
  fix s e
  assume "find (\<lambda>e. prefix e s) space_encs = Some e"
  then have "e \<in> set space_encs" "prefix e s" by (auto simp: find_Some_iff)
  then have "e \<noteq> []" "prefix e s" using space_encs_Nil by blast+
  then show "(drop (length e) s, s) \<in> measure length" by (auto simp: prefix_def)
qed simp

function trim_right :: "string \<Rightarrow> string" where
  "trim_right s =
     (case find (\<lambda>e. suffix e s) space_encs of
        None \<Rightarrow> s
      | Some e \<Rightarrow> trim_right (take (length s - length e) s))"
  by pat_completeness auto
termination
proof (relation "measure length")
  fix s e
  assume "find (\<lambda>e. suffix e s) space_encs = Some e"
  then have "e \<in> set space_encs" "suffix e s" by (auto simp: find_Some_iff)
  then have "e \<noteq> []" "suffix e s" using space_encs_Nil by blast+
  then show "(take (length s - length e) s, s) \<in> measure length" by (auto simp: suffix_def)
qed simp

declare trim_left.simps [simp del] trim_right.simps [simp del]

definition TrimSpace :: "string \<Rightarrow> string" where
  "TrimSpace s = trim_right (trim_left s)"

lemma trim_left_free: "find (\<lambda>e. prefix e (trim_left s)) space_encs = None"
proof (induction s rule: trim_left.induct)
  case (1 s)
  then show ?case
    by (cases "find (\<lambda>e. prefix e s) space_encs") (simp_all add: trim_left.simps [of s])
qed

lemma trim_right_free: "find (\<lambda>e. suffix e (trim_right s)) space_encs = None"
proof (induction s rule: trim_right.induct)
  case (1 s)
  then show ?case
    by (cases "find (\<lambda>e. suffix e s) space_encs") (simp_all add: trim_right.simps [of s])
qed

lemma trim_right_prefix: "prefix (trim_right s) s"
proof (induction s rule: trim_right.induct)
  case (1 s)
  show ?case
  proof (cases "find (\<lambda>e. suffix e s) space_encs")
    case (Some e)
    then show ?thesis using 1 [OF Some] by (simp add: trim_right.simps [of s]) (metis prefix_order.trans take_is_prefix)
  qed (simp add: trim_right.simps [of s])
qed

lemma TrimSpace_trimmed:
  "e \<in> set space_encs \<Longrightarrow> \<not> prefix e (TrimSpace s) \<and> \<not> suffix e (TrimSpace s)"
  using trim_left_free [of s] trim_right_free [of "trim_left s"] trim_right_prefix [of "trim_left s"]
  unfolding TrimSpace_def find_None_iff by (meson prefix_order.trans)

lemma TrimSpace_idem [simp]: "TrimSpace (TrimSpace s) = TrimSpace s"
proof -
  have "find (\<lambda>e. prefix e (TrimSpace s)) space_encs = None" "find (\<lambda>e. suffix e (TrimSpace s)) space_encs = None"
    using TrimSpace_trimmed [of _ s] by (auto simp: find_None_iff)
  then show ?thesis
    unfolding TrimSpace_def [of "TrimSpace s"] by (simp add: trim_left.simps trim_right.simps)
qed

text \<open>A text whose first and last characters are visible ASCII characters has nothing to trim.\<close>

lemma enc_bytes_high: "128 \<le> r \<Longrightarrow> b \<in> set (enc_bytes r) \<Longrightarrow> 128 \<le> b"
  by (auto simp: enc_bytes_def split: if_splits)

lemma enc_bytes_bound: "b \<in> set (enc_bytes r) \<Longrightarrow> b < 256"
  by (auto simp: enc_bytes_def valid_rune_def split: if_splits)

lemma space_encs_bytes:
  assumes "e \<in> set space_encs" "c \<in> set e"
  shows "byte_val c < 33 \<or> 128 \<le> byte_val c"
proof -
  from assms obtain r where r: "r \<in> set space_runes" "e = enc_rune r" by (auto simp: space_encs_def)
  then obtain b where b: "b \<in> set (enc_bytes r)" "c = char_of b" using assms(2) by (auto simp: enc_rune_def)
  then have val: "byte_val c = b" using enc_bytes_bound by simp
  show ?thesis
  proof (cases "r < 128")
    case True
    with r(1) have "r < 33" by (auto simp: space_runes_def)
    with True b(1) val show ?thesis by (simp add: enc_bytes_def)
  qed (use enc_bytes_high [of r b] b(1) val in simp)
qed

definition visible :: "char \<Rightarrow> bool" where
  "visible c \<longleftrightarrow> 33 \<le> byte_val c \<and> byte_val c < 128"

lemma TrimSpace_visible:
  assumes "s \<noteq> []" "visible (hd s)" "visible (last s)"
  shows "TrimSpace s = s"
proof -
  have no: "\<not> prefix e s \<and> \<not> suffix e s" if "e \<in> set space_encs" for e
  proof -
    have ne: "e \<noteq> []" using that space_encs_Nil by blast
    then have "\<not> visible (hd e)" "\<not> visible (last e)"
      using space_encs_bytes [OF that, of "hd e"] space_encs_bytes [OF that, of "last e"] by (auto simp: visible_def)
    then show ?thesis using ne assms by (auto simp: prefix_def suffix_def)
  qed
  then have "find (\<lambda>e. prefix e s) space_encs = None" "find (\<lambda>e. suffix e s) space_encs = None"
    by (auto simp: find_None_iff)
  then show ?thesis by (simp add: TrimSpace_def trim_left.simps trim_right.simps)
qed

section \<open>Split and Join\<close>

text \<open>\<open>Split\<close> with an empty separator cuts after each UTF-8 sequence.\<close>

function explode :: "string \<Rightarrow> string list" where
  "explode s =
     (if s = [] then []
      else (let w = snd (dec_bytes (map byte_val s)) in take w s # explode (drop w s)))"
  by pat_completeness auto
termination
  by (relation "measure length") (auto simp: dec_bytes_pos)

function split_on :: "string \<Rightarrow> string \<Rightarrow> string list" where
  "split_on sep s =
     (if sep = [] then [s]
      else (case str_index s sep of
              None \<Rightarrow> [s]
            | Some i \<Rightarrow> take i s # split_on sep (drop (i + length sep) s)))"
  by pat_completeness auto
termination
proof (relation "measure (\<lambda>(sep, s). length s)")
  fix sep s i
  assume "sep \<noteq> []" "str_index s sep = Some i"
  then show "((sep, drop (i + length sep) s), sep, s) \<in> measure (\<lambda>(sep, s). length s)"
    using str_index_Some [of s sep i] by (cases sep) auto
qed simp

declare explode.simps [simp del] split_on.simps [simp del]

definition Split :: "string \<Rightarrow> string \<Rightarrow> string list" where
  "Split s sep = (if sep = [] then explode s else split_on sep s)"

fun Join :: "string list \<Rightarrow> string \<Rightarrow> string" where
  "Join [] sep = []"
| "Join [x] sep = x"
| "Join (x # y # zs) sep = x @ sep @ Join (y # zs) sep"

lemma Join_Cons: "xs \<noteq> [] \<Longrightarrow> Join (x # xs) sep = x @ sep @ Join xs sep"
  by (cases xs) simp_all

lemma split_on_Nil [simp]: "split_on sep s \<noteq> []"
  by (subst split_on.simps) (auto split: option.splits)

lemma Join_split_on: "Join (split_on sep s) sep = s"
proof (induction sep s rule: split_on.induct)
  case (1 sep s)
  show ?case
  proof (cases "sep = [] \<or> str_index s sep = None")
    case True
    then show ?thesis by (subst split_on.simps) auto
  next
    case False
    then obtain i where i: "str_index s sep = Some i" and sep: "sep \<noteq> []" by auto
    have "take i s @ sep @ drop (i + length sep) s = s"
      using str_index_Some [OF i] by (metis add.commute append_take_drop_id drop_drop)
    with 1 [OF sep i] i sep show ?thesis by (subst split_on.simps) (simp add: Join_Cons)
  qed
qed

section \<open>Characters and numbers\<close>

definition ReplaceAll_char :: "string \<Rightarrow> char \<Rightarrow> string \<Rightarrow> string" where
  "ReplaceAll_char s c new = concat (map (\<lambda>x. if x = c then new else [x]) s)"

definition ascii_lower :: "char \<Rightarrow> char" where
  "ascii_lower c = (if 65 \<le> byte_val c \<and> byte_val c \<le> 90 then char_of (byte_val c + 32) else c)"

definition ascii_upper :: "char \<Rightarrow> char" where
  "ascii_upper c = (if 97 \<le> byte_val c \<and> byte_val c \<le> 122 then char_of (byte_val c - 32) else c)"

text \<open>\<open>EqualFold(v, pat)\<close> for a pattern of ASCII letters that fold to ASCII letters only
  (all but k and s do).\<close>

definition EqualFold_ascii :: "string \<Rightarrow> string \<Rightarrow> bool" where
  "EqualFold_ascii v pat \<longleftrightarrow> map ascii_lower v = map ascii_lower pat"

definition digit_of :: "char \<Rightarrow> int option" where
  "digit_of c = (if 48 \<le> byte_val c \<and> byte_val c \<le> 57 then Some (int (byte_val c) - 48) else None)"

primrec digits_val :: "int \<Rightarrow> string \<Rightarrow> int option" where
  "digits_val acc [] = Some acc"
| "digits_val acc (c # cs) = do { d \<leftarrow> digit_of c; digits_val (10 * acc + d) cs }"

text \<open>\<open>Atoi\<close>: an optional sign and at least one decimal digit, a value that fits in 64 bits.\<close>

definition Atoi :: "string \<Rightarrow> int option" where
  "Atoi s =
     (let neg = (s \<noteq> [] \<and> hd s = CHR ''-'');
          ds = (if s \<noteq> [] \<and> (hd s = CHR ''-'' \<or> hd s = CHR ''+'') then tl s else s)
      in if ds = [] then None
         else do {
           n \<leftarrow> digits_val 0 ds;
           let v = (if neg then - n else n);
           if in_int64 v then Some v else None
         })"

lemma Atoi_range: "Atoi s = Some v \<Longrightarrow> in_int64 v"
  by (auto simp: Atoi_def Let_def split: option.splits if_splits bind_splits)

section \<open>Hexadecimal digits\<close>

definition hex_digit :: "nat \<Rightarrow> char" where
  "hex_digit n = (if n < 10 then char_of (48 + n) else char_of (87 + n))"

lemma hex_digit_val: "n < 16 \<Longrightarrow> byte_val (hex_digit n) = (if n < 10 then 48 + n else 87 + n)"
  by (simp add: hex_digit_def)

section \<open>Header names\<close>

definition token_char :: "char \<Rightarrow> bool" where
  "token_char c \<longleftrightarrow>
     (let b = byte_val c
      in (48 \<le> b \<and> b \<le> 57) \<or> (65 \<le> b \<and> b \<le> 90) \<or> (97 \<le> b \<and> b \<le> 122) \<or>
         b \<in> {33, 35, 36, 37, 38, 39, 42, 43, 45, 46, 94, 95, 96, 124, 126})"

primrec canon_from :: "bool \<Rightarrow> string \<Rightarrow> string" where
  "canon_from upper [] = []"
| "canon_from upper (c # cs) =
     (if upper then ascii_upper c else ascii_lower c) # canon_from (c = CHR ''-'') cs"

text \<open>A name with a byte that no token may have stays as it is.\<close>

definition CanonicalHeaderKey :: "string \<Rightarrow> string" where
  "CanonicalHeaderKey k = (if list_all token_char k then canon_from True k else k)"

end
