(* ===== verification/Pg.thy ===== *)
theory Pg
  imports Redact Signal Go_Strings "HOL-Library.Word"
begin

text \<open>
  Package \<open>internal/pg\<close>: the client of the target cluster. The connection pool is an
  argument: what a query returns is an error, or the rows, each scanned or with its scan error,
  and the error the iteration ends with. \<open>Views\<close> gives the meaning of the SQL statements.
\<close>

section \<open>The pool\<close>

datatype session_query = snapshotSQL | snapshotSQLNoWaitstart

text \<open>A pointer the scan leaves nil is \<open>None\<close>; the address is the text of its IP.\<close>

record session_row =
  rw_PID :: int
  rw_usename :: "string option"
  rw_appName :: "string option"
  rw_clientAddr :: "string option"
  rw_state :: "string option"
  rw_wet :: "string option"
  rw_we :: "string option"
  rw_backend :: "string option"
  rw_xactStart :: "time option"
  rw_queryStart :: "time option"
  rw_waitStart :: "time option"
  rw_query :: "string option"
  rw_blockedBy :: "32 word list"

record label_row =
  lr_waiter :: int
  lr_blocker :: int
  lr_lockType :: string
  lr_wMode :: string
  lr_bMode :: string
  lr_relation :: "string option"

record lock_row =
  lk_LockType :: string
  lk_Object :: string
  lk_Mode :: string
  lk_Granted :: bool
  lk_PID :: int

record hot_object =
  ho_Object :: string
  ho_Waiters :: int
  ho_Holders :: int

type_synonym 'r rows = "string + ((string + 'r) list \<times> string option)"

record pg_pool =
  pool_version :: "string + string"
  pool_sessions :: "session_query \<Rightarrow> session_row rows"
  pool_labels :: "label_row rows"
  pool_locks :: "lock_row rows"
  pool_hot :: "hot_object rows"
  pool_caps :: "string + (string \<times> bool \<times> bool \<times> bool)"

record client =
  cl_statementTimeout :: duration
  cl_versionNum :: int

section \<open>Connecting\<close>

datatype connect_error = ParseDSN string | ConnectPool string | DetectVersion string | ParseVersion string

definition detectVersion :: "pg_pool \<Rightarrow> client \<Rightarrow> connect_error + client" where
  "detectVersion pool c =
     (case pool_version pool of
        Inl err \<Rightarrow> Inl (DetectVersion err)
      | Inr s \<Rightarrow> (case Atoi s of None \<Rightarrow> Inl (ParseVersion s) | Some n \<Rightarrow> Inr (c\<lparr>cl_versionNum := n\<rparr>)))"

definition Connect :: "(string \<Rightarrow> string option) \<Rightarrow> string + pg_pool \<Rightarrow> string \<Rightarrow> duration \<Rightarrow> connect_error + client" where
  "Connect parse_err pool dsn timeout =
     (case parse_err dsn of
        Some err \<Rightarrow> Inl (ParseDSN err)
      | None \<Rightarrow>
          (case pool of
             Inl err \<Rightarrow> Inl (ConnectPool err)
           | Inr p \<Rightarrow> detectVersion p \<lparr>cl_statementTimeout = timeout, cl_versionNum = 0\<rparr>))"

definition hasWaitstart :: "client \<Rightarrow> bool" where
  "hasWaitstart c \<longleftrightarrow> cl_versionNum c \<ge> 140000"

section \<open>Rows\<close>

definition deref :: "string option \<Rightarrow> string" where
  "deref s = (case s of None \<Rightarrow> '''' | Some v \<Rightarrow> v)"

definition derefTime :: "time option \<Rightarrow> time" where
  "derefTime t = (case t of None \<Rightarrow> zero_time | Some v \<Rightarrow> v)"

text \<open>\<open>toIntSlice\<close> widens each element, keeping its sign; an empty slice becomes nil.\<close>

definition toIntSlice :: "32 word list \<Rightarrow> int list" where
  "toIntSlice xs = (if length xs = 0 then [] else map sint xs)"

definition session_of_row :: "session_row \<Rightarrow> session" where
  "session_of_row r =
     \<lparr>sess_PID = rw_PID r, sess_User = deref (rw_usename r), sess_AppName = deref (rw_appName r),
      sess_ClientAddr = deref (rw_clientAddr r), sess_State = deref (rw_state r),
      sess_WaitEventType = deref (rw_wet r), sess_WaitEvent = deref (rw_we r), sess_BackendType = deref (rw_backend r),
      sess_XactStart = derefTime (rw_xactStart r), sess_QueryStart = derefTime (rw_queryStart r),
      sess_WaitStart = derefTime (rw_waitStart r), sess_Query = deref (rw_query r),
      sess_BlockedBy = toIntSlice (rw_blockedBy r), sess_IsRoot = False\<rparr>"

definition label_of_row :: "label_row \<Rightarrow> lock_label" where
  "label_of_row r = \<lparr>lbl_LockType = lr_lockType r, lbl_Relation = deref (lr_relation r),
     lbl_WaiterMode = lr_wMode r, lbl_BlockerMode = lr_bMode r\<rparr>"

text \<open>The \<open>rows.Next\<close> loops: the first scan error ends them.\<close>

primrec scan_session_rows :: "(string + session_row) list \<Rightarrow> sessions \<Rightarrow> string + sessions" where
  "scan_session_rows [] m = Inr m"
| "scan_session_rows (r # rs) m =
     (case r of
        Inl err \<Rightarrow> Inl err
      | Inr row \<Rightarrow> scan_session_rows rs (fmupd (rw_PID row) (session_of_row row) m))"

primrec scan_label_rows :: "(string + label_row) list \<Rightarrow> labels \<Rightarrow> string + labels" where
  "scan_label_rows [] m = Inr m"
| "scan_label_rows (r # rs) m =
     (case r of
        Inl err \<Rightarrow> Inl err
      | Inr row \<Rightarrow> scan_label_rows rs (fmupd (EdgeKey (lr_waiter row) (lr_blocker row)) (label_of_row row) m))"

primrec scan_list :: "(string + 'r) list \<Rightarrow> 'r list \<Rightarrow> string + 'r list" where
  "scan_list [] out = Inr out"
| "scan_list (r # rs) out = (case r of Inl err \<Rightarrow> Inl err | Inr row \<Rightarrow> scan_list rs (out @ [row]))"

text \<open>A query, its loop, and \<open>rows.Err()\<close> at the end.\<close>

definition run_query :: "'r rows \<Rightarrow> ((string + 'r) list \<Rightarrow> string + 'm) \<Rightarrow> string + 'm" where
  "run_query q scan =
     (case q of
        Inl err \<Rightarrow> Inl err
      | Inr (rows, end_err) \<Rightarrow>
          (case scan rows of
             Inl err \<Rightarrow> Inl err
           | Inr m \<Rightarrow> (case end_err of Some err \<Rightarrow> Inl err | None \<Rightarrow> Inr m)))"

definition querySessions :: "pg_pool \<Rightarrow> client \<Rightarrow> string + sessions" where
  "querySessions pool c =
     run_query (pool_sessions pool (if \<not> hasWaitstart c then snapshotSQLNoWaitstart else snapshotSQL))
       (\<lambda>rows. scan_session_rows rows fmempty)"

definition queryEdgeLabels :: "pg_pool \<Rightarrow> client \<Rightarrow> string + labels" where
  "queryEdgeLabels pool c = run_query (pool_labels pool) (\<lambda>rows. scan_label_rows rows fmempty)"

definition Client_Snapshot :: "pg_pool \<Rightarrow> client \<Rightarrow> polled" where
  "Client_Snapshot pool c =
     (case querySessions pool c of
        Inl err \<Rightarrow> Inl (''query sessions: '' @ err)
      | Inr sessions \<Rightarrow>
          (case queryEdgeLabels pool c of
             Inl err \<Rightarrow> Inl (''query edge labels: '' @ err)
           | Inr labels \<Rightarrow> Inr (sessions, labels)))"

section \<open>On-demand views, privileges, signals\<close>

definition Locks :: "pg_pool \<Rightarrow> string + lock_row list" where
  "Locks pool =
     (case pool_locks pool of
        Inl err \<Rightarrow> Inl (''query locks: '' @ err)
      | Inr q \<Rightarrow> run_query (Inr q) (\<lambda>rows. scan_list rows []))"

definition HotObjects :: "pg_pool \<Rightarrow> string + hot_object list" where
  "HotObjects pool =
     (case pool_hot pool of
        Inl err \<Rightarrow> Inl (''query hot objects: '' @ err)
      | Inr q \<Rightarrow> run_query (Inr q) (\<lambda>rows. scan_list rows []))"

record capabilities =
  cap_Role :: string
  cap_IsSuperuser :: bool
  cap_CanReadStats :: bool
  cap_CanSignal :: bool

definition Capabilities :: "pg_pool \<Rightarrow> string + capabilities" where
  "Capabilities pool =
     (case pool_caps pool of
        Inl err \<Rightarrow> Inl (''inspect role capabilities: '' @ err)
      | Inr (role, super, hasStats, hasSig) \<Rightarrow>
          Inr \<lparr>cap_Role = role, cap_IsSuperuser = super, cap_CanReadStats = super \<or> hasStats,
               cap_CanSignal = super \<or> hasSig\<rparr>)"

text \<open>\<open>fmt\<close>'s \<open>%d\<close>.\<close>

function dec_digits :: "nat \<Rightarrow> string" where
  "dec_digits n = (if n < 10 then [char_of (48 + n)] else dec_digits (n div 10) @ [char_of (48 + n mod 10)])"
  by pat_completeness auto
termination
  by (relation "measure id") auto

declare dec_digits.simps [simp del]

definition format_int :: "int \<Rightarrow> string" where
  "format_int i = (if i < 0 then ''-'' @ dec_digits (nat (- i)) else dec_digits (nat i))"

text \<open>\<open>signal\<close>: \<open>call\<close> runs the named function on the server.\<close>

definition client_signal :: "(string \<Rightarrow> int \<Rightarrow> 'd \<Rightarrow> 'd \<times> (string + bool)) \<Rightarrow> string \<Rightarrow> int \<Rightarrow> 'd \<Rightarrow> 'd \<times> bool \<times> string option" where
  "client_signal call fn pid d =
     (case call (''SELECT '' @ fn @ ''($1)'') pid d of
        (d', Inl err) \<Rightarrow> (d', False, Some (fn @ ''('' @ format_int pid @ ''): '' @ err))
      | (d', Inr ok) \<Rightarrow> (d', ok, None))"

definition client_signaler :: "(string \<Rightarrow> int \<Rightarrow> 'd \<Rightarrow> 'd \<times> (string + bool)) \<Rightarrow> 'd signaler" where
  "client_signaler call =
     \<lparr>sg_Cancel = client_signal call ''pg_cancel_backend'', sg_Terminate = client_signal call ''pg_terminate_backend''\<rparr>"

section \<open>What a snapshot contains\<close>

text \<open>The last row with a given key is the one that stays in the map.\<close>

definition last_row :: "('r \<Rightarrow> 'k) \<Rightarrow> ('r \<Rightarrow> 'v) \<Rightarrow> 'r list \<Rightarrow> 'k \<Rightarrow> 'v option" where
  "last_row key val rows k =
     (let own = filter (\<lambda>r. key r = k) rows in if own = [] then None else Some (val (last own)))"

lemma scan_session_rows_ok:
  "scan_session_rows rs m = Inr m' \<Longrightarrow>
   \<exists>rows. rs = map Inr rows \<and>
     (\<forall>pid. fmlookup m' pid = (case last_row rw_PID session_of_row rows pid of None \<Rightarrow> fmlookup m pid | v \<Rightarrow> v))"
proof (induction rs arbitrary: m)
  case (Cons r rs)
  then obtain row where r: "r = Inr row" "scan_session_rows rs (fmupd (rw_PID row) (session_of_row row) m) = Inr m'"
    by (auto split: sum.splits)
  from Cons.IH [OF r(2)] obtain rows where "rs = map Inr rows"
    "\<forall>pid. fmlookup m' pid = (case last_row rw_PID session_of_row rows pid of
       None \<Rightarrow> fmlookup (fmupd (rw_PID row) (session_of_row row) m) pid | v \<Rightarrow> v)" by blast
  then show ?case using r(1) by (intro exI [of _ "row # rows"]) (auto simp: last_row_def Let_def)
qed (auto simp: last_row_def)

lemma scan_label_rows_ok:
  "scan_label_rows rs m = Inr m' \<Longrightarrow>
   \<exists>rows. rs = map Inr rows \<and>
     (\<forall>k. fmlookup m' k =
        (case last_row (\<lambda>r. EdgeKey (lr_waiter r) (lr_blocker r)) label_of_row rows k of None \<Rightarrow> fmlookup m k | v \<Rightarrow> v))"
proof (induction rs arbitrary: m)
  case (Cons r rs)
  then obtain row where r: "r = Inr row"
    "scan_label_rows rs (fmupd (EdgeKey (lr_waiter row) (lr_blocker row)) (label_of_row row) m) = Inr m'"
    by (auto split: sum.splits)
  from Cons.IH [OF r(2)] obtain rows where "rs = map Inr rows"
    "\<forall>k. fmlookup m' k = (case last_row (\<lambda>r. EdgeKey (lr_waiter r) (lr_blocker r)) label_of_row rows k of
       None \<Rightarrow> fmlookup (fmupd (EdgeKey (lr_waiter row) (lr_blocker row)) (label_of_row row) m) k | v \<Rightarrow> v)" by blast
  then show ?case using r(1) by (intro exI [of _ "row # rows"]) (auto simp: last_row_def Let_def)
qed (auto simp: last_row_def)

lemma case_option_empty [simp]: "(case v of None \<Rightarrow> fmlookup fmempty k | Some x \<Rightarrow> Some x) = v"
  by (cases v) simp_all

lemma run_query_Inr:
  "run_query q scan = Inr m \<longleftrightarrow> (\<exists>rows. q = Inr (rows, None) \<and> scan rows = Inr m)"
  by (auto simp: run_query_def split: sum.splits option.splits)

text \<open>A snapshot of the cluster that is returned without an error comes from complete
  results of both queries (no scan error, no error at the end): the sessions are the last row
  of each process with nulls read as zero values and the wait-start column used exactly from
  server version 14 on, the labels the last row of each waiter and blocker; in particular every
  session is filed under its own process id.\<close>

lemma Client_Snapshot_rows:
  assumes "Client_Snapshot pool c = Inr (ss, ls)"
  shows "\<exists>srows lrows.
    pool_sessions pool (if cl_versionNum c \<ge> 140000 then snapshotSQL else snapshotSQLNoWaitstart) = Inr (map Inr srows, None) \<and>
    pool_labels pool = Inr (map Inr lrows, None) \<and>
    (\<forall>pid. fmlookup ss pid = last_row rw_PID session_of_row srows pid) \<and>
    (\<forall>k. fmlookup ls k = last_row (\<lambda>r. EdgeKey (lr_waiter r) (lr_blocker r)) label_of_row lrows k) \<and>
    (\<forall>pid s. fmlookup ss pid = Some s \<longrightarrow> sess_PID s = pid)"
proof -
  from assms have s: "querySessions pool c = Inr ss" and l: "queryEdgeLabels pool c = Inr ls"
    by (auto simp: Client_Snapshot_def split: sum.splits)
  from s obtain rs where rs: "pool_sessions pool (if cl_versionNum c \<ge> 140000 then snapshotSQL else snapshotSQLNoWaitstart) = Inr (rs, None)"
    "scan_session_rows rs fmempty = Inr ss"
    by (auto simp: querySessions_def hasWaitstart_def run_query_Inr split: if_splits)
  from l obtain ks where ks: "pool_labels pool = Inr (ks, None)" "scan_label_rows ks fmempty = Inr ls"
    by (auto simp: queryEdgeLabels_def run_query_Inr)
  from scan_session_rows_ok [OF rs(2)] obtain srows where sr: "rs = map Inr srows"
    "\<forall>pid. fmlookup ss pid = last_row rw_PID session_of_row srows pid" unfolding case_option_empty by blast
  from scan_label_rows_ok [OF ks(2)] obtain lrows where lr: "ks = map Inr lrows"
    "\<forall>k. fmlookup ls k = last_row (\<lambda>r. EdgeKey (lr_waiter r) (lr_blocker r)) label_of_row lrows k" unfolding case_option_empty by blast
  have "sess_PID s = pid" if "fmlookup ss pid = Some s" for pid s
  proof -
    let ?own = "filter (\<lambda>r. rw_PID r = pid) srows"
    from that sr(2) have "?own \<noteq> []" "s = session_of_row (last ?own)" by (auto simp: last_row_def Let_def split: if_splits)
    moreover from this(1) have "rw_PID (last ?own) = pid" using last_in_set [of ?own] by auto
    ultimately show ?thesis by (simp add: session_of_row_def)
  qed
  with rs(1) ks(1) sr lr show ?thesis by blast
qed

definition demo_row :: "int \<Rightarrow> 32 word list \<Rightarrow> session_row" where
  "demo_row pid bs = \<lparr>rw_PID = pid, rw_usename = None, rw_appName = Some ''app'', rw_clientAddr = None, rw_state = None,
     rw_wet = None, rw_we = None, rw_backend = None, rw_xactStart = None, rw_queryStart = Some 5, rw_waitStart = None,
     rw_query = Some ''q'', rw_blockedBy = bs\<rparr>"

definition demo_pool :: pg_pool where
  "demo_pool = \<lparr>pool_version = Inr ''160004'', pool_sessions = (\<lambda>q. Inr ([Inr (demo_row 1 [2]), Inr (demo_row 2 [])], None)),
     pool_labels = Inr ([], None), pool_locks = Inr ([], None), pool_hot = Inr ([], None), pool_caps = Inl ''none''\<rparr>"

lemma Client_Snapshot_rows_demo:
  "\<exists>ss. Client_Snapshot demo_pool \<lparr>cl_statementTimeout = 1, cl_versionNum = 160004\<rparr> = Inr (ss, fmempty) \<and>
     (\<forall>pid s. fmlookup ss pid = Some s \<longrightarrow> sess_PID s = pid)"
proof -
  obtain ss where ss: "Client_Snapshot demo_pool \<lparr>cl_statementTimeout = 1, cl_versionNum = 160004\<rparr> = Inr (ss, fmempty)"
    by (simp add: Client_Snapshot_def querySessions_def queryEdgeLabels_def run_query_def demo_pool_def hasWaitstart_def)
  from Client_Snapshot_rows [OF this] show ?thesis using ss by blast
qed

end
