(* ===== verification/Metrics.thy ===== *)
theory Metrics
  imports Poller
begin

text \<open>
  Package \<open>internal/metrics\<close>: the instruments of the program and the gauges sampled at scrape
  time. A vector maps its label values to a sample; a missing entry has never been touched.
  \<open>Gather\<close> is what the registry hands to the page. The text format of the page, the buckets of
  the histogram and the collectors of the Go runtime belong to the Prometheus library.
\<close>

section \<open>Instruments\<close>

type_synonym counter_vec = "(string list, nat) fmap"

definition counter_value :: "counter_vec \<Rightarrow> string list \<Rightarrow> nat" where
  "counter_value v l = (case fmlookup v l of None \<Rightarrow> 0 | Some n \<Rightarrow> n)"

definition Inc :: "string list \<Rightarrow> counter_vec \<Rightarrow> counter_vec" where
  "Inc l v = fmupd l (counter_value v l + 1) v"

lemma counter_value_Inc [simp]: "counter_value (Inc l v) k = counter_value v k + (if k = l then 1 else 0)"
  by (simp add: counter_value_def Inc_def)

lemma counter_value_empty [simp]: "counter_value fmempty k = 0"
  by (simp add: counter_value_def)

text \<open>A histogram keeps the durations it observed.\<close>

type_synonym histogram_vec = "(string list, duration list) fmap"

definition observed :: "histogram_vec \<Rightarrow> string list \<Rightarrow> duration list" where
  "observed v l = (case fmlookup v l of None \<Rightarrow> [] | Some ds \<Rightarrow> ds)"

definition Observe :: "string list \<Rightarrow> duration \<Rightarrow> histogram_vec \<Rightarrow> histogram_vec" where
  "Observe l d v = fmupd l (observed v l @ [d]) v"

lemma observed_Observe [simp]: "observed (Observe l d v) k = observed v k @ (if k = l then [d] else [])"
  by (simp add: observed_def Observe_def)

lemma observed_empty [simp]: "observed fmempty k = []"
  by (simp add: observed_def)

record metrics =
  met_pollsTotal :: counter_vec
  met_pollErrors :: counter_vec
  met_pollDuration :: histogram_vec
  met_actions :: counter_vec
  met_version :: string

definition New_metrics :: "string \<Rightarrow> metrics" where
  "New_metrics version = \<lparr>met_pollsTotal = fmempty, met_pollErrors = fmempty, met_pollDuration = fmempty,
     met_actions = fmempty, met_version = version\<rparr>"

definition ObservePoll :: "string \<Rightarrow> duration \<Rightarrow> string option \<Rightarrow> metrics \<Rightarrow> metrics" where
  "ObservePoll cluster d err m =
     (let m = m\<lparr>met_pollsTotal := Inc [cluster] (met_pollsTotal m)\<rparr>;
          m = (if err \<noteq> None then m\<lparr>met_pollErrors := Inc [cluster] (met_pollErrors m)\<rparr> else m)
      in m\<lparr>met_pollDuration := Observe [cluster] d (met_pollDuration m)\<rparr>)"

definition boolLabel :: "bool \<Rightarrow> string" where
  "boolLabel b = (if b then ''true'' else ''false'')"

definition ObserveAction :: "string \<Rightarrow> bool \<Rightarrow> metrics \<Rightarrow> metrics" where
  "ObserveAction action delivered m = m\<lparr>met_actions := Inc [action, boolLabel delivered] (met_actions m)\<rparr>"

section \<open>Gauges\<close>

record desc =
  de_name :: string
  de_help :: string
  de_labels :: "string list"

definition descConnected :: desc where
  "descConnected = \<lparr>de_name = ''pglockr_connected'', de_help = ''1 if the poller is connected to the target.'', de_labels = [''cluster'']\<rparr>"

definition descSessions :: desc where
  "descSessions = \<lparr>de_name = ''pglockr_sessions'', de_help = ''Client backends in the latest snapshot.'', de_labels = [''cluster'']\<rparr>"

definition descRoots :: desc where
  "descRoots = \<lparr>de_name = ''pglockr_root_blockers'', de_help = ''Head blockers in the latest snapshot.'', de_labels = [''cluster'']\<rparr>"

definition descEdges :: desc where
  "descEdges = \<lparr>de_name = ''pglockr_blocked_edges'', de_help = ''Blocking edges in the latest snapshot.'', de_labels = [''cluster'']\<rparr>"

definition Describe :: "desc list" where
  "Describe = [descConnected, descSessions, descRoots, descEdges]"

definition b2f :: "bool \<Rightarrow> int" where
  "b2f b = (if b then 1 else 0)"

text \<open>\<open>Collect\<close> on the status and the latest snapshot: descriptor, value, label values.\<close>

definition Collect_live :: "string \<times> bool \<Rightarrow> snapshot \<times> bool \<Rightarrow> (desc \<times> int \<times> string list) list" where
  "Collect_live status latest =
     (case status of (cluster, connected) \<Rightarrow>
        [(descConnected, b2f connected, [cluster])] @
        (case latest of (snap, ok) \<Rightarrow>
           if ok then [(descSessions, map_len (snap_Sessions snap), [cluster]),
                       (descRoots, int (length (snap_Roots snap)), [cluster]),
                       (descEdges, int (length (snap_Edges snap)), [cluster])]
           else []))"

section \<open>The page\<close>

datatype sample = Count nat | Value int | Durations "duration list"

type_synonym family = "desc \<times> (string list, sample) fmap"

definition live_family :: "(desc \<times> int \<times> string list) list \<Rightarrow> desc \<Rightarrow> family" where
  "live_family gs d = (d, fmap_of_list [(l, Value v). (d', v, l) \<leftarrow> gs, d' = d])"

text \<open>The families in the order \<open>New\<close> registers their collectors.\<close>

definition Gather :: "metrics \<Rightarrow> (desc \<times> int \<times> string list) list \<Rightarrow> family list" where
  "Gather m gs =
     [(\<lparr>de_name = ''pglockr_polls_total'', de_help = ''Total target-cluster polls.'', de_labels = [''cluster'']\<rparr>,
       fmmap Count (met_pollsTotal m)),
      (\<lparr>de_name = ''pglockr_poll_errors_total'', de_help = ''Total failed target-cluster polls.'', de_labels = [''cluster'']\<rparr>,
       fmmap Count (met_pollErrors m)),
      (\<lparr>de_name = ''pglockr_poll_duration_seconds'', de_help = ''Duration of a target-cluster poll.'', de_labels = [''cluster'']\<rparr>,
       fmmap Durations (met_pollDuration m)),
      (\<lparr>de_name = ''pglockr_actions_total'', de_help = ''cancel/terminate actions taken.'', de_labels = [''action'', ''delivered'']\<rparr>,
       fmmap Count (met_actions m)),
      (\<lparr>de_name = ''pglockr_build_info'', de_help = ''Build information; constant 1.'', de_labels = [''version'']\<rparr>,
       fmap_of_list [([met_version m], Value 1)])] @
     map (live_family gs) Describe"

text \<open>The registry rejects a page with a gauge that is not described, two families of one name, or
  a sample whose label values do not fit the labels: none of these can happen.\<close>

lemma Collect_described: "set (map fst (Collect_live status latest)) \<subseteq> set Describe"
  by (auto simp: Collect_live_def Describe_def split: prod.splits)

lemma Gather_names: "distinct (map (de_name \<circ> fst) (Gather m gs))"
  by (simp add: Gather_def Describe_def live_family_def descConnected_def descSessions_def descRoots_def descEdges_def)

section \<open>Counting\<close>

definition observe_all :: "observation list \<Rightarrow> metrics \<Rightarrow> metrics" where
  "observe_all obs m = fold (\<lambda>(c, d, e). ObservePoll c d e) obs m"

lemma observe_all_counts:
  "counter_value (met_pollsTotal (observe_all obs m)) [c] =
     counter_value (met_pollsTotal m) [c] + length (filter (\<lambda>o'. fst o' = c) obs) \<and>
   counter_value (met_pollErrors (observe_all obs m)) [c] =
     counter_value (met_pollErrors m) [c] + length (filter (\<lambda>o'. fst o' = c \<and> snd (snd o') \<noteq> None) obs) \<and>
   observed (met_pollDuration (observe_all obs m)) [c] =
     observed (met_pollDuration m) [c] @ map (fst \<circ> snd) (filter (\<lambda>o'. fst o' = c) obs) \<and>
   met_actions (observe_all obs m) = met_actions m \<and> met_version (observe_all obs m) = met_version m"
proof (induction obs arbitrary: m)
  case Nil
  then show ?case by (simp add: observe_all_def)
next
  case (Cons ob obs)
  obtain k d e where ob: "ob = (k, d, e)" by (cases ob)
  have "observe_all (ob # obs) m = observe_all obs (ObservePoll k d e m)" by (simp add: observe_all_def ob)
  with Cons.IH [of "ObservePoll k d e m"] show ?case by (auto simp: ob ObservePoll_def Let_def)
qed

text \<open>Reading the page: the sample of a family by its name and its label values.\<close>

definition page_sample :: "family list \<Rightarrow> string \<Rightarrow> string list \<Rightarrow> sample option" where
  "page_sample fams name l = (case find (\<lambda>f. de_name (fst f) = name) fams of None \<Rightarrow> None | Some f \<Rightarrow> fmlookup (snd f) l)"

definition page_count :: "family list \<Rightarrow> string \<Rightarrow> string list \<Rightarrow> nat" where
  "page_count fams name l = (case page_sample fams name l of Some (Count n) \<Rightarrow> n | _ \<Rightarrow> 0)"

lemma page_counters:
  "page_count (Gather m gs) ''pglockr_polls_total'' l = counter_value (met_pollsTotal m) l"
  "page_count (Gather m gs) ''pglockr_poll_errors_total'' l = counter_value (met_pollErrors m) l"
  "page_count (Gather m gs) ''pglockr_actions_total'' l = counter_value (met_actions m) l"
  "page_sample (Gather m gs) ''pglockr_poll_duration_seconds'' l = map_option Durations (fmlookup (met_pollDuration m) l)"
  by (simp_all add: page_count_def page_sample_def Gather_def counter_value_def split: option.splits)

lemma page_gauges:
  assumes "gs = Collect_live (cluster, connected) (snap, ok)"
  shows "page_sample (Gather m gs) ''pglockr_connected'' [cluster] = Some (Value (b2f connected))"
    "page_sample (Gather m gs) ''pglockr_sessions'' [cluster] = (if ok then Some (Value (map_len (snap_Sessions snap))) else None)"
    "page_sample (Gather m gs) ''pglockr_root_blockers'' [cluster] = (if ok then Some (Value (int (length (snap_Roots snap)))) else None)"
    "page_sample (Gather m gs) ''pglockr_blocked_edges'' [cluster] = (if ok then Some (Value (int (length (snap_Edges snap)))) else None)"
  by (simp_all add: assms page_sample_def Gather_def Describe_def live_family_def Collect_live_def
      descConnected_def descSessions_def descRoots_def descEdges_def)

lemma page_build_info: "page_sample (Gather m gs) ''pglockr_build_info'' [met_version m] = Some (Value 1)"
  by (simp add: page_sample_def Gather_def)

end
