(* ===== verification/Auth.thy ===== *)
theory Auth
  imports Go_Strings
begin

text \<open>
  Package \<open>internal/auth\<close>: roles, principals, the two identity sources (bearer tokens and a
  trusted proxy) and the middleware. A request carries its headers by canonical name, its
  cookies as \<open>net/http\<close> parsed them, and, in \<open>req_Principal\<close>, the principal that
  \<open>Authenticate\<close> stores in the context. A handler maps a request and the state of the
  program to the new state and the response; \<open>None\<close> is a panic. The digest of SHA-256 is a
  parameter.
\<close>

section \<open>Requests, responses, handlers\<close>

type_synonym role = string

record principal =
  pr_Name :: string
  pr_Role :: role

record request =
  req_Method :: string
  req_Path :: string
  req_Host :: string
  req_Header :: "(string, string list) fmap"
  req_Cookies :: "(string \<times> string) list"
  req_Query :: "(string, string list) fmap"
  req_Principal :: "principal option"

datatype 'j body = Text string | JSON 'j

record 'j response =
  resp_Status :: int
  resp_Header :: "(string \<times> string) list"
  resp_Body :: "'j body"

type_synonym ('s, 'j) handler = "request \<Rightarrow> 's \<Rightarrow> ('s \<times> 'j response) option"

definition first_value :: "(string, string list) fmap \<Rightarrow> string \<Rightarrow> string" where
  "first_value m k = (case fmlookup m k of Some (v # vs) \<Rightarrow> v | _ \<Rightarrow> '''')"

text \<open>\<open>r.Header.Get(k)\<close> and \<open>r.URL.Query().Get(k)\<close>.\<close>

definition Header_Get :: "request \<Rightarrow> string \<Rightarrow> string" where
  "Header_Get r k = first_value (req_Header r) (CanonicalHeaderKey k)"

definition Query_Get :: "request \<Rightarrow> string \<Rightarrow> string" where
  "Query_Get r k = first_value (req_Query r) k"

text \<open>\<open>http.Error\<close> and the setting of a header.\<close>

definition text_headers :: "(string \<times> string) list" where
  "text_headers = [(''Content-Type'', ''text/plain; charset=utf-8''), (''X-Content-Type-Options'', ''nosniff'')]"

definition http_Error :: "string \<Rightarrow> int \<Rightarrow> 'j response" where
  "http_Error msg code = \<lparr>resp_Status = code, resp_Header = text_headers, resp_Body = Text (msg @ [CHR 0x0A])\<rparr>"

definition with_header :: "string \<Rightarrow> string \<Rightarrow> 'j response \<Rightarrow> 'j response" where
  "with_header k v resp = resp\<lparr>resp_Header := (k, v) # resp_Header resp\<rparr>"

section \<open>Roles\<close>

definition RoleViewer :: role where "RoleViewer = ''viewer''"
definition RoleOperator :: role where "RoleOperator = ''operator''"
definition RoleAdmin :: role where "RoleAdmin = ''admin''"

definition rank :: "role \<Rightarrow> int" where
  "rank r = (if r = RoleViewer then 1 else if r = RoleOperator then 2 else if r = RoleAdmin then 3 else 0)"

definition AtLeast :: "role \<Rightarrow> role \<Rightarrow> bool" where
  "AtLeast r minr \<longleftrightarrow> rank r > 0 \<and> rank r \<ge> rank minr"

text \<open>\<open>ParseRole\<close>: the error carries the text it names.\<close>

definition ParseRole :: "string \<Rightarrow> string + role" where
  "ParseRole s = (if s = RoleViewer \<or> s = RoleOperator \<or> s = RoleAdmin then Inr s else Inl s)"

lemma role_neq [simp]:
  "RoleViewer \<noteq> RoleOperator" "RoleViewer \<noteq> RoleAdmin" "RoleOperator \<noteq> RoleAdmin"
  "RoleOperator \<noteq> RoleViewer" "RoleAdmin \<noteq> RoleViewer" "RoleAdmin \<noteq> RoleOperator"
  "RoleViewer \<noteq> ''''" "RoleOperator \<noteq> ''''" "RoleAdmin \<noteq> ''''"
  by (simp_all add: RoleViewer_def RoleOperator_def RoleAdmin_def)

lemma rank_simps [simp]: "rank RoleViewer = 1" "rank RoleOperator = 2" "rank RoleAdmin = 3" "rank '''' = 0"
  by (simp_all add: rank_def) (simp add: RoleViewer_def RoleOperator_def RoleAdmin_def)

lemma rank_range: "0 \<le> rank r" "rank r \<le> 3"
  by (simp_all add: rank_def)

definition valid_role :: "role \<Rightarrow> bool" where
  "valid_role r \<longleftrightarrow> 0 < rank r"

lemma valid_role_iff: "valid_role r \<longleftrightarrow> r \<in> {RoleViewer, RoleOperator, RoleAdmin}"
  by (auto simp: valid_role_def rank_def split: if_splits)

lemma ParseRole_iff: "ParseRole s = (if valid_role s then Inr s else Inl s)"
  by (simp add: ParseRole_def valid_role_iff)

lemma rank_inj: "valid_role r \<Longrightarrow> rank r = rank q \<Longrightarrow> r = q"
  by (auto simp: valid_role_def rank_def split: if_splits)

section \<open>Token identity\<close>

record token_principal =
  tp_Name :: string
  tp_Role :: role
  tp_Token :: string

text \<open>\<open>hex.EncodeToString\<close> on the digest.\<close>

definition hex_encode :: "string \<Rightarrow> string" where
  "hex_encode s = concat (map (\<lambda>c. [hex_digit (byte_val c div 16), hex_digit (byte_val c mod 16)]) s)"

definition hashToken :: "(string \<Rightarrow> string) \<Rightarrow> string \<Rightarrow> string" where
  "hashToken sha256 tok = hex_encode (sha256 tok)"

primrec index_tokens ::
  "(string \<Rightarrow> string) \<Rightarrow> token_principal list \<Rightarrow> (string, principal) fmap \<Rightarrow> (string, principal) fmap" where
  "index_tokens sha256 [] m = m"
| "index_tokens sha256 (e # es) m =
     (if tp_Token e = '''' then index_tokens sha256 es m
      else index_tokens sha256 es
             (fmupd (hashToken sha256 (tp_Token e)) \<lparr>pr_Name = tp_Name e, pr_Role = tp_Role e\<rparr> m))"

definition NewTokenIdentity :: "(string \<Rightarrow> string) \<Rightarrow> token_principal list \<Rightarrow> (string, principal) fmap" where
  "NewTokenIdentity sha256 entries = index_tokens sha256 entries fmempty"

text \<open>\<open>r.Cookie(name)\<close> is the first cookie of that name.\<close>

definition tokenFromRequest :: "request \<Rightarrow> string" where
  "tokenFromRequest r =
     (let h = Header_Get r ''Authorization''; cut = CutPrefix h ''Bearer ''
      in if h \<noteq> '''' \<and> snd cut then fst cut
         else (case map_of (req_Cookies r) ''pglockr_token'' of Some v \<Rightarrow> v | None \<Rightarrow> ''''))"

text \<open>An identity maps a request to a principal; \<open>None\<close> is the result \<open>Principal{}, false\<close>.\<close>

type_synonym identity = "request \<Rightarrow> principal option"

definition Token_Authenticate :: "(string \<Rightarrow> string) \<Rightarrow> (string, principal) fmap \<Rightarrow> identity" where
  "Token_Authenticate sha256 byHash r =
     (let tok = tokenFromRequest r
      in if tok = '''' then None else fmlookup byHash (hashToken sha256 tok))"

section \<open>Middleware\<close>

definition Authenticate :: "identity \<Rightarrow> ('s, 'j) handler \<Rightarrow> ('s, 'j) handler" where
  "Authenticate idn next r s =
     (case idn r of
        None \<Rightarrow> Some (s, with_header ''Www-Authenticate'' ''Bearer'' (http_Error ''unauthorized'' 401))
      | Some p \<Rightarrow> next (r\<lparr>req_Principal := Some p\<rparr>) s)"

definition PrincipalFrom :: "request \<Rightarrow> principal option" where
  "PrincipalFrom r = req_Principal r"

definition RequireRole :: "role \<Rightarrow> ('s, 'j) handler \<Rightarrow> ('s, 'j) handler" where
  "RequireRole minr next r s =
     (case PrincipalFrom r of
        None \<Rightarrow> Some (s, http_Error ''unauthorized'' 401)
      | Some p \<Rightarrow>
          if \<not> AtLeast (pr_Role p) minr
          then Some (s, http_Error (''forbidden: requires '' @ minr @ '' role'') 403)
          else next r s)"

definition CheckOrigin :: "request \<Rightarrow> bool" where
  "CheckOrigin r =
     (let origin = Header_Get r ''Origin''; host = req_Host r
      in if origin = '''' then True
         else HasSuffix origin (''://'' @ host) \<or> HasSuffix origin host)"

section \<open>Proxy identity\<close>

record proxy_config =
  px_UserHeader :: string
  px_GroupsHeader :: string
  px_GroupsSep :: string
  px_TrustMode :: string
  px_SecretHeader :: string
  px_Secret :: string
  px_DefaultRole :: role
  px_GroupToRole :: "(string, role) fmap"

datatype proxy_error = UserHeaderRequired | SecretRequired | InvalidTrustMode string | NoRoles

definition NewProxyIdentity :: "proxy_config \<Rightarrow> proxy_error + proxy_config" where
  "NewProxyIdentity cfg =
     (if px_UserHeader cfg = '''' then Inl UserHeaderRequired
      else if px_TrustMode cfg = ''secret'' \<and> (px_SecretHeader cfg = '''' \<or> px_Secret cfg = '''') then Inl SecretRequired
      else if px_TrustMode cfg \<noteq> ''secret'' \<and> px_TrustMode cfg \<noteq> ''network'' then Inl (InvalidTrustMode (px_TrustMode cfg))
      else if map_len (px_GroupToRole cfg) = 0 \<and> px_DefaultRole cfg = '''' then Inl NoRoles
      else Inr (if px_GroupsSep cfg = '''' then cfg\<lparr>px_GroupsSep := '',''\<rparr> else cfg))"

text \<open>The loop of \<open>highestRole\<close> over the pieces of the header.\<close>

primrec highest_loop :: "(string, role) fmap \<Rightarrow> string list \<Rightarrow> role \<Rightarrow> bool \<Rightarrow> role \<times> bool" where
  "highest_loop m [] best found = (best, found)"
| "highest_loop m (g0 # gs) best found =
     (let g = TrimSpace g0
      in if g = '''' then highest_loop m gs best found
         else (case fmlookup m g of
                 None \<Rightarrow> highest_loop m gs best found
               | Some role \<Rightarrow>
                   if \<not> found \<or> rank role > rank best then highest_loop m gs role True
                   else highest_loop m gs best found))"

definition highestRole :: "proxy_config \<Rightarrow> string \<Rightarrow> role \<times> bool" where
  "highestRole cfg groups = highest_loop (px_GroupToRole cfg) (Split groups (px_GroupsSep cfg)) '''' False"

text \<open>\<open>subtle.ConstantTimeCompare\<close> returns 1 exactly for equal contents.\<close>

definition Proxy_Authenticate :: "proxy_config \<Rightarrow> identity" where
  "Proxy_Authenticate cfg r =
     (if px_TrustMode cfg = ''secret'' \<and> Header_Get r (px_SecretHeader cfg) \<noteq> px_Secret cfg then None
      else let user = TrimSpace (Header_Get r (px_UserHeader cfg))
           in if user = '''' then None
              else (case highestRole cfg (Header_Get r (px_GroupsHeader cfg)) of
                      (role, ok) \<Rightarrow>
                        if \<not> ok then
                          (if px_DefaultRole cfg = '''' then None
                           else Some \<lparr>pr_Name = user, pr_Role = px_DefaultRole cfg\<rparr>)
                        else Some \<lparr>pr_Name = user, pr_Role = role\<rparr>))"

section \<open>Tokens\<close>

lemma hex_digit_inj: "m < 16 \<Longrightarrow> n < 16 \<Longrightarrow> hex_digit m = hex_digit n \<Longrightarrow> m = n"
proof -
  assume mn: "m < 16" "n < 16" and eq: "hex_digit m = hex_digit n"
  then have "(if m < 10 then 48 + m else 87 + m) = (if n < 10 then 48 + n else 87 + n)"
    using hex_digit_val [OF mn(1)] hex_digit_val [OF mn(2)] by metis
  then show "m = n" using mn by presburger
qed

lemma hex_encode_inj: "hex_encode s = hex_encode t \<Longrightarrow> s = t"
proof (induction s arbitrary: t)
  case Nil
  then show ?case by (cases t) (auto simp: hex_encode_def)
next
  case (Cons c s)
  then obtain d t' where t: "t = d # t'" by (cases t) (auto simp: hex_encode_def)
  have lt: "byte_val x div 16 < 16" "byte_val x mod 16 < 16" for x :: char
    using nat_of_char_less_256 [of x] by (simp_all add: less_mult_imp_div_less)
  have "hex_digit (byte_val c div 16) = hex_digit (byte_val d div 16)"
    "hex_digit (byte_val c mod 16) = hex_digit (byte_val d mod 16)" "hex_encode s = hex_encode t'"
    using Cons.prems by (simp_all add: t hex_encode_def)
  then have "byte_val c div 16 = byte_val d div 16" "byte_val c mod 16 = byte_val d mod 16" "s = t'"
    using hex_digit_inj lt Cons.IH by blast+
  then have "byte_val c = byte_val d" by (metis div_mult_mod_eq)
  with \<open>s = t'\<close> show ?case by (simp add: t)
qed

lemma index_tokens_lookup:
  assumes "inj_on sha256 (insert tok (tp_Token ` set es))" "tok \<noteq> ''''"
  shows "fmlookup (index_tokens sha256 es m) (hashToken sha256 tok) =
    (let found = filter (\<lambda>e. tp_Token e = tok) es
     in if found = [] then fmlookup m (hashToken sha256 tok)
        else Some \<lparr>pr_Name = tp_Name (last found), pr_Role = tp_Role (last found)\<rparr>)"
  using assms(1)
proof (induction es arbitrary: m)
  case (Cons e es)
  have "inj_on sha256 (insert tok (tp_Token ` set es))"
    using Cons.prems by (rule inj_on_subset) auto
  note IH = Cons.IH [OF this]
  have "hashToken sha256 (tp_Token e) = hashToken sha256 tok \<longleftrightarrow> tp_Token e = tok"
    using Cons.prems hex_encode_inj by (auto simp: hashToken_def inj_on_def)
  then show ?case using assms(2) by (auto simp: IH Let_def)
qed simp

text \<open>C36: As long as no two of the tokens at hand have the same SHA-256 digest, a request is
  authenticated exactly when it carries a non-empty configured token, and then as the principal
  of the last configuration entry with that token.\<close>

theorem Token_Authenticate_exact:
  assumes "inj_on sha256 (insert (tokenFromRequest r) (tp_Token ` set entries))"
  shows "Token_Authenticate sha256 (NewTokenIdentity sha256 entries) r =
    (let found = filter (\<lambda>e. tp_Token e = tokenFromRequest r) entries
     in if tokenFromRequest r = '''' \<or> found = [] then None
        else Some \<lparr>pr_Name = tp_Name (last found), pr_Role = tp_Role (last found)\<rparr>)"
  using index_tokens_lookup [OF assms, of fmempty]
  by (simp add: Token_Authenticate_def NewTokenIdentity_def Let_def)

definition demo_request :: request where
  "demo_request = \<lparr>req_Method = ''POST'', req_Path = ''/api/sessions/7/cancel'', req_Host = ''example.com'',
     req_Header = fmap_of_list [(''Authorization'', [''Bearer t1'']), (''X-User'', [''ann'']),
       (''X-Groups'', [''ops'']), (''X-Secret'', [''s3''])],
     req_Cookies = [], req_Query = fmempty, req_Principal = None\<rparr>"

definition demo_tokens :: "token_principal list" where
  "demo_tokens = [\<lparr>tp_Name = ''a'', tp_Role = ''admin'', tp_Token = ''t1''\<rparr>,
     \<lparr>tp_Name = ''b'', tp_Role = ''viewer'', tp_Token = ''t2''\<rparr>]"

lemma demo_token: "tokenFromRequest demo_request = ''t1''"
  by code_simp

theorem Token_Authenticate_exact_witness:
  "Token_Authenticate (\<lambda>t. t) (NewTokenIdentity (\<lambda>t. t) demo_tokens) demo_request =
     Some \<lparr>pr_Name = ''a'', pr_Role = ''admin''\<rparr>"
  using Token_Authenticate_exact [of "\<lambda>t. t" demo_request demo_tokens]
  by (simp add: demo_token) (simp add: demo_tokens_def)

section \<open>The middleware chain\<close>

text \<open>Behind \<open>Authenticate\<close> and \<open>RequireRole\<close> a request without credentials gets 401
  and one whose role is invalid or below the required one gets 403, both with the state
  untouched; the handler runs only for a sufficient role, with the principal in the context.\<close>

theorem middleware_guards:
  "Authenticate idn (RequireRole minr h) r s =
     (case idn r of
        None \<Rightarrow> Some (s, with_header ''Www-Authenticate'' ''Bearer'' (http_Error ''unauthorized'' 401))
      | Some p \<Rightarrow>
          if pr_Role p \<in> {RoleViewer, RoleOperator, RoleAdmin} \<and> rank minr \<le> rank (pr_Role p)
          then h (r\<lparr>req_Principal := Some p\<rparr>) s
          else Some (s, http_Error (''forbidden: requires '' @ minr @ '' role'') 403))"
  unfolding valid_role_iff [symmetric] valid_role_def
  by (auto simp: Authenticate_def RequireRole_def PrincipalFrom_def AtLeast_def http_Error_def split: option.splits)

section \<open>Origins\<close>

text \<open>The origin check passes exactly for a request without an \<open>Origin\<close> header and for
  one whose origin ends in the host: the alternative with the scheme separator adds nothing.
  So for every host an attacker's origin whose name merely ends in it passes, against the
  comment that it must match the host.\<close>

theorem CheckOrigin_is_suffix_test:
  "(CheckOrigin r \<longleftrightarrow> Header_Get r ''Origin'' = '''' \<or> suffix (req_Host r) (Header_Get r ''Origin'')) \<and>
   CheckOrigin (r\<lparr>req_Header := fmupd ''Origin'' [''http://evil'' @ req_Host r] (req_Header r)\<rparr>)"
proof -
  have "suffix h os" if "suffix (''://'' @ h) os" for h os :: string
    using that by (metis append_assoc suffix_def)
  moreover have "Header_Get (r\<lparr>req_Header := fmupd ''Origin'' [v] (req_Header r)\<rparr>) ''Origin'' = v" for v
  proof -
    have "CanonicalHeaderKey ''Origin'' = ''Origin''" by code_simp
    then show ?thesis by (simp add: Header_Get_def first_value_def)
  qed
  ultimately show ?thesis by (auto simp: CheckOrigin_def Let_def suffix_def)
qed

section \<open>The trusted proxy\<close>

text \<open>The configured roles of the groups in a header value, in order.\<close>

definition group_roles :: "(string, role) fmap \<Rightarrow> string list \<Rightarrow> role list" where
  "group_roles m gs = List.map_filter (fmlookup m) (filter (\<lambda>g. g \<noteq> '''') (map TrimSpace gs))"

lemma group_roles_simps [simp]:
  "group_roles m [] = []"
  "group_roles m (g # gs) =
     (if TrimSpace g = '''' then group_roles m gs
      else case fmlookup m (TrimSpace g) of None \<Rightarrow> group_roles m gs | Some r \<Rightarrow> r # group_roles m gs)"
  by (simp_all add: group_roles_def List.map_filter_simps split: option.splits)

lemma highest_loop_found:
  "highest_loop m gs best found = (b, ok) \<Longrightarrow>
     (ok \<longleftrightarrow> found \<or> group_roles m gs \<noteq> []) \<and>
     (ok \<longrightarrow> b \<in> set (group_roles m gs) \<or> (found \<and> b = best)) \<and>
     (\<forall>r \<in> set (group_roles m gs). rank r \<le> rank b) \<and> (found \<longrightarrow> rank best \<le> rank b)"
proof (induction gs arbitrary: best found)
  case (Cons g gs)
  show ?case
  proof (cases "TrimSpace g = '''' \<or> fmlookup m (TrimSpace g) = None")
    case True
    with Cons.prems have "highest_loop m gs best found = (b, ok)" by (auto simp: Let_def split: if_splits)
    from Cons.IH [OF this] True show ?thesis by auto
  next
    case False
    then obtain r where r: "TrimSpace g \<noteq> ''''" "fmlookup m (TrimSpace g) = Some r" by auto
    show ?thesis
    proof (cases "\<not> found \<or> rank r > rank best")
      case True
      with Cons.prems r have "highest_loop m gs r True = (b, ok)" by (simp add: Let_def)
      from Cons.IH [OF this] True r show ?thesis by auto
    next
      case False
      with Cons.prems r have "highest_loop m gs best found = (b, ok)" by (simp add: Let_def)
      from Cons.IH [OF this] False r show ?thesis by auto
    qed
  qed
qed auto

text \<open>\<open>highestRole\<close> finds a role exactly when some group of the header is configured, and
  the role it returns is configured for a group of the header and of maximal rank.\<close>

theorem highestRole_max:
  "(let roles = group_roles (px_GroupToRole cfg) (Split groups (px_GroupsSep cfg));
        (best, found) = highestRole cfg groups
    in (found \<longleftrightarrow> roles \<noteq> []) \<and>
       (if roles = [] then best = '''' else best \<in> set roles \<and> rank best = Max (rank ` set roles)))"
proof -
  let ?gs = "Split groups (px_GroupsSep cfg)" and ?m = "px_GroupToRole cfg"
  obtain b ok where h: "highest_loop ?m ?gs '''' False = (b, ok)" by fastforce
  note f = highest_loop_found [OF h]
  have none: "b = ''''" if "group_roles ?m ?gs = []"
  proof -
    have "highest_loop m gs best found = (best, found)" if "group_roles m gs = []" for m gs best found
      using that by (induction gs) (auto simp: Let_def split: if_splits option.splits)
    then show ?thesis using that h by simp
  qed
  have "rank b = Max (rank ` set (group_roles ?m ?gs))" if "group_roles ?m ?gs \<noteq> []"
    using f that by (intro Max_eqI [symmetric]) auto
  with f none h show ?thesis by (auto simp: highestRole_def Let_def)
qed

text \<open>C37: What a proxy identity that \<open>NewProxyIdentity\<close> accepted demands of a request it
  authenticates: in the secret mode the request presents the configured, non-empty secret; the
  name is the trimmed, non-empty user header; the role is the best one of the groups, or the
  configured default when no group is known, and never the empty role unless a group maps to
  it.\<close>

theorem Proxy_Authenticate_demands:
  assumes "NewProxyIdentity cfg0 = Inr cfg" "Proxy_Authenticate cfg r = Some p"
  shows "(px_TrustMode cfg = ''secret'' \<longrightarrow>
            px_Secret cfg \<noteq> '''' \<and> Header_Get r (px_SecretHeader cfg) = px_Secret cfg) \<and>
         px_TrustMode cfg \<in> {''secret'', ''network''} \<and>
         pr_Name p = TrimSpace (Header_Get r (px_UserHeader cfg)) \<and> pr_Name p \<noteq> '''' \<and>
         (let roles = group_roles (px_GroupToRole cfg) (Split (Header_Get r (px_GroupsHeader cfg)) (px_GroupsSep cfg))
          in if roles = [] then pr_Role p = px_DefaultRole cfg \<and> pr_Role p \<noteq> ''''
             else pr_Role p \<in> set roles \<and> (\<forall>q \<in> set roles. rank q \<le> rank (pr_Role p)))"
proof -
  obtain b ok where h: "highestRole cfg (Header_Get r (px_GroupsHeader cfg)) = (b, ok)" by fastforce
  note f = highest_loop_found [OF h [unfolded highestRole_def]]
  have "px_TrustMode cfg \<in> {''secret'', ''network''}" "px_TrustMode cfg = ''secret'' \<longrightarrow> px_Secret cfg \<noteq> ''''"
    using assms(1) by (auto simp: NewProxyIdentity_def split: if_splits)
  moreover from assms(2) h
  have "px_TrustMode cfg = ''secret'' \<longrightarrow> Header_Get r (px_SecretHeader cfg) = px_Secret cfg"
    "pr_Name p = TrimSpace (Header_Get r (px_UserHeader cfg))" "pr_Name p \<noteq> ''''"
    "if ok then pr_Role p = b else pr_Role p = px_DefaultRole cfg \<and> pr_Role p \<noteq> ''''"
    by (auto simp: Proxy_Authenticate_def Let_def split: if_splits)
  ultimately show ?thesis using f by (auto simp: Let_def split: if_splits)
qed

definition demo_proxy :: proxy_config where
  "demo_proxy = \<lparr>px_UserHeader = ''x-user'', px_GroupsHeader = ''x-groups'', px_GroupsSep = '''',
     px_TrustMode = ''secret'', px_SecretHeader = ''x-secret'', px_Secret = ''s3'', px_DefaultRole = '''',
     px_GroupToRole = fmap_of_list [(''dev'', ''viewer''), (''ops'', ''operator'')]\<rparr>"

lemma demo_headers:
  "Header_Get demo_request ''x-user'' = ''ann''" "Header_Get demo_request ''x-groups'' = ''ops''"
  "Header_Get demo_request ''x-secret'' = ''s3''"
  by code_simp+

lemma demo_proxy_ok:
  "NewProxyIdentity demo_proxy = Inr (demo_proxy\<lparr>px_GroupsSep := '',''\<rparr>)"
  "Proxy_Authenticate (demo_proxy\<lparr>px_GroupsSep := '',''\<rparr>) demo_request = Some \<lparr>pr_Name = ''ann'', pr_Role = ''operator''\<rparr>"
proof -
  have "fmdom (px_GroupToRole demo_proxy) \<noteq> {||}" by (simp add: demo_proxy_def)
  then have "map_len (px_GroupToRole demo_proxy) \<noteq> 0" by (simp add: map_len_def)
  then show "NewProxyIdentity demo_proxy = Inr (demo_proxy\<lparr>px_GroupsSep := '',''\<rparr>)"
    by (simp add: NewProxyIdentity_def) (simp add: demo_proxy_def)
  have "Split ''ops'' '','' = [''ops'']" by (simp add: Split_def split_on.simps)
  moreover have "TrimSpace ''ops'' = ''ops''" "TrimSpace ''ann'' = ''ann''"
    by (simp_all add: TrimSpace_visible visible_def)
  ultimately show "Proxy_Authenticate (demo_proxy\<lparr>px_GroupsSep := '',''\<rparr>) demo_request =
      Some \<lparr>pr_Name = ''ann'', pr_Role = ''operator''\<rparr>"
    by (simp add: Proxy_Authenticate_def highestRole_def demo_proxy_def demo_headers)
qed

theorem Proxy_Authenticate_demands_witness:
  "Header_Get demo_request ''x-secret'' = ''s3'' \<and> TrimSpace (Header_Get demo_request ''x-user'') = ''ann''"
  using Proxy_Authenticate_demands [OF demo_proxy_ok] by (simp add: demo_proxy_def)

end
