(* ===== verification/Stream_Api.thy ===== *)
theory Stream_Api
  imports Store Auth
begin

text \<open>
  Package \<open>internal/api\<close>, \<open>stream.go\<close>: one WebSocket session. The events of its select loop
  come in a list, together with the snapshots the poller publishes meanwhile: the context ends,
  the channel is ready and the write succeeds or fails, a ping succeeds or fails.
\<close>

datatype ws_event = CtxDone | Published snapshot | Frame bool | Ping bool

text \<open>The loop, on the channel of this subscriber: the frames written and whether it
  returned.\<close>

primrec stream_loop ::
  "'p persister \<Rightarrow> (int fset \<Rightarrow> int list) \<Rightarrow> chan_ref \<Rightarrow> ws_event list \<Rightarrow> 'p store \<Rightarrow> ('p store \<times> snapshot list \<times> bool) option" where
  "stream_loop ops ord ch [] s = Some (s, [], False)"
| "stream_loop ops ord ch (e # es) s =
     (case e of
        CtxDone \<Rightarrow> Some (s, [], True)
      | Published snap \<Rightarrow> (case Put ops ord snap s of None \<Rightarrow> None | Some s' \<Rightarrow> stream_loop ops ord ch es s')
      | Ping ok \<Rightarrow> if ok then stream_loop ops ord ch es s else Some (s, [], True)
      | Frame ok \<Rightarrow>
          (case chan_recv ch s of
             None \<Rightarrow>
               (case fmlookup (st_chans s) ch of
                  Some c \<Rightarrow> if ch_closed c then Some (s, [], True) else stream_loop ops ord ch es s
                | None \<Rightarrow> Some (s, [], True))
           | Some (s', snap) \<Rightarrow>
               if ok then map_option (\<lambda>(s'', sent, stopped). (s'', snap # sent, stopped)) (stream_loop ops ord ch es s')
               else Some (s', [], True)))"

text \<open>A session: the upgrade, the origin check, the subscription (ended again on every return),
  the current snapshot first. \<open>early\<close> are the snapshots the poller publishes between the
  subscription and the reading of the current snapshot, which are two separate critical
  sections.\<close>

definition handleStream ::
  "'p persister \<Rightarrow> (int fset \<Rightarrow> int list) \<Rightarrow> bool \<Rightarrow> snapshot list \<Rightarrow> bool \<Rightarrow> ws_event list \<Rightarrow> request \<Rightarrow> 'p store \<Rightarrow>
   ('p store \<times> snapshot list \<times> bool) option" where
  "handleStream ops ord accepted early first_ok evs r s =
     (if \<not> accepted then Some (s, [], True)
      else if \<not> CheckOrigin r then Some (s, [], True)
      else (case Subscribe s of
              (s0, sid, ch) \<Rightarrow>
                (case run_puts (Put ops ord) early s0 of
                   None \<Rightarrow> None
                 | Some s1 \<Rightarrow>
                     (case Latest s1 of
                        None \<Rightarrow> None
                      | Some (snap, ok) \<Rightarrow>
                          if ok \<and> \<not> first_ok then Some (unsubscribe sid s1, [], True)
                          else map_option
                                 (\<lambda>(s2, sent, stopped).
                                    (if stopped then unsubscribe sid s2 else s2, (if ok then [snap] else []) @ sent, stopped))
                                 (stream_loop ops ord ch evs s1)))))"

section \<open>What a session sends\<close>

definition published :: "ws_event list \<Rightarrow> snapshot list" where
  "published evs = List.map_filter (\<lambda>e. case e of Published x \<Rightarrow> Some x | _ \<Rightarrow> None) evs"

lemma published_simps [simp]:
  "published [] = []" "published (Published x # es) = x # published es" "published (CtxDone # es) = published es"
  "published (Frame b # es) = published es" "published (Ping b # es) = published es"
  by (simp_all add: published_def List.map_filter_simps)

lemma subseq_deliver_published: "subseq xs (ch_buf (deliver x c) @ ys) \<Longrightarrow> subseq xs (ch_buf c @ x # ys)"
proof -
  assume "subseq xs (ch_buf (deliver x c) @ ys)"
  moreover have "subseq (ch_buf (deliver x c) @ ys) (ch_buf c @ x # ys)"
    by (auto simp: deliver_def intro!: list_emb_append_mono)
  ultimately show ?thesis by (rule subseq_order.trans)
qed

lemma stream_loop_ok:
  assumes "map_order ord"
  shows "store_wf s \<Longrightarrow> fmlookup (st_subs s) sid = Some ch \<Longrightarrow> fmlookup (st_chans s) ch = Some c \<Longrightarrow>
    \<exists>s' sent stopped. stream_loop ops ord ch evs s = Some (s', sent, stopped) \<and> store_wf s' \<and> st_subs s' = st_subs s \<and>
      subseq sent (ch_buf c @ published evs)"
proof (induction evs arbitrary: s c)
  case (Cons e es)
  show ?case
  proof (cases e)
    case (Published x)
    obtain s' where s': "Put ops ord x s = Some s'" "store_wf s'" "st_subs s' = st_subs s"
      "\<forall>q. fmlookup (st_chans s') q = (if q \<in> map_keys (st_subs s) then map_option (deliver x) (fmlookup (st_chans s) q)
         else fmlookup (st_chans s) q)"
      using Put_ok [OF Cons.prems(1) assms, of ops x] by blast
    have "ch = sid" using Cons.prems(1,2) by (auto simp: store_wf_def hub_wf_def)
    then have "fmlookup (st_chans s') ch = Some (deliver x c)"
      using s'(4) Cons.prems(2,3) by (simp add: fmdomI)
    from Cons.IH [OF s'(2) _ this] s' Cons.prems(2) show ?thesis
      by (auto simp: Published dest: subseq_deliver_published)
  next
    case (Frame ok)
    show ?thesis
    proof (cases "ch_buf c")
      case Nil
      then have "chan_recv ch s = None" using Cons.prems(3) by (simp add: chan_recv_def)
      with Cons.IH [OF Cons.prems] Cons.prems Frame show ?thesis by auto
    next
      case (Cons x xs)
      let ?s = "s\<lparr>st_chans := fmupd ch (c\<lparr>ch_buf := xs\<rparr>) (st_chans s)\<rparr>"
      have recv: "chan_recv ch s = Some (?s, x)" using Cons.prems(3) Cons by (simp add: chan_recv_def)
      have wf: "store_wf ?s" using chan_recv_wf [OF Cons.prems(1) recv] .
      from Cons.IH [OF wf, of "c\<lparr>ch_buf := xs\<rparr>"] Cons.prems(2) obtain s' sent stopped where
        "stream_loop ops ord ch es ?s = Some (s', sent, stopped)" "store_wf s'" "st_subs s' = st_subs s"
        "subseq sent (xs @ published es)" by auto
      then show ?thesis using recv wf Cons Frame by (cases ok) auto
    qed
  next
    case (Ping ok)
    from Cons.IH [OF Cons.prems] Cons.prems(1) Ping show ?thesis by (cases ok) auto
  qed (use Cons.prems in auto)
qed auto

lemma early_puts_ok:
  assumes "map_order ord"
  shows "store_wf s \<Longrightarrow> fmlookup (st_subs s) sid = Some ch \<Longrightarrow> fmlookup (st_chans s) ch = Some c \<Longrightarrow>
    \<exists>s' c'. run_puts (Put ops ord) xs s = Some s' \<and> store_wf s' \<and> st_subs s' = st_subs s \<and> st_cap s' = st_cap s \<and>
      fmlookup (st_chans s') ch = Some c' \<and> subseq (ch_buf c') (ch_buf c @ xs) \<and>
      ring_list s' = last_n (ring_cap s) (ring_list s @ xs)"
proof (induction xs arbitrary: s c)
  case Nil
  then show ?case by (simp add: ring_list_cap store_wf_def)
next
  case (Cons x xs)
  obtain s1 where s1: "Put ops ord x s = Some s1" "store_wf s1" "st_cap s1 = st_cap s" "st_subs s1 = st_subs s"
    "ring_list s1 = last_n (ring_cap s) (ring_list s @ [x])"
    "\<forall>q. fmlookup (st_chans s1) q = (if q \<in> map_keys (st_subs s) then map_option (deliver x) (fmlookup (st_chans s) q)
       else fmlookup (st_chans s) q)"
    using Put_ok [OF Cons.prems(1) assms, of ops x] by blast
  have "ch = sid" using Cons.prems(1,2) by (auto simp: store_wf_def hub_wf_def)
  then have "fmlookup (st_chans s1) ch = Some (deliver x c)"
    using s1(6) Cons.prems(2,3) by (simp add: fmdomI)
  from Cons.IH [OF s1(2) _ this] s1 Cons.prems(2) show ?case
    by (auto simp: last_n_append dest: subseq_deliver_published)
qed

lemma Subscribe_frame:
  "Subscribe s = (s0, sid, ch) \<Longrightarrow>
     sid = st_nextID s \<and> ch = sid \<and> st_subs s0 = fmupd sid ch (st_subs s) \<and> st_cap s0 = st_cap s \<and>
     fmlookup (st_chans s0) ch = Some \<lparr>ch_buf = [], ch_closed = False\<rparr> \<and> ring_list s0 = ring_list s"
  by (auto simp: Subscribe_def Let_def ring_list_def)

lemma fresh_sub: "store_wf s \<Longrightarrow> fmlookup (st_subs s) (st_nextID s) = None"
proof (rule ccontr)
  assume wf: "store_wf s" and "fmlookup (st_subs s) (st_nextID s) \<noteq> None"
  then obtain r where "fmlookup (st_subs s) (st_nextID s) = Some r" by auto
  then obtain c where "fmlookup (st_chans s) (st_nextID s) = Some c"
    using wf unfolding store_wf_def hub_wf_def by metis
  then have "st_nextID s < st_nextID s" using wf unfolding store_wf_def hub_wf_def by metis
  then show False by simp
qed

lemma unsubscribe_fresh:
  assumes "fmlookup m sid = None" "st_subs s1 = fmupd sid ch m"
  shows "st_subs (unsubscribe sid s1) = m"
proof -
  have "fmdrop sid (fmupd sid ch m) = m" using assms(1) by (intro fmap_ext) simp
  with assms(2) show ?thesis by (simp add: unsubscribe_def)
qed

text \<open>The states a session goes through before its loop, and the loop.\<close>

lemma session_runs:
  assumes "map_order ord" "store_wf s" "Subscribe s = (s0, sid, ch)"
  shows "\<exists>s1 s2 sent stopped. run_puts (Put ops ord) early s0 = Some s1 \<and> store_wf s1 \<and>
    Latest s1 = Some (if ring_list s @ early = [] then (zero_snapshot, False) else (last (ring_list s @ early), True)) \<and>
    stream_loop ops ord ch evs s1 = Some (s2, sent, stopped) \<and> store_wf s2 \<and>
    subseq sent (early @ published evs) \<and>
    st_subs (unsubscribe sid s1) = st_subs s \<and> st_subs (unsubscribe sid s2) = st_subs s"
proof -
  note fr = Subscribe_frame [OF assms(3)]
  have wf0: "store_wf s0" using Subscribe_wf [OF assms(2)] assms(3) by simp
  obtain s1 c where s1: "run_puts (Put ops ord) early s0 = Some s1" "store_wf s1" "st_subs s1 = st_subs s0"
    "fmlookup (st_chans s1) ch = Some c" "subseq (ch_buf c) early"
    "ring_list s1 = last_n (ring_cap s) (ring_list s @ early)"
    using early_puts_ok [OF assms(1) wf0, of sid ch "\<lparr>ch_buf = [], ch_closed = False\<rparr>" ops early] fr by auto
  obtain s2 sent stopped where l: "stream_loop ops ord ch evs s1 = Some (s2, sent, stopped)" "store_wf s2"
    "st_subs s2 = st_subs s1" "subseq sent (ch_buf c @ published evs)"
    using stream_loop_ok [OF assms(1) s1(2) _ s1(4), of sid ops evs] s1(3) fr by auto
  have "subseq sent (early @ published evs)"
    using l(4) s1(5) by (meson list_emb_append_mono subseq_order.order_refl subseq_order.trans)
  moreover have "0 < ring_cap s" using assms(2) by (simp add: store_wf_def ring_wf_def)
  then have "Latest s1 = Some (if ring_list s @ early = [] then (zero_snapshot, False) else (last (ring_list s @ early), True))"
    using Latest_ring [of s1] s1(2,6) by (auto simp: store_wf_def)
  moreover have "fmlookup (st_subs s) sid = None" using fresh_sub [OF assms(2)] fr by simp
  then have "st_subs (unsubscribe sid s1) = st_subs s" "st_subs (unsubscribe sid s2) = st_subs s"
    using unsubscribe_fresh s1(3) l(3) fr by auto
  ultimately show ?thesis using s1(1,2) l(1,2) by blast
qed

text \<open>C29: A WebSocket session from the same origin that is accepted runs without a panic. It sends
  the latest snapshot first, when there is one, and after it some of the snapshots published
  since the subscription, each at most once and in the order of publication; when it returns,
  for whatever reason, its subscription is gone and those of the others are as before.\<close>

theorem stream_session_ok:
  assumes "map_order ord" "store_wf s" "CheckOrigin r"
  shows "\<exists>s' frames stopped. handleStream ops ord True early first_ok evs r s = Some (s', frames, stopped) \<and> store_wf s' \<and>
    (first_ok \<or> ring_list s @ early = [] \<longrightarrow>
      (\<exists>later. frames = (if ring_list s @ early = [] then [] else [last (ring_list s @ early)]) @ later \<and>
         subseq later (early @ published evs))) \<and>
    (stopped \<longrightarrow> st_subs s' = st_subs s)"
proof -
  obtain s0 sid ch where sub: "Subscribe s = (s0, sid, ch)" by (metis prod_cases3)
  from session_runs [OF assms(1,2) sub, of ops early evs] obtain s1 s2 sent stopped where
    s1: "run_puts (Put ops ord) early s0 = Some s1" "store_wf s1"
      "Latest s1 = Some (if ring_list s @ early = [] then (zero_snapshot, False) else (last (ring_list s @ early), True))"
    and l: "stream_loop ops ord ch evs s1 = Some (s2, sent, stopped)" "store_wf s2" "subseq sent (early @ published evs)"
    and gone: "st_subs (unsubscribe sid s1) = st_subs s" "st_subs (unsubscribe sid s2) = st_subs s" by blast
  show ?thesis
  proof (cases "ring_list s @ early \<noteq> [] \<and> \<not> first_ok")
    case True
    then have "handleStream ops ord True early first_ok evs r s = Some (unsubscribe sid s1, [], True)"
      using assms(3) sub s1 by (auto simp: handleStream_def)
    then show ?thesis using True gone(1) unsubscribe_wf [OF s1(2)] by auto
  next
    case False
    then have "handleStream ops ord True early first_ok evs r s =
        Some (if stopped then unsubscribe sid s2 else s2,
          (if ring_list s @ early = [] then [] else [last (ring_list s @ early)]) @ sent, stopped)"
      using assms(3) sub s1(1,3) l(1) by (auto simp: handleStream_def)
    moreover have "store_wf (if stopped then unsubscribe sid s2 else s2)" using l(2) unsubscribe_wf [OF l(2)] by simp
    ultimately show ?thesis using l(3) gone(2) by auto
  qed
qed

lemma demo_request_origin: "CheckOrigin demo_request"
proof -
  have "Header_Get demo_request ''Origin'' = ''''" by code_simp
  then show ?thesis by (simp add: CheckOrigin_def)
qed

theorem stream_session_ok_witness:
  "\<exists>s' frames stopped. handleStream nil_persister key_order True [] True
      [Published (demo_snap 5), Frame True, CtxDone] demo_request (New 2) = Some (s', frames, stopped) \<and> store_wf s' \<and>
      subseq frames [demo_snap 5]"
  using stream_session_ok [OF key_order.map_order_axioms New_wf demo_request_origin, of nil_persister "[]" True
      "[Published (demo_snap 5), Frame True, CtxDone]" 2]
  by (auto simp: New_ring_list)

text \<open>Two snapshots published between the subscription and the reading of the current one: the
  client gets the newer one first and the older one after it.\<close>

theorem stream_steps_back:
  "map_option (\<lambda>(s, frames, stopped). (map snap_TakenAt frames, stopped))
     (handleStream nil_persister key_order True [demo_snap 1, demo_snap 2] True [Frame True, CtxDone] demo_request (New 2)) =
   Some ([2, 1], True)"
  by code_simp

end
