(* ===== verification/Rfc3339.thy ===== *)
theory Rfc3339
  imports Go_Strings
begin

text \<open>
  The text of an instant, as package \<open>time\<close> writes it into JSON and reads it back: the
  proleptic Gregorian calendar, \<open>Time.MarshalJSON\<close> (RFC 3339 with as many digits of the
  fraction as it needs, in the zone of the value) and the strict reading of
  \<open>Time.UnmarshalJSON\<close>, and the lenient one of \<open>time.Parse\<close>. A zone is given by its offset from UTC in seconds.
\<close>

section \<open>Decimal numbers\<close>

definition digit_char :: "int \<Rightarrow> char" where
  "digit_char d = char_of (48 + nat d)"

text \<open>The number of digits is fixed, leading zeros are kept.\<close>

primrec pad :: "nat \<Rightarrow> int \<Rightarrow> string" where
  "pad 0 n = []"
| "pad (Suc w) n = pad w (n div 10) @ [digit_char (n mod 10)]"

lemma length_pad [simp]: "length (pad w n) = w"
  by (induction w arbitrary: n) simp_all

lemma digit_of_char [simp]: "0 \<le> d \<Longrightarrow> d < 10 \<Longrightarrow> digit_of (digit_char d) = Some d"
  by (simp add: digit_of_def digit_char_def)

lemma digits_val_append: "digits_val acc (s @ t) = Option.bind (digits_val acc s) (\<lambda>a. digits_val a t)"
  by (induction s arbitrary: acc) (auto split: bind_splits)

lemma digits_val_pad: "0 \<le> n \<Longrightarrow> n < 10 ^ w \<Longrightarrow> digits_val acc (pad w n) = Some (acc * 10 ^ w + n)"
proof (induction w arbitrary: n)
  case (Suc w)
  then have "n div 10 < 10 ^ w" "0 \<le> n div 10" by (simp_all add: div_less_iff_less_mult)
  with Suc.IH [of "n div 10"] show ?case by (simp add: digits_val_append algebra_simps)
qed simp

definition is_digit :: "char \<Rightarrow> bool" where
  "is_digit c \<longleftrightarrow> digit_of c \<noteq> None"

lemma is_digit_char [simp]: "0 \<le> d \<Longrightarrow> d < 10 \<Longrightarrow> is_digit (digit_char d)"
  by (simp add: is_digit_def)

lemma pad_digits: "list_all is_digit (pad w n)"
  by (induction w arbitrary: n) simp_all

section \<open>Calendar\<close>

definition leap_year :: "int \<Rightarrow> bool" where
  "leap_year y \<longleftrightarrow> y mod 4 = 0 \<and> (y mod 100 \<noteq> 0 \<or> y mod 400 = 0)"

definition month_lengths :: "int \<Rightarrow> int list" where
  "month_lengths y = [31, if leap_year y then 29 else 28, 31, 30, 31, 30, 31, 31, 30, 31, 30, 31]"

text \<open>Days from January 1 of year 1 to January 1 of year \<open>y\<close>.\<close>

definition days_before_year :: "int \<Rightarrow> int" where
  "days_before_year y = (let k = y - 1 in 365 * k + k div 4 - k div 100 + k div 400)"

text \<open>The year a day lies in and the number of days of that year before it.\<close>

definition year_and_day :: "int \<Rightarrow> int \<times> int" where
  "year_and_day d =
     (let n400 = d div 146097; d = d mod 146097;
          n100 = min 3 (d div 36524); d = d - 36524 * n100;
          n4 = d div 1461; d = d mod 1461;
          n1 = min 3 (d div 365); d = d - 365 * n1
      in (400 * n400 + 100 * n100 + 4 * n4 + n1 + 1, d))"

fun month_and_day :: "int list \<Rightarrow> int \<Rightarrow> int \<times> int" where
  "month_and_day [] d = (1, d + 1)"
| "month_and_day (n # ns) d =
     (if d < n then (1, d + 1) else (case month_and_day ns (d - n) of (m, d') \<Rightarrow> (m + 1, d')))"

definition days_of_date :: "int \<Rightarrow> int \<Rightarrow> int \<Rightarrow> int" where
  "days_of_date y m d = days_before_year y + sum_list (take (nat (m - 1)) (month_lengths y)) + d - 1"

lemma year_length: "sum_list (month_lengths y) = (if leap_year y then 366 else 365)"
  by (simp add: month_lengths_def)

lemma cycles:
  fixes a b c e :: int
  assumes "0 \<le> b" "b \<le> 3" "0 \<le> c" "c \<le> 24" "0 \<le> e" "e \<le> 3"
  defines "k \<equiv> 400 * a + 100 * b + 4 * c + e"
  shows "k div 4 = 100 * a + 25 * b + c" "k div 100 = 4 * a + b" "k div 400 = a"
    "leap_year (k + 1) \<longleftrightarrow> e = 3 \<and> (c \<noteq> 24 \<or> b = 3)"
proof -
  show "k div 4 = 100 * a + 25 * b + c" "k div 100 = 4 * a + b" "k div 400 = a"
    using assms(1-6) unfolding k_def by (auto intro!: int_div_pos_eq [where r = e] int_div_pos_eq [where r = "4 * c + e"]
        int_div_pos_eq [where r = "100 * b + 4 * c + e"])
  consider "e < 3" | "e = 3" "c < 24" | "e = 3" "c = 24" using assms(4,6) by linarith
  then show "leap_year (k + 1) \<longleftrightarrow> e = 3 \<and> (c \<noteq> 24 \<or> b = 3)"
  proof cases
    case 1
    have "(k + 1) mod 4 = e + 1" using 1 assms(5) mod_mult_self2 [of "e + 1" 4 "100 * a + 25 * b + c"] by (simp add: k_def algebra_simps)
    with 1 assms(5) show ?thesis by (simp add: leap_year_def)
  next
    case 2
    have "(k + 1) mod 100 = 4 * c + 4" using 2 assms(3) mod_mult_self2 [of "4 * c + 4" 100 "4 * a + b"] by (simp add: k_def algebra_simps)
    moreover have "(k + 1) mod 4 = 0" using 2 by (simp add: k_def mod_eq_0_iff_dvd)
    ultimately show ?thesis using 2 assms(3) by (simp add: leap_year_def)
  next
    case 3
    then have k: "k + 1 = 400 * a + 100 * (b + 1)" by (simp add: k_def)
    have "(k + 1) mod 400 = 100 * (b + 1) mod 400" unfolding k by simp
    moreover have "b \<in> {0, 1, 2, 3}" using assms(1,2) by auto
    then have "100 * (b + 1) mod 400 = 0 \<longleftrightarrow> b = 3" by auto
    moreover have "(k + 1) mod 100 = 0" "(k + 1) mod 4 = 0" unfolding k by (simp_all add: mod_eq_0_iff_dvd)
    ultimately show ?thesis using 3 by (simp add: leap_year_def)
  qed
qed

lemma quarters:
  fixes n x :: int
  assumes "0 < n" "0 \<le> x" "x \<le> 4 * n"
  defines "q \<equiv> min 3 (x div n)"
  shows "0 \<le> q" "q \<le> 3" "0 \<le> x - n * q" "q = 3 \<or> x - n * q < n" "x - n * q \<le> n"
proof -
  have pos: "0 \<le> x div n" using assms(1,2) by (simp add: pos_imp_zdiv_nonneg_iff)
  show "0 \<le> q" "q \<le> 3" using pos by (simp_all add: q_def)
  have m: "x mod n = x - n * (x div n)" "0 \<le> x mod n" "x mod n < n" using assms(1) by (simp_all add: minus_mult_div_eq_mod)
  show "0 \<le> x - n * q" "q = 3 \<or> x - n * q < n" "x - n * q \<le> n"
  proof (atomize (full), cases "x div n \<le> 3")
    case True
    with m show "0 \<le> x - n * q \<and> (q = 3 \<or> x - n * q < n) \<and> x - n * q \<le> n" by (simp add: q_def)
  next
    case False
    then have "n * 4 \<le> n * (x div n)" using assms(1) by (intro mult_left_mono) auto
    then have "x = n * 4" using m assms(3) by linarith
    with False assms(1) show "0 \<le> x - n * q \<and> (q = 3 \<or> x - n * q < n) \<and> x - n * q \<le> n" by (simp add: q_def)
  qed
qed

lemma year_and_day_of:
  assumes "year_and_day d = (y, yd)"
  shows "days_before_year y + yd = d" "0 \<le> yd" "yd < sum_list (month_lengths y)"
proof -
  define a d1 b d2 c d3 e where def: "a = d div 146097" "d1 = d mod 146097" "b = min 3 (d1 div 36524)"
    "d2 = d1 - 36524 * b" "c = d2 div 1461" "d3 = d2 mod 1461" "e = min 3 (d3 div 365)"
  have y: "y = (400 * a + 100 * b + 4 * c + e) + 1" "yd = d3 - 365 * e"
    using assms [symmetric] unfolding year_and_day_def Let_def prod.inject def [symmetric] by blast+
  have d: "d = 146097 * a + d1" "0 \<le> d1" "d1 < 146097" by (simp_all add: def)
  have "d1 \<le> 4 * 36524" using d(3) by simp
  note b = quarters [OF zero_less_numeral d(2) this, folded def(3), folded def(4)]
  have c: "0 \<le> c" "c \<le> 24" "d2 = 1461 * c + d3" "0 \<le> d3" "d3 < 1461" using b(3,5) by (simp_all add: def(5,6))
  have "d3 \<le> 4 * 365" using c(5) by simp
  note e = quarters [OF zero_less_numeral c(4) this, folded def(7), folded y(2)]
  note cyc = cycles [OF b(1,2) c(1,2) e(1,2), of a]
  show "days_before_year y + yd = d"
    using cyc(1-3) d(1) c(3) unfolding y(1) days_before_year_def Let_def add_diff_cancel_right' by (simp add: y(2) def(4))
  show "0 \<le> yd" by (rule e(3))
  have "yd = 365 \<Longrightarrow> e = 3 \<and> (c \<noteq> 24 \<or> b = 3)" using e c b y(2) by auto
  then show "yd < sum_list (month_lengths y)"
    using e(5) cyc(4) unfolding year_length y(1) by auto
qed

lemma month_and_day_of:
  assumes "month_and_day ns d = (m, dd)" "0 \<le> d" "d < sum_list ns" "list_all (\<lambda>n. 0 \<le> n) ns"
  shows "1 \<le> m \<and> m \<le> int (length ns) \<and> 1 \<le> dd \<and> dd \<le> ns ! nat (m - 1) \<and> sum_list (take (nat (m - 1)) ns) + dd - 1 = d"
  using assms
proof (induction ns d arbitrary: m rule: month_and_day.induct)
  case (2 n ns d)
  show ?case
  proof (cases "d < n")
    case False
    with 2(2) obtain m' where m': "month_and_day ns (d - n) = (m', dd)" "m = m' + 1" by (auto split: prod.splits)
    from 2(1) [OF False m'(1)] False 2(4,5) have "1 \<le> m' \<and> m' \<le> int (length ns) \<and> 1 \<le> dd \<and> dd \<le> ns ! nat (m' - 1) \<and>
      sum_list (take (nat (m' - 1)) ns) + dd - 1 = d - n" by auto
    moreover from this have "nat m' = Suc (nat (m' - 1))" by auto
    ultimately show ?thesis by (simp add: m'(2))
  qed (use 2 in auto)
qed simp

text \<open>From a day to its date and back.\<close>

definition date_of_days :: "int \<Rightarrow> int \<times> int \<times> int" where
  "date_of_days n = (case year_and_day n of (y, yd) \<Rightarrow> (case month_and_day (month_lengths y) yd of (m, d) \<Rightarrow> (y, m, d)))"

lemma days_of_date_of_days:
  assumes "date_of_days n = (y, m, d)"
  shows "days_of_date y m d = n" "1 \<le> m" "m \<le> 12" "1 \<le> d" "d \<le> month_lengths y ! nat (m - 1)"
proof -
  obtain yd where yd: "year_and_day n = (y, yd)" "month_and_day (month_lengths y) yd = (m, d)"
    using assms by (auto simp: date_of_days_def split: prod.splits)
  have "list_all (\<lambda>k. 0 \<le> k) (month_lengths y)" "length (month_lengths y) = 12" by (simp_all add: month_lengths_def)
  with month_and_day_of [OF yd(2) year_and_day_of(2,3) [OF yd(1)]] year_and_day_of(1) [OF yd(1)]
  show "days_of_date y m d = n" "1 \<le> m" "m \<le> 12" "1 \<le> d" "d \<le> month_lengths y ! nat (m - 1)"
    by (auto simp: days_of_date_def)
qed

section \<open>Writing\<close>

definition trim_zeros :: "string \<Rightarrow> string" where
  "trim_zeros s = rev (dropWhile (\<lambda>c. c = CHR ''0'') (rev s))"

definition fraction_text :: "int \<Rightarrow> string" where
  "fraction_text ns = (if ns = 0 then [] else CHR ''.'' # trim_zeros (pad 9 ns))"

text \<open>The offset is cut to minutes, towards zero.\<close>

definition zone_text :: "int \<Rightarrow> string" where
  "zone_text off =
     (if off = 0 then ''Z''
      else let z = sgn off * (\<bar>off\<bar> div 60)
           in (if z < 0 then CHR ''-'' else CHR ''+'') # pad 2 (\<bar>z\<bar> div 60) @ CHR '':'' # pad 2 (\<bar>z\<bar> mod 60))"

datatype time_error = YearOutOfRange | ZoneOutOfRange

text \<open>Days from January 1 of year 1 to the epoch.\<close>

abbreviation epoch_days :: int where "epoch_days \<equiv> 719162"

definition clock_text :: "int \<Rightarrow> string" where
  "clock_text sec = pad 2 (sec div 3600) @ CHR '':'' # pad 2 (sec div 60 mod 60) @ CHR '':'' # pad 2 (sec mod 60)"

definition MarshalTime :: "(time \<Rightarrow> int) \<Rightarrow> time \<Rightarrow> time_error + string" where
  "MarshalTime zone t =
     (let off = zone t; local = t + off * 10 ^ 9; secs = local div 10 ^ 9
      in case date_of_days (secs div 86400 + epoch_days) of
           (y, m, d) \<Rightarrow>
             if y < 0 \<or> 9999 < y then Inl YearOutOfRange
             else if 24 \<le> \<bar>off\<bar> div 3600 then Inl ZoneOutOfRange
             else Inr (pad 4 y @ CHR ''-'' # pad 2 m @ CHR ''-'' # pad 2 d @ CHR ''T'' #
                       clock_text (secs mod 86400) @ fraction_text (local mod 10 ^ 9) @ zone_text off))"

section \<open>Reading\<close>

definition num_between :: "int \<Rightarrow> int \<Rightarrow> string \<Rightarrow> int option" where
  "num_between lo hi s = do { x \<leftarrow> digits_val 0 s; if lo \<le> x \<and> x \<le> hi then Some x else None }"

definition nanos_val :: "string \<Rightarrow> int" where
  "nanos_val ds = (let d = take 9 ds in the (digits_val 0 d) * 10 ^ (9 - length d))"

definition parse_fraction :: "string \<Rightarrow> int \<times> string" where
  "parse_fraction s =
     (if 2 \<le> length s \<and> s ! 0 = CHR ''.'' \<and> is_digit (s ! 1)
      then (nanos_val (takeWhile is_digit (tl s)), dropWhile is_digit (tl s)) else (0, s))"

definition parse_zone :: "string \<Rightarrow> int option" where
  "parse_zone z =
     (if z = ''Z'' then Some 0
      else if length z \<noteq> 6 then None
      else do {
        hr \<leftarrow> num_between 0 23 (take 2 (drop 1 z));
        mm \<leftarrow> num_between 0 59 (drop 4 z);
        if (z ! 0 = CHR ''-'' \<or> z ! 0 = CHR ''+'') \<and> z ! 3 = CHR '':''
        then Some ((if z ! 0 = CHR ''-'' then -1 else 1) * ((hr * 60 + mm) * 60)) else None
      })"

definition parseRFC3339 :: "string \<Rightarrow> time option" where
  "parseRFC3339 s =
     (if length s < 19 then None
      else do {
        y \<leftarrow> num_between 0 9999 (take 4 s);
        m \<leftarrow> num_between 1 12 (take 2 (drop 5 s));
        d \<leftarrow> num_between 1 (month_lengths y ! nat (m - 1)) (take 2 (drop 8 s));
        h \<leftarrow> num_between 0 23 (take 2 (drop 11 s));
        mi \<leftarrow> num_between 0 59 (take 2 (drop 14 s));
        sec \<leftarrow> num_between 0 59 (take 2 (drop 17 s));
        if s ! 4 = CHR ''-'' \<and> s ! 7 = CHR ''-'' \<and> s ! 10 = CHR ''T'' \<and> s ! 13 = CHR '':'' \<and> s ! 16 = CHR '':''
        then (case parse_fraction (drop 19 s) of
                (ns, z) \<Rightarrow> map_option (\<lambda>off. ((days_of_date y m d - epoch_days) * 86400 + h * 3600 + mi * 60 + sec - off) * 10 ^ 9 + ns)
                             (parse_zone z))
        else None
      })"

section \<open>Round trip\<close>

lemma num_between_pad: "lo \<le> n \<Longrightarrow> n \<le> hi \<Longrightarrow> 0 \<le> n \<Longrightarrow> n < 10 ^ w \<Longrightarrow> num_between lo hi (pad w n) = Some n"
  using digits_val_pad [of n w 0] by (simp add: num_between_def)

text \<open>Dropping trailing zeros divides by a power of ten.\<close>

lemma trim_zeros_split: "s = trim_zeros s @ replicate (length s - length (trim_zeros s)) (CHR ''0'')"
proof -
  define z where "z = takeWhile (\<lambda>c. c = CHR ''0'') (rev s)"
  have "z = replicate (length z) (CHR ''0'')" unfolding z_def by (metis (full_types) replicate_length_same set_takeWhileD)
  moreover have "rev s = z @ rev (trim_zeros s)" by (simp add: z_def trim_zeros_def)
  then have "s = trim_zeros s @ rev z" by (metis rev_append rev_rev_ident)
  ultimately show ?thesis by (metis add_diff_cancel_left' length_append length_rev rev_replicate)
qed

lemma digits_val_zeros: "digits_val acc (replicate n (CHR ''0'')) = Some (acc * 10 ^ n)"
  by (induction n arbitrary: acc) (simp_all add: digit_of_def algebra_simps)

lemma nanos_val_trim:
  assumes "0 \<le> ns" "ns < 10 ^ 9"
  shows "nanos_val (trim_zeros (pad 9 ns)) = ns" "list_all is_digit (trim_zeros (pad 9 ns))" "trim_zeros (pad 9 ns) = [] \<Longrightarrow> ns = 0"
proof -
  let ?t = "trim_zeros (pad 9 ns)"
  note split = trim_zeros_split [of "pad 9 ns"]
  have len: "length ?t \<le> 9" using arg_cong [OF split, of length] by simp
  have "digits_val 0 (?t @ replicate (9 - length ?t) (CHR ''0'')) = Some ns"
    using digits_val_pad [OF assms, of 0] split by simp
  then obtain v where v: "digits_val 0 ?t = Some v" "v * 10 ^ (9 - length ?t) = ns"
    by (auto simp: digits_val_append digits_val_zeros bind_eq_Some_conv)
  with len show "nanos_val ?t = ns" by (simp add: nanos_val_def)
  show "list_all is_digit ?t" using pad_digits [of 9 ns] split by (metis list_all_append)
  show "ns = 0" if "?t = []" using v that by simp
qed

lemma parse_fraction_text:
  assumes "0 \<le> ns" "ns < 10 ^ 9" "z \<noteq> []" "\<not> is_digit (hd z)" "hd z \<noteq> CHR ''.''"
  shows "parse_fraction (fraction_text ns @ z) = (ns, z)"
proof (cases "ns = 0")
  case True
  with assms(3,5) show ?thesis by (cases z) (simp_all add: fraction_text_def parse_fraction_def)
next
  case False
  let ?t = "trim_zeros (pad 9 ns)"
  note t = nanos_val_trim [OF assms(1,2)]
  from False t(3) obtain c cs where c: "?t = c # cs" by (cases ?t) auto
  have "takeWhile is_digit (?t @ z) = ?t" "dropWhile is_digit (?t @ z) = z"
    using t(2) assms(3,4) by (auto simp: list_all_iff takeWhile_append dropWhile_append takeWhile_eq_all_conv neq_Nil_conv)
  with False t(1,2) c show ?thesis by (simp add: fraction_text_def parse_fraction_def)
qed

lemma parse_zone_text:
  assumes "\<bar>off\<bar> div 3600 < 24" "off mod 60 = 0"
  shows "parse_zone (zone_text off) = Some off"
proof (cases "off = 0")
  case False
  obtain k where k: "off = 60 * k" using assms(2) by auto
  then have z: "sgn off * (\<bar>off\<bar> div 60) = k" "\<bar>off\<bar> div 3600 = \<bar>k\<bar> div 60"
    by (simp_all add: abs_mult sgn_mult sgn_mult_abs flip: div_mult2_eq)
  have "num_between 0 23 (pad 2 (\<bar>k\<bar> div 60)) = Some (\<bar>k\<bar> div 60)" "num_between 0 59 (pad 2 (\<bar>k\<bar> mod 60)) = Some (\<bar>k\<bar> mod 60)"
    using assms(1) z(2) by (auto intro!: num_between_pad simp: pos_imp_zdiv_nonneg_iff)
  moreover have "zone_text off = (if k < 0 then CHR ''-'' else CHR ''+'') # pad 2 (\<bar>k\<bar> div 60) @ CHR '':'' # pad 2 (\<bar>k\<bar> mod 60)"
    using False unfolding zone_text_def z(1) by (simp add: Let_def)
  moreover have "(\<bar>k\<bar> div 60 * 60 + \<bar>k\<bar> mod 60) * 60 = 60 * \<bar>k\<bar>" by simp
  ultimately show ?thesis
    by (simp add: parse_zone_def nth_append k del: distrib_right_numeral)
qed (simp add: zone_text_def parse_zone_def)

lemma text_layout:
  assumes "length a = 4" "length b = 2" "length c = 2" "length e = 2" "length f = 2" "length g = 2"
    and "s = a @ CHR ''-'' # b @ CHR ''-'' # c @ CHR ''T'' # e @ CHR '':'' # f @ CHR '':'' # g @ rest"
  shows "\<not> length s < 19" "take 4 s = a" "take 2 (drop 5 s) = b" "take 2 (drop 8 s) = c" "take 2 (drop 11 s) = e" "take 2 (drop 14 s) = f"
    "take 2 (drop 17 s) = g" "drop 19 s = rest"
    "s ! 4 = CHR ''-'' \<and> s ! 7 = CHR ''-'' \<and> s ! 10 = CHR ''T'' \<and> s ! 13 = CHR '':'' \<and> s ! 16 = CHR '':''"
  using assms by (simp_all add: nth_append)

text \<open>What \<open>MarshalJSON\<close> wrote is read back as the same instant when the offset of the zone has no
  seconds.\<close>

lemma parse_MarshalTime:
  assumes "MarshalTime zone t = Inr out" "zone t mod 60 = 0"
  shows "parseRFC3339 out = Some t"
proof -
  define off loc secs where defs: "off = zone t" "loc = t + off * 10 ^ 9" "secs = loc div 10 ^ 9"
  obtain y m d where date: "date_of_days (secs div 86400 + epoch_days) = (y, m, d)" by (metis prod_cases3)
  define clock where "clock = secs mod 86400"
  from assms(1) date have y: "0 \<le> y" "y \<le> 9999" "\<bar>off\<bar> div 3600 < 24" and
    out: "out = pad 4 y @ CHR ''-'' # pad 2 m @ CHR ''-'' # pad 2 d @ CHR ''T'' #
      clock_text clock @ fraction_text (loc mod 10 ^ 9) @ zone_text off"
    by (auto simp: MarshalTime_def Let_def defs clock_def split: if_splits)
  note dd = days_of_date_of_days [OF date]
  have "month_lengths y ! nat (m - 1) \<le> 31"
  proof -
    have "list_all (\<lambda>n. n \<le> 31) (month_lengths y)" "length (month_lengths y) = 12" by (simp_all add: month_lengths_def)
    with dd(2,3) show ?thesis by (simp add: list_all_length)
  qed
  then have nums: "num_between 0 9999 (pad 4 y) = Some y" "num_between 1 12 (pad 2 m) = Some m"
    "num_between 1 (month_lengths y ! nat (m - 1)) (pad 2 d) = Some d"
    using y dd by (auto intro!: num_between_pad)
  have c: "0 \<le> clock" "clock < 86400" by (simp_all add: clock_def)
  then have clk: "num_between 0 23 (pad 2 (clock div 3600)) = Some (clock div 3600)"
    "num_between 0 59 (pad 2 (clock div 60 mod 60)) = Some (clock div 60 mod 60)"
    "num_between 0 59 (pad 2 (clock mod 60)) = Some (clock mod 60)"
    by (auto intro!: num_between_pad simp: pos_imp_zdiv_nonneg_iff)
  have "clock div 3600 = clock div 60 div 60" using zdiv_zmult2_eq [of 60 clock 60] by simp
  moreover have "clock div 60 div 60 * 60 + clock div 60 mod 60 = clock div 60" "clock div 60 * 60 + clock mod 60 = clock" by simp_all
  ultimately have "clock div 3600 * 3600 + clock div 60 mod 60 * 60 + clock mod 60 = clock" by linarith
  moreover have "secs div 86400 * 86400 + clock = secs" by (simp add: clock_def)
  ultimately have sum: "(secs div 86400) * 86400 + clock div 3600 * 3600 + clock div 60 mod 60 * 60 + clock mod 60 = secs" by linarith
  have "secs * 10 ^ 9 + loc mod 10 ^ 9 = loc" by (simp add: defs(3))
  then have clock: "((secs div 86400) * 86400 + clock div 3600 * 3600 + clock div 60 mod 60 * 60 + clock mod 60 - off) * 10 ^ 9
      + loc mod 10 ^ 9 = t"
    unfolding sum left_diff_distrib using defs(2) by linarith
  have tail: "parse_fraction (fraction_text (loc mod 10 ^ 9) @ zone_text off) = (loc mod 10 ^ 9, zone_text off)"
    by (rule parse_fraction_text) (simp_all add: zone_text_def Let_def is_digit_def digit_of_def)
  have "parse_zone (zone_text off) = Some off" using parse_zone_text [of off] y(3) assms(2) by (simp add: defs)
  note parts = nums clk tail this
  note lay = text_layout [OF length_pad length_pad length_pad length_pad length_pad length_pad, of out y m d "clock div 3600"
      "clock div 60 mod 60" "clock mod 60" "fraction_text (loc mod 10 ^ 9) @ zone_text off"]
  have "out = pad 4 y @ CHR ''-'' # pad 2 m @ CHR ''-'' # pad 2 d @ CHR ''T'' # pad 2 (clock div 3600) @ CHR '':'' #
      pad 2 (clock div 60 mod 60) @ CHR '':'' # pad 2 (clock mod 60) @ fraction_text (loc mod 10 ^ 9) @ zone_text off"
    unfolding out clock_text_def by simp
  note lay = lay [OF this]
  have "parseRFC3339 out = Some (((days_of_date y m d - epoch_days) * 86400 + clock div 3600 * 3600 + clock div 60 mod 60 * 60
      + clock mod 60 - off) * 10 ^ 9 + loc mod 10 ^ 9)"
    unfolding parseRFC3339_def
    by (simp only: lay parts if_False bind.bind_lunit prod.case option.map simp_thms if_True)
  then show ?thesis unfolding dd(1) add_diff_cancel_right' clock .
qed

section \<open>The lenient reading\<close>

text \<open>\<open>time.Parse(time.RFC3339, s)\<close> reads the strict form first. What that does not take it reads
  along the layout: an hour may have one digit, a comma may start the fraction, and an offset
  may be of up to 24 hours and 60 minutes.\<close>

definition get_num :: "bool \<Rightarrow> string \<Rightarrow> (int \<times> string) option" where
  "get_num fixed s =
     (if s = [] \<or> \<not> is_digit (s ! 0) then None
      else if 2 \<le> length s \<and> is_digit (s ! 1) then Some (the (digits_val 0 (take 2 s)), drop 2 s)
      else if fixed then None else Some (the (digits_val 0 (take 1 s)), drop 1 s))"

definition num_in :: "bool \<Rightarrow> int \<Rightarrow> int \<Rightarrow> string \<Rightarrow> (int \<times> string) option" where
  "num_in fixed lo hi s = do { (x, s) \<leftarrow> get_num fixed s; if lo \<le> x \<and> x \<le> hi then Some (x, s) else None }"

definition skip_char :: "char \<Rightarrow> string \<Rightarrow> string option" where
  "skip_char c s = (if s \<noteq> [] \<and> hd s = c then Some (tl s) else None)"

definition lenient_fraction :: "string \<Rightarrow> int \<times> string" where
  "lenient_fraction s =
     (if 2 \<le> length s \<and> (s ! 0 = CHR ''.'' \<or> s ! 0 = CHR '','') \<and> is_digit (s ! 1)
      then (nanos_val (takeWhile is_digit (tl s)), dropWhile is_digit (tl s)) else (0, s))"

definition lenient_zone :: "string \<Rightarrow> (int \<times> string) option" where
  "lenient_zone s =
     (if s \<noteq> [] \<and> hd s = CHR ''Z'' then Some (0, tl s)
      else if length s < 6 \<or> s ! 3 \<noteq> CHR '':'' then None
      else do {
        (hr, _) \<leftarrow> num_in True 0 24 (take 2 (drop 1 s));
        (mm, _) \<leftarrow> num_in True 0 60 (take 2 (drop 4 s));
        let off = (hr * 60 + mm) * 60;
        if s ! 0 = CHR ''+'' then Some (off, drop 6 s) else if s ! 0 = CHR ''-'' then Some (- off, drop 6 s) else None
      })"

definition parse_layout :: "string \<Rightarrow> time option" where
  "parse_layout s = do {
     y \<leftarrow> (if length s < 4 then None else digits_val 0 (take 4 s));
     s \<leftarrow> skip_char (CHR ''-'') (drop 4 s);
     (m, s) \<leftarrow> num_in True 1 12 s;
     s \<leftarrow> skip_char (CHR ''-'') s;
     (d, s) \<leftarrow> get_num True s;
     s \<leftarrow> skip_char (CHR ''T'') s;
     (h, s) \<leftarrow> num_in False 0 23 s;
     s \<leftarrow> skip_char (CHR '':'') s;
     (mi, s) \<leftarrow> num_in True 0 59 s;
     s \<leftarrow> skip_char (CHR '':'') s;
     (sec, s) \<leftarrow> num_in True 0 59 s;
     let (ns, s) = lenient_fraction s;
     (off, s) \<leftarrow> lenient_zone s;
     if s = [] \<and> 1 \<le> d \<and> d \<le> month_lengths y ! nat (m - 1)
     then Some (((days_of_date y m d - epoch_days) * 86400 + h * 3600 + mi * 60 + sec - off) * 10 ^ 9 + ns) else None
   }"

definition time_Parse :: "string \<Rightarrow> time option" where
  "time_Parse s = (case parseRFC3339 s of Some t \<Rightarrow> Some t | None \<Rightarrow> parse_layout s)"

lemma time_Parse_Marshal: "MarshalTime zone t = Inr s \<Longrightarrow> zone t mod 60 = 0 \<Longrightarrow> time_Parse s = Some t"
  by (simp add: time_Parse_def parse_MarshalTime)

end
