(* ===== verification/Web_Files.thy ===== *)
theory Web_Files
  imports Go_Strings
begin

text \<open>
  The embedded interface of \<open>web/embed.go\<close> and the file server over it: the tree that
  \<open>go:embed\<close> puts into the binary, \<open>fs.ValidPath\<close>, \<open>fs.Sub\<close> and \<open>fs.Stat\<close>, \<open>path.Clean\<close> and
  \<open>path.Base\<close>, and which file, listing, redirect or error \<open>http.FileServer\<close> answers a path
  with. How a page is rendered (types, ranges, caching) is left to the library.
\<close>

section \<open>Paths\<close>

abbreviation slash :: char where "slash \<equiv> CHR ''/''"

text \<open>\<open>Clean\<close> works on the elements of a path: it drops empty ones and dots and lets two dots
  take back the element before them.\<close>

fun clean_elems :: "bool \<Rightarrow> string list \<Rightarrow> string list \<Rightarrow> string list" where
  "clean_elems rooted out [] = rev out"
| "clean_elems rooted out (e # es) =
     (if e = '''' \<or> e = ''.'' then clean_elems rooted out es
      else if e = ''..'' then
        (case out of
           [] \<Rightarrow> clean_elems rooted (if rooted then [] else [e]) es
         | p # ps \<Rightarrow> clean_elems rooted (if p = ''..'' then e # out else ps) es)
      else clean_elems rooted (e # out) es)"

definition path_Clean :: "string \<Rightarrow> string" where
  "path_Clean p =
     (let rooted = prefix ''/'' p; q = Join (clean_elems rooted [] (Split p ''/'')) ''/''
      in if rooted then slash # q else if q = '''' then ''.'' else q)"

definition path_Join :: "string \<Rightarrow> string \<Rightarrow> string" where
  "path_Join dir name = (if dir = '''' \<and> name = '''' then '''' else path_Clean (Join (filter (\<lambda>e. e \<noteq> '''') [dir, name]) ''/''))"

definition path_Base :: "string \<Rightarrow> string" where
  "path_Base p =
     (if p = '''' then ''.''
      else let e = takeWhile (\<lambda>c. c \<noteq> slash) (dropWhile (\<lambda>c. c = slash) (rev p)) in if e = '''' then ''/'' else rev e)"

section \<open>File systems\<close>

datatype fs_error = ErrInvalid | ErrNotExist

datatype node = Dir | File string

text \<open>A file system by its \<open>Open\<close>; what the code then does with a file (\<open>Stat\<close>, reading it)
  cannot fail on an embedded one.\<close>

type_synonym fs = "string \<Rightarrow> fs_error + node"

definition valid_elem :: "string \<Rightarrow> bool" where
  "valid_elem e \<longleftrightarrow> e \<notin> {'''', ''.'', ''..''}"

definition ValidPath :: "string \<Rightarrow> bool" where
  "ValidPath name \<longleftrightarrow> valid_text name \<and> (name = ''.'' \<or> list_all valid_elem (Split name ''/''))"

text \<open>The files and directories that were embedded, by their path in the package.\<close>

type_synonym embedded = "(string, node) fmap"

definition embed_Open :: "embedded \<Rightarrow> fs" where
  "embed_Open b name =
     (if \<not> ValidPath name then Inl ErrNotExist
      else if name = ''.'' then Inr Dir
      else (case fmlookup b name of None \<Rightarrow> Inl ErrNotExist | Some n \<Rightarrow> Inr n))"

definition fs_Sub :: "fs \<Rightarrow> string \<Rightarrow> fs_error + fs" where
  "fs_Sub f dir =
     (if \<not> ValidPath dir then Inl ErrInvalid
      else if dir = ''.'' then Inr f
      else Inr (\<lambda>name. if \<not> ValidPath name then Inl ErrInvalid else f (path_Join dir name)))"

definition DistFS :: "embedded \<Rightarrow> fs_error + fs" where
  "DistFS b = fs_Sub (embed_Open b) ''dist''"

section \<open>The file server\<close>

datatype page = Content string string | Listing string | Moved string | Failed int

text \<open>\<open>http.FS\<close>: the paths of a URL start with a slash. A file on the way makes any other error
  one of a file that is not there.\<close>

primrec file_above :: "fs \<Rightarrow> string list \<Rightarrow> string list \<Rightarrow> bool" where
  "file_above ui seen [] = False"
| "file_above ui seen (e # es) =
     (if e = '''' then file_above ui (seen @ [e]) es
      else (case ui (Join (seen @ [e]) ''/'') of
              Inl _ \<Rightarrow> False
            | Inr (File _) \<Rightarrow> True
            | Inr Dir \<Rightarrow> file_above ui (seen @ [e]) es))"

definition http_Open :: "fs \<Rightarrow> string \<Rightarrow> fs_error + node" where
  "http_Open ui path =
     (let name = (if path = ''/'' then ''.'' else fst (CutPrefix path ''/''))
      in case ui name of
           Inr n \<Rightarrow> Inr n
         | Inl ErrNotExist \<Rightarrow> Inl ErrNotExist
         | Inl ErrInvalid \<Rightarrow> Inl (if file_above ui [] (Split name ''/'') then ErrNotExist else ErrInvalid))"

definition TrimSuffix :: "string \<Rightarrow> string \<Rightarrow> string" where
  "TrimSuffix s suf = (if HasSuffix s suf then take (length s - length suf) s else s)"

definition serveFile :: "fs \<Rightarrow> string \<Rightarrow> page" where
  "serveFile ui url =
     (let name = path_Clean url; at_slash = HasSuffix url ''/''
      in if HasSuffix url ''/index.html'' then Moved ''./''
         else case http_Open ui name of
           Inl ErrNotExist \<Rightarrow> Failed 404
         | Inl ErrInvalid \<Rightarrow> Failed 500
         | Inr (File c) \<Rightarrow>
             if \<not> at_slash then Content name c
             else let base = path_Base url in if base = ''/'' \<or> base = ''.'' then Failed 500 else Moved (''../'' @ base)
         | Inr Dir \<Rightarrow>
             if \<not> at_slash then Moved (path_Base url @ ''/'')
             else let index = TrimSuffix name ''/'' @ ''/index.html''
                  in case http_Open ui index of
                       Inr (File c) \<Rightarrow> Content index c
                     | Inr Dir \<Rightarrow> Listing index
                     | Inl _ \<Rightarrow> Listing name)"

definition FileServer :: "fs \<Rightarrow> string \<Rightarrow> page" where
  "FileServer ui path = serveFile ui (if prefix ''/'' path then path else slash # path)"

section \<open>Elements of a valid path\<close>

lemma str_index_char: "c \<notin> set a \<Longrightarrow> str_index (a @ c # b) [c] = Some (length a)" "c \<notin> set a \<Longrightarrow> str_index a [c] = None"
  by (induction a) auto

lemma Split_step: "c \<notin> set a \<Longrightarrow> Split (a @ c # b) [c] = a # Split b [c]"
  unfolding Split_def by (subst split_on.simps) (simp add: str_index_char)

lemma Split_one: "c \<notin> set a \<Longrightarrow> Split a [c] = [a]"
  unfolding Split_def by (subst split_on.simps) (simp add: str_index_char)

lemma Split_append: "Split (a @ c # b) [c] = Split a [c] @ Split b [c]"
proof (induction "length a" arbitrary: a rule: less_induct)
  case less
  show ?case
  proof (cases "c \<in> set a")
    case True
    then obtain u v where "a = u @ c # v" "c \<notin> set u" by (metis split_list_first)
    with less [of v] show ?thesis by (simp add: Split_step)
  qed (simp add: Split_step Split_one)
qed

lemma Join_Split [simp]: "Join (Split s [c]) [c] = s"
  by (simp add: Split_def Join_split_on)

lemma Split_not_Nil [simp]: "Split s [c] \<noteq> []"
  by (simp add: Split_def)

text \<open>The path of an element below the root.\<close>

definition below :: "string \<Rightarrow> bool" where
  "below f \<longleftrightarrow> ValidPath f \<and> f \<noteq> ''.''"

lemma below_elems: "below f \<Longrightarrow> list_all valid_elem (Split f ''/'')"
  by (auto simp: below_def ValidPath_def)

lemma below_plain: "below f \<Longrightarrow> \<not> prefix ''/'' f \<and> \<not> HasSuffix f ''/'' \<and> f \<noteq> ''''"
  using below_elems [of f] Split_append [of "[]" slash] Split_append [of _ slash "[]"]
  by (auto simp: prefix_def suffix_def Split_one valid_elem_def)

lemma clean_valid: "list_all valid_elem es \<Longrightarrow> set ends \<subseteq> {''''} \<Longrightarrow> clean_elems rooted out (es @ ends) = rev out @ es"
proof (induction es arbitrary: out)
  case Nil
  then show ?case by (induction ends) auto
qed (auto simp: valid_elem_def)

lemma Clean_below:
  assumes "below f"
  shows "path_Clean (slash # f) = slash # f" "path_Clean (slash # f @ ''/'') = slash # f"
proof -
  have "Split (slash # f) ''/'' = '''' # Split f ''/''" "Split (slash # f @ ''/'') ''/'' = '''' # Split f ''/'' @ ['''']"
    using Split_append [of "[]" slash] Split_append [of f slash "[]"] by (simp_all add: Split_one)
  then show "path_Clean (slash # f) = slash # f" "path_Clean (slash # f @ ''/'') = slash # f"
    using clean_valid [OF below_elems [OF assms], of "[]"] clean_valid [OF below_elems [OF assms], of "['''']"]
    by (simp_all add: path_Clean_def)
qed

lemma valid_text_ascii: "byte_val c < 128 \<Longrightarrow> valid_text f \<Longrightarrow> valid_text (c # f)"
  by (simp add: valid_text_def runes_of_def dec_all.simps [of "byte_val c # _"] enc_rune_ascii)

lemma valid_text_dist: "valid_text f \<Longrightarrow> valid_text (''dist/'' @ f)"
  by (simp add: valid_text_ascii)

lemma below_dist:
  assumes "below f"
  shows "path_Join ''dist'' f = ''dist/'' @ f" "below (''dist/'' @ f)"
proof -
  have s: "Split (''dist/'' @ f) ''/'' = ''dist'' # Split f ''/''" using Split_append [of "''dist''" slash f] by (simp add: Split_one)
  then show "path_Join ''dist'' f = ''dist/'' @ f"
    using clean_valid [of "''dist'' # Split f ''/''" "[]"] below_elems [OF assms] below_plain [OF assms]
    by (simp add: path_Join_def path_Clean_def valid_elem_def Join_Cons)
  show "below (''dist/'' @ f)"
    using s below_elems [OF assms] assms valid_text_dist by (simp add: below_def ValidPath_def valid_elem_def)
qed

section \<open>The pages of the interface\<close>

definition trimLeadingSlash :: "string \<Rightarrow> string" where
  "trimLeadingSlash p = (if length p > 0 \<and> p ! 0 = CHR ''/'' then drop 1 p else p)"

text \<open>The path the handler asks the file server for.\<close>

definition spa_path :: "fs \<Rightarrow> string \<Rightarrow> string" where
  "spa_path ui p = (if p \<noteq> ''/'' \<and> ui (trimLeadingSlash p) = Inl ErrNotExist then ''/'' else p)"

text \<open>What the build must have put there; the repository commits an index for that reason.\<close>

definition built_ui :: "embedded \<Rightarrow> string \<Rightarrow> bool" where
  "built_ui b index \<longleftrightarrow> fmlookup b ''dist'' = Some Dir \<and> fmlookup b ''dist/index.html'' = Some (File index)"

definition dist :: "embedded \<Rightarrow> fs" where
  "dist b name = (if \<not> ValidPath name then Inl ErrInvalid else embed_Open b (path_Join ''dist'' name))"

lemma DistFS_dist [simp]: "DistFS b = Inr (dist b)"
proof -
  have "ValidPath ''dist''" by code_simp
  then show ?thesis by (simp add: DistFS_def fs_Sub_def dist_def [abs_def])
qed

lemma dist_below: "below f \<Longrightarrow> dist b f = (case fmlookup b (''dist/'' @ f) of None \<Rightarrow> Inl ErrNotExist | Some n \<Rightarrow> Inr n)"
  using below_dist [of f] by (auto simp: dist_def embed_Open_def below_def)

lemma dist_root: "dist b ''.'' = (case fmlookup b ''dist'' of None \<Rightarrow> Inl ErrNotExist | Some n \<Rightarrow> Inr n)"
proof -
  have "path_Join ''dist'' ''.'' = ''dist''" "ValidPath ''.''" "ValidPath ''dist''" by code_simp+
  then show ?thesis by (simp add: dist_def embed_Open_def)
qed

lemma dist_file: "fmlookup b ''dist'' = Some Dir \<Longrightarrow> dist b name = Inr (File c) \<Longrightarrow> fmlookup b (''dist/'' @ name) = Some (File c)"
  using dist_root [of b] dist_below [of name b] by (cases "name = ''.''") (auto simp: below_def dist_def split: if_splits option.splits)

lemma http_Open_below: "below f \<Longrightarrow> http_Open (dist b) (slash # f) = dist b f"
  using below_plain [of f] by (auto simp: http_Open_def Let_def dist_below CutPrefix_def split: option.splits)

lemma http_Open_file: "http_Open ui path = Inr n \<Longrightarrow> path \<noteq> ''/'' \<Longrightarrow> ui (fst (CutPrefix path ''/'')) = Inr n"
  by (auto simp: http_Open_def Let_def split: sum.splits fs_error.splits if_splits)

lemma index_page: "built_ui b index \<Longrightarrow> FileServer (dist b) ''/'' = Content ''/index.html'' index"
proof -
  assume b: "built_ui b index"
  have i: "below ''index.html''" "path_Clean ''/'' = ''/''" "TrimSuffix ''/'' ''/'' = ''''" "\<not> HasSuffix ''/'' ''/index.html''"
    "HasSuffix ''/'' ''/''" by code_simp+
  have "http_Open (dist b) ''/'' = Inr Dir" using b dist_root [of b] by (simp add: http_Open_def built_ui_def)
  moreover have "http_Open (dist b) ''/index.html'' = Inr (File index)"
    using b http_Open_below [OF i(1)] dist_below [OF i(1)] by (simp add: built_ui_def)
  ultimately show ?thesis using i by (simp add: FileServer_def serveFile_def Let_def)
qed

text \<open>Nothing but the files below \<open>dist\<close>.\<close>

lemma serves_below:
  assumes "fmlookup b ''dist'' = Some Dir" "FileServer (dist b) p = Content name c"
  shows "\<exists>f. name = slash # f \<and> fmlookup b (''dist/'' @ f) = Some (File c)"
proof -
  let ?ui = "dist b"
  have opened: "\<exists>f. path = slash # f \<and> fmlookup b (''dist/'' @ f) = Some (File c)"
    if "http_Open ?ui path = Inr (File c)" "prefix ''/'' path" for path
  proof -
    from that(2) obtain f where f: "path = slash # f" by (auto simp: prefix_def)
    have "?ui ''.'' = Inr Dir" using assms(1) by (simp add: dist_root)
    then have "path \<noteq> ''/''" using that(1) by (auto simp: http_Open_def)
    from dist_file [OF assms(1) http_Open_file [OF that(1) this]] f show ?thesis by (simp add: CutPrefix_def)
  qed
  define url where "url = (if prefix ''/'' p then p else slash # p)"
  have "prefix ''/'' url" by (simp add: url_def)
  then have clean: "prefix ''/'' (path_Clean url)" by (simp add: path_Clean_def Let_def)
  then have "prefix ''/'' (TrimSuffix (path_Clean url) ''/'' @ ''/index.html'')"
    by (cases "path_Clean url") (auto simp: TrimSuffix_def take_Cons')
  moreover have "serveFile ?ui url = Content name c" using assms(2) by (simp add: FileServer_def url_def)
  ultimately have "http_Open ?ui name = Inr (File c) \<and> prefix ''/'' name"
    using clean by (auto simp: serveFile_def Let_def split: if_splits sum.splits fs_error.splits node.splits)
  then show ?thesis using opened by blast
qed

lemma serves_element:
  assumes "below f"
  shows "FileServer (dist b) (slash # f) =
    (if HasSuffix (slash # f) ''/index.html'' then Moved ''./''
     else (case fmlookup b (''dist/'' @ f) of
             None \<Rightarrow> Failed 404
           | Some (File c) \<Rightarrow> Content (slash # f) c
           | Some Dir \<Rightarrow> Moved (path_Base (slash # f) @ ''/'')))"
  using below_plain [OF assms] Clean_below [OF assms] http_Open_below [OF assms, of b] dist_below [OF assms, of b]
  by (auto simp: FileServer_def serveFile_def Let_def suffix_Cons split: option.splits node.splits)

lemma below_slash: "below f \<Longrightarrow> \<not> ValidPath (f @ ''/'')"
  using Split_append [of f slash "[]"] by (auto simp: ValidPath_def Split_one valid_elem_def below_def)

lemma serves_slash:
  assumes "below f" "fmlookup b (''dist/'' @ f) = None"
  shows "FileServer (dist b) (slash # f @ ''/'') = Failed 404"
  using below_plain [OF assms(1)] Clean_below [OF assms(1)] http_Open_below [OF assms(1), of b] dist_below [OF assms(1), of b] assms(2)
  by (auto simp: FileServer_def serveFile_def Let_def suffix_Cons split: option.splits node.splits)

end
