(* ===== verification/Api.thy ===== *)
theory Api
  imports Poller Pg Metrics Stream_Api Rfc3339 Web_Files
begin

text \<open>
  Package \<open>internal/api\<close>: the HTTP surface. \<open>app\<close> is the state the handlers share (the
  poller with its store, and the signal service with the audit sink); \<open>deps\<close> holds what a
  request depends on besides it: the operations behind the interfaces, the identity, the clock,
  the files of the interface, and the router of chi, of which only the endpoint and the path parameter
  matter here. \<open>serve\<close> wraps each handler in the middleware the route table gives it.
\<close>

section \<open>State, endpoints, bodies\<close>

record ('p, 'd, 'k) app =
  app_poller :: "'p poller"
  app_svc :: "('d, 'k, metrics) service"

datatype endpoint = Healthz | MetricsPage | Me | Clusters | SnapshotPage | HistoryPage | Stream | LocksPage
  | HotObjectsPage | CancelSession | TerminateSession | AuditPage | Spa

datatype json =
    JHealth string bool time
  | JPrincipal principal
  | JStatuses "poll_status list"
  | JSnapshot snapshot
  | JMetas "meta list"
  | JEntries "entry list"
  | JLocks "lock_row list"
  | JHotObjects "hot_object list"
  | JResult signal_result
  | JSignalError string signal_result
  | JFamilies "family list"
  | JFrames "snapshot list"

record ('p, 'd, 'k) deps =
  dp_ops :: "'p persister"
  dp_sig :: "'d signaler"
  dp_rec :: "entry \<Rightarrow> 'k \<Rightarrow> (string option \<times> 'k) option"
  dp_recent :: "int \<Rightarrow> 'k \<Rightarrow> (string + entry list) option"
  dp_identity :: identity
  dp_now :: time
  dp_pool :: pg_pool
  dp_route :: "request \<Rightarrow> endpoint option"
  dp_URLParam :: "string \<Rightarrow> string"
  dp_unrouted :: "json response"
  dp_metrics :: "(string \<times> (family list \<Rightarrow> json response)) option"
  dp_ui :: fs
  dp_page :: "page \<Rightarrow> request \<Rightarrow> json response"
  dp_ordC :: "int fset \<Rightarrow> int list"
  dp_wsRejected :: "json response option"
  dp_wsEarly :: "snapshot list"
  dp_wsFirst :: bool
  dp_wsEvents :: "ws_event list"

definition writeJSON :: "int \<Rightarrow> json \<Rightarrow> json response" where
  "writeJSON status v = \<lparr>resp_Status = status, resp_Header = [(''Content-Type'', ''application/json'')], resp_Body = JSON v\<rparr>"

definition quoted :: "string \<Rightarrow> string" where
  "quoted w = [CHR 0x27] @ w @ [CHR 0x27]"

section \<open>Handlers\<close>

type_synonym ('p, 'd, 'k) api_handler = "(('p, 'd, 'k) app, json) handler"

definition handleHealthz :: "('p, 'd, 'k) api_handler" where
  "handleHealthz r s =
     (let st = Status (app_poller s); code = (if \<not> ps_Connected st then 503 else 200)
      in Some (s, writeJSON code (JHealth (if ps_Connected st then ''ok'' else ''degraded'') (ps_Connected st) (ps_LastPoll st))))"

definition handleMe :: "('p, 'd, 'k) api_handler" where
  "handleMe r s =
     (case PrincipalFrom r of
        None \<Rightarrow> Some (s, http_Error ''unauthorized'' 401)
      | Some p \<Rightarrow> Some (s, writeJSON 200 (JPrincipal p)))"

definition handleClusters :: "('p, 'd, 'k) api_handler" where
  "handleClusters r s = Some (s, writeJSON 200 (JStatuses [Status (app_poller s)]))"

definition set_store :: "'p store \<Rightarrow> ('p, 'd, 'k) app \<Rightarrow> ('p, 'd, 'k) app" where
  "set_store st s = s\<lparr>app_poller := (app_poller s)\<lparr>pl_store := st\<rparr>\<rparr>"

definition handleSnapshot :: "('p, 'd, 'k) deps \<Rightarrow> ('p, 'd, 'k) api_handler" where
  "handleSnapshot dp r s =
     (let at = Query_Get r ''at''
      in if at \<noteq> '''' then
           (case time_Parse at of
              None \<Rightarrow> Some (s, http_Error (''invalid '' @ quoted ''at'' @ '' timestamp (want RFC3339)'') 400)
            | Some t \<Rightarrow>
                (case At (dp_ops dp) t (pl_store (app_poller s)) of
                   None \<Rightarrow> None
                 | Some (st, snap, ok) \<Rightarrow>
                     Some (set_store st s,
                           if \<not> ok then http_Error ''no snapshot available'' 404 else writeJSON 200 (JSnapshot snap))))
         else
           (case Latest (pl_store (app_poller s)) of
              None \<Rightarrow> None
            | Some (snap, ok) \<Rightarrow>
                Some (s, if \<not> ok then http_Error ''no snapshot available yet'' 503 else writeJSON 200 (JSnapshot snap))))"

definition parseOptTime :: "string \<Rightarrow> time option" where
  "parseOptTime v = (if v = '''' then Some zero_time else time_Parse v)"

definition handleHistory :: "('p, 'd, 'k) deps \<Rightarrow> ('p, 'd, 'k) api_handler" where
  "handleHistory dp r s =
     (case parseOptTime (Query_Get r ''from'') of
        None \<Rightarrow> Some (s, http_Error (''invalid '' @ quoted ''from'' @ '' timestamp (want RFC3339)'') 400)
      | Some from \<Rightarrow>
          (case parseOptTime (Query_Get r ''to'') of
             None \<Rightarrow> Some (s, http_Error (''invalid '' @ quoted ''to'' @ '' timestamp (want RFC3339)'') 400)
           | Some to \<Rightarrow>
               (case History (dp_ops dp) from to (pl_store (app_poller s)) of
                  None \<Rightarrow> None
                | Some (st, metas) \<Rightarrow> Some (set_store st s, writeJSON 200 (JMetas metas)))))"

definition handleAudit :: "('p, 'd, 'k) deps \<Rightarrow> ('p, 'd, 'k) api_handler" where
  "handleAudit dp r s =
     (let v = Query_Get r ''limit'';
          limit = (if v = '''' then Some 100
                   else case Atoi v of None \<Rightarrow> None | Some n \<Rightarrow> if n < 1 then None else Some n)
      in case limit of
           None \<Rightarrow> Some (s, http_Error (''invalid '' @ quoted ''limit'') 400)
         | Some l \<Rightarrow>
             (case svc_sink (app_svc s) of
                None \<Rightarrow> None
              | Some k \<Rightarrow>
                  (case dp_recent dp l k of
                     None \<Rightarrow> None
                   | Some (Inl err) \<Rightarrow> Some (s, http_Error err 500)
                   | Some (Inr entries) \<Rightarrow> Some (s, writeJSON 200 (JEntries entries)))))"

definition handleLocks :: "('p, 'd, 'k) deps \<Rightarrow> ('p, 'd, 'k) api_handler" where
  "handleLocks dp r s =
     (case Locks (dp_pool dp) of
        Inl err \<Rightarrow> Some (s, http_Error err 502)
      | Inr rows \<Rightarrow> Some (s, writeJSON 200 (JLocks rows)))"

definition handleHotObjects :: "('p, 'd, 'k) deps \<Rightarrow> ('p, 'd, 'k) api_handler" where
  "handleHotObjects dp r s =
     (case HotObjects (dp_pool dp) of
        Inl err \<Rightarrow> Some (s, http_Error err 502)
      | Inr objs \<Rightarrow> Some (s, writeJSON 200 (JHotObjects objs)))"

text \<open>The closure \<open>lookup\<close> of \<open>run\<close> in \<open>main.go\<close>: the victim's query from the latest
  snapshot. A session that is not in the snapshot reads as the zero session.\<close>

definition lookup_query :: "'p store \<Rightarrow> int \<Rightarrow> string \<times> bool" where
  "lookup_query st pid =
     (case Latest st of
        Some (snap, True) \<Rightarrow>
          (case fmlookup (snap_Sessions snap) pid of None \<Rightarrow> ('''', False) | Some sess \<Rightarrow> (sess_Query sess, True))
      | _ \<Rightarrow> ('''', False))"

definition doSignal :: "('p, 'd, 'k) deps \<Rightarrow> string \<Rightarrow> ('p, 'd, 'k) api_handler" where
  "doSignal dp action r s =
     (case Atoi (dp_URLParam dp (req_Path r)) of
        None \<Rightarrow> Some (s, http_Error ''invalid pid'' 400)
      | Some pid \<Rightarrow>
          let actor = (case PrincipalFrom r of None \<Rightarrow> ''unknown'' | Some p \<Rightarrow> pr_Name p)
          in case Do (dp_sig dp) (Some (lookup_query (pl_store (app_poller s)))) (dp_rec dp) ObserveAction (dp_now dp)
                    action pid actor (app_svc s) of
               None \<Rightarrow> None
             | Some (svc, res, err) \<Rightarrow>
                 Some (s\<lparr>app_svc := svc\<rparr>,
                       case err of
                         Some e \<Rightarrow> writeJSON 502 (JSignalError e res)
                       | None \<Rightarrow> writeJSON 200 (JResult res)))"

definition handleCancel :: "('p, 'd, 'k) deps \<Rightarrow> ('p, 'd, 'k) api_handler" where
  "handleCancel dp = doSignal dp ActionCancel"

definition handleTerminate :: "('p, 'd, 'k) deps \<Rightarrow> ('p, 'd, 'k) api_handler" where
  "handleTerminate dp = doSignal dp ActionTerminate"

text \<open>The metrics page in the format of the Prometheus handler. One \<open>Metrics\<close> object observes the
  poller and the service: what it has counted is the service's part with the observations of
  the poller, and a service without observer has counted nothing.\<close>

definition counted :: "string \<Rightarrow> ('p, 'd, 'k) app \<Rightarrow> metrics" where
  "counted version s =
     observe_all (case pl_obs (app_poller s) of None \<Rightarrow> [] | Some obs \<Rightarrow> obs)
       (case svc_obs (app_svc s) of None \<Rightarrow> New_metrics version | Some m \<Rightarrow> m)"

definition handleMetrics :: "string \<Rightarrow> (family list \<Rightarrow> json response) \<Rightarrow> ('p, 'd, 'k) api_handler" where
  "handleMetrics version page r s =
     (case Latest (pl_store (app_poller s)) of
        None \<Rightarrow> None
      | Some latest \<Rightarrow>
          Some (s, page (Gather (counted version s)
                     (Collect_live (ps_Cluster (Status (app_poller s)), ps_Connected (Status (app_poller s))) latest))))"

section \<open>Routes\<close>

definition requireSameOrigin :: "('s, 'j) handler \<Rightarrow> ('s, 'j) handler" where
  "requireSameOrigin next r s =
     (if \<not> CheckOrigin r then Some (s, http_Error ''cross-origin request rejected'' 403) else next r s)"

text \<open>The upgrade to a WebSocket: the library rejects it with a response of its own, or the
  session runs. Its frames stand for the body.\<close>

definition handleStreamPage :: "('p, 'd, 'k) deps \<Rightarrow> ('p, 'd, 'k) api_handler" where
  "handleStreamPage dp r s =
     (case handleStream (dp_ops dp) (dp_ordC dp) (dp_wsRejected dp = None) (dp_wsEarly dp) (dp_wsFirst dp) (dp_wsEvents dp) r
             (pl_store (app_poller s)) of
        None \<Rightarrow> None
      | Some (st, frames, stopped) \<Rightarrow>
          Some (set_store st s,
                case dp_wsRejected dp of
                  Some resp \<Rightarrow> resp
                | None \<Rightarrow> \<lparr>resp_Status = 101, resp_Header = [], resp_Body = JSON (JFrames frames)\<rparr>))"

text \<open>The embedded user interface: a path without a file falls back to the index.\<close>

definition spaHandler :: "('p, 'd, 'k) deps \<Rightarrow> ('p, 'd, 'k) api_handler" where
  "spaHandler dp r s =
     (let fileServer = (\<lambda>r. dp_page dp (FileServer (dp_ui dp) (req_Path r)) r); p = req_Path r
      in Some (s, if p \<noteq> ''/'' \<and> dp_ui dp (trimLeadingSlash p) = Inl ErrNotExist
                  then fileServer (r\<lparr>req_Path := ''/''\<rparr>) else fileServer r))"

fun serve :: "('p, 'd, 'k) deps \<Rightarrow> endpoint \<Rightarrow> ('p, 'd, 'k) api_handler" where
  "serve dp Healthz = handleHealthz"
| "serve dp MetricsPage = (case dp_metrics dp of None \<Rightarrow> spaHandler dp | Some (version, page) \<Rightarrow> handleMetrics version page)"
| "serve dp Me = Authenticate (dp_identity dp) handleMe"
| "serve dp Clusters = Authenticate (dp_identity dp) handleClusters"
| "serve dp SnapshotPage = Authenticate (dp_identity dp) (handleSnapshot dp)"
| "serve dp HistoryPage = Authenticate (dp_identity dp) (handleHistory dp)"
| "serve dp Stream = Authenticate (dp_identity dp) (handleStreamPage dp)"
| "serve dp LocksPage = Authenticate (dp_identity dp) (handleLocks dp)"
| "serve dp HotObjectsPage = Authenticate (dp_identity dp) (handleHotObjects dp)"
| "serve dp CancelSession =
     Authenticate (dp_identity dp) (RequireRole RoleOperator (requireSameOrigin (handleCancel dp)))"
| "serve dp TerminateSession =
     Authenticate (dp_identity dp) (RequireRole RoleOperator (requireSameOrigin (handleTerminate dp)))"
| "serve dp AuditPage = Authenticate (dp_identity dp) (RequireRole RoleAdmin (handleAudit dp))"
| "serve dp Spa = spaHandler dp"

text \<open>The router picks the endpoint; what it answers itself (a method that is not allowed) and the
  two middlewares around everything (\<open>Recoverer\<close>, \<open>RealIP\<close>) are those of chi.\<close>

definition Handler ::
  "(('p, 'd, 'k) api_handler \<Rightarrow> ('p, 'd, 'k) api_handler) \<Rightarrow> ('p, 'd, 'k) deps \<Rightarrow> ('p, 'd, 'k) api_handler" where
  "Handler middleware dp =
     middleware (\<lambda>r s. case dp_route dp r of None \<Rightarrow> Some (s, dp_unrouted dp) | Some ep \<Rightarrow> serve dp ep r s)"

section \<open>Who may do what\<close>

lemma set_store_svc [simp]: "app_svc (set_store st s) = app_svc s"
  by (simp add: set_store_def)

text \<open>Only \<open>doSignal\<close> changes the signal service.\<close>

lemma read_handlers_svc:
  "handleHealthz r s = Some (s', resp) \<Longrightarrow> app_svc s' = app_svc s"
  "handleMetrics version page r s = Some (s', resp) \<Longrightarrow> app_svc s' = app_svc s"
  "handleMe r s = Some (s', resp) \<Longrightarrow> app_svc s' = app_svc s"
  "handleClusters r s = Some (s', resp) \<Longrightarrow> app_svc s' = app_svc s"
  "handleSnapshot dp r s = Some (s', resp) \<Longrightarrow> app_svc s' = app_svc s"
  "handleHistory dp r s = Some (s', resp) \<Longrightarrow> app_svc s' = app_svc s"
  "handleStreamPage dp r s = Some (s', resp) \<Longrightarrow> app_svc s' = app_svc s"
  "handleLocks dp r s = Some (s', resp) \<Longrightarrow> app_svc s' = app_svc s"
  "handleHotObjects dp r s = Some (s', resp) \<Longrightarrow> app_svc s' = app_svc s"
  "handleAudit dp r s = Some (s', resp) \<Longrightarrow> app_svc s' = app_svc s"
  "spaHandler dp r s = Some (s', resp) \<Longrightarrow> app_svc s' = app_svc s"
  by (auto simp: handleHealthz_def handleMetrics_def handleMe_def handleClusters_def handleSnapshot_def
      handleHistory_def handleStreamPage_def handleLocks_def handleHotObjects_def handleAudit_def spaHandler_def
      Let_def split: option.splits sum.splits if_splits prod.splits)

lemma Authenticate_Some:
  "Authenticate idn h r s = Some (s', resp) \<Longrightarrow>
     (idn r = None \<and> s' = s \<and> resp_Status resp = 401 \<and> (\<exists>msg. resp_Body resp = Text msg)) \<or>
     (\<exists>p. idn r = Some p \<and> h (r\<lparr>req_Principal := Some p\<rparr>) s = Some (s', resp))"
  by (auto simp: Authenticate_def http_Error_def with_header_def split: option.splits)

lemma RequireRole_Some:
  "RequireRole minr h r s = Some (s', resp) \<Longrightarrow>
     (s' = s \<and> (\<exists>msg. resp_Body resp = Text msg)) \<or>
     (\<exists>p. req_Principal r = Some p \<and> AtLeast (pr_Role p) minr \<and> h r s = Some (s', resp))"
  by (auto simp: RequireRole_def PrincipalFrom_def http_Error_def split: option.splits if_splits)

lemma requireSameOrigin_Some:
  "requireSameOrigin h r s = Some (s', resp) \<Longrightarrow> s' = s \<or> (CheckOrigin r \<and> h r s = Some (s', resp))"
  by (auto simp: requireSameOrigin_def split: if_splits)

lemma CheckOrigin_principal [simp]: "CheckOrigin (r\<lparr>req_Principal := p\<rparr>) = CheckOrigin r"
  by (simp add: CheckOrigin_def Header_Get_def)

lemma doSignal_changes:
  assumes "doSignal dp action (r\<lparr>req_Principal := Some p\<rparr>) s = Some (s', resp)" "app_svc s' \<noteq> app_svc s"
  shows "\<exists>pid res err. Atoi (dp_URLParam dp (req_Path r)) = Some pid \<and>
    Do (dp_sig dp) (Some (lookup_query (pl_store (app_poller s)))) (dp_rec dp) ObserveAction (dp_now dp)
      action pid (pr_Name p) (app_svc s) = Some (app_svc s', res, err) \<and>
    resp_Status resp = (if err = None then 200 else 502)"
proof -
  from assms obtain pid where pid: "Atoi (dp_URLParam dp (req_Path r)) = Some pid"
    by (auto simp: doSignal_def split: option.splits)
  with assms(1) obtain svc res err where D:
    "Do (dp_sig dp) (Some (lookup_query (pl_store (app_poller s)))) (dp_rec dp) ObserveAction (dp_now dp)
      action pid (pr_Name p) (app_svc s) = Some (svc, res, err)"
    "s' = s\<lparr>app_svc := svc\<rparr>"
    "resp = (case err of Some e \<Rightarrow> writeJSON 502 (JSignalError e res) | None \<Rightarrow> writeJSON 200 (JResult res))"
    by (simp add: doSignal_def PrincipalFrom_def Let_def split: option.splits prod.splits)
  then have "resp_Status resp = (if err = None then 200 else 502)" by (cases err) (simp_all add: writeJSON_def)
  with pid D(1,2) show ?thesis by auto
qed

definition signal_route :: "endpoint \<Rightarrow> string option" where
  "signal_route ep =
     (case ep of CancelSession \<Rightarrow> Some ActionCancel | TerminateSession \<Rightarrow> Some ActionTerminate | _ \<Rightarrow> None)"

lemma signal_chain:
  assumes "Authenticate idn (RequireRole RoleOperator (requireSameOrigin (doSignal dp action))) r s = Some (s', resp)"
    and "app_svc s' \<noteq> app_svc s"
  shows "\<exists>p. idn r = Some p \<and> AtLeast (pr_Role p) RoleOperator \<and> CheckOrigin r \<and>
    doSignal dp action (r\<lparr>req_Principal := Some p\<rparr>) s = Some (s', resp)"
proof -
  from Authenticate_Some [OF assms(1)] assms(2) obtain p where p: "idn r = Some p"
    "RequireRole RoleOperator (requireSameOrigin (doSignal dp action)) (r\<lparr>req_Principal := Some p\<rparr>) s = Some (s', resp)"
    by auto
  from RequireRole_Some [OF p(2)] assms(2)
  have "AtLeast (pr_Role p) RoleOperator" "requireSameOrigin (doSignal dp action) (r\<lparr>req_Principal := Some p\<rparr>) s = Some (s', resp)"
    by auto
  with requireSameOrigin_Some [OF this(2)] assms(2) p(1) show ?thesis by auto
qed

lemma serve_signals:
  assumes "serve dp ep r s = Some (s', resp)" "app_svc s' \<noteq> app_svc s"
  shows "\<exists>action p pid res err. signal_route ep = Some action \<and> dp_identity dp r = Some p \<and>
    pr_Role p \<in> {RoleOperator, RoleAdmin} \<and> CheckOrigin r \<and> Atoi (dp_URLParam dp (req_Path r)) = Some pid \<and>
    Do (dp_sig dp) (Some (lookup_query (pl_store (app_poller s)))) (dp_rec dp) ObserveAction (dp_now dp)
      action pid (pr_Name p) (app_svc s) = Some (app_svc s', res, err) \<and>
    resp_Status resp = (if err = None then 200 else 502)"
proof -
  have role: "rl \<in> {RoleOperator, RoleAdmin}" if "AtLeast rl RoleOperator" for rl
    using that by (auto simp: AtLeast_def rank_def split: if_splits)
  have chain: ?thesis if "signal_route ep = Some action"
    "Authenticate (dp_identity dp) (RequireRole RoleOperator (requireSameOrigin (doSignal dp action))) r s = Some (s', resp)" for action
    using signal_chain [OF that(2) assms(2)] doSignal_changes [OF _ assms(2)] that(1) role by blast
  show ?thesis
  proof (cases "signal_route ep")
    case None
    then show ?thesis using assms
      by (cases ep) (auto simp: signal_route_def split: option.splits dest!: Authenticate_Some RequireRole_Some read_handlers_svc)
  next
    case (Some action)
    then show ?thesis using assms(1) chain [of action]
      by (cases ep) (auto simp: signal_route_def handleCancel_def handleTerminate_def)
  qed
qed

text \<open>C1: Whatever the request, the target cluster is signalled and the audit trail written only
  through the two action endpoints, for an authenticated principal with the role of an operator
  or an administrator, past the origin check, with a numeric process id; then exactly one
  audited \<open>Do\<close> runs for that action and process, in the name of the principal, and its error
  decides the status of the response.\<close>

theorem signals_guarded:
  assumes "serve dp ep r s = Some (s', resp)" "app_svc s' \<noteq> app_svc s"
  shows "\<exists>action p pid res err. signal_route ep = Some action \<and> dp_identity dp r = Some p \<and>
    pr_Role p \<in> {RoleOperator, RoleAdmin} \<and> CheckOrigin r \<and> Atoi (dp_URLParam dp (req_Path r)) = Some pid \<and>
    Do (dp_sig dp) (Some (lookup_query (pl_store (app_poller s)))) (dp_rec dp) ObserveAction (dp_now dp)
      action pid (pr_Name p) (app_svc s) = Some (app_svc s', res, err) \<and>
    resp_Status resp = (if err = None then 200 else 502)"
  using assms by (rule serve_signals)

text \<open>What a request may learn without credentials: the health of the poller, and on the metrics
  page the counters and the sizes of the latest snapshot.\<close>

definition public_view :: "string \<Rightarrow> ('p, 'd, 'k) app \<Rightarrow> bool \<times> time \<times> metrics \<times> (desc \<times> int \<times> string list) list option" where
  "public_view version s =
     (let st = Status (app_poller s)
      in (ps_Connected st, ps_LastPoll st, counted version s,
          map_option (Collect_live (ps_Cluster st, ps_Connected st)) (Latest (pl_store (app_poller s)))))"

lemma handleMetrics_public:
  "map_option snd (handleMetrics version page r s) =
     (case public_view version s of (_, _, m, gauges) \<Rightarrow> map_option (\<lambda>gs. page (Gather m gs)) gauges)"
  by (simp add: handleMetrics_def public_view_def Let_def split: option.splits)

text \<open>C17: A request without valid credentials changes nothing and learns nothing of the cluster
  beyond the public view: two states with the same public view, whatever sessions, queries,
  locks, history and audit trail they hold, give it the same response on every endpoint.\<close>

theorem anonymous_learns_nothing:
  fixes dp :: "('p, 'd, 'k) deps"
  assumes "dp_identity dp r = None" "\<forall>version. public_view version s1 = public_view version s2"
  shows "map_option snd (serve dp ep r s1) = map_option snd (serve dp ep r s2) \<and>
    (\<forall>s' resp. serve dp ep r s1 = Some (s', resp) \<longrightarrow> s' = s1)"
proof -
  have guarded: "serve dp ep r s = Some (s, with_header ''Www-Authenticate'' ''Bearer'' (http_Error ''unauthorized'' 401))"
    if "ep \<notin> {Healthz, MetricsPage, Spa}" for s :: "('p, 'd, 'k) app"
    using that assms(1) by (cases ep) (auto simp: Authenticate_def)
  have metrics: "map_option snd (handleMetrics version page r s1) = map_option snd (handleMetrics version page r s2)" for version page
    using assms(2) by (simp add: handleMetrics_public)
  have health: "map_option snd (handleHealthz r s1) = map_option snd (handleHealthz r s2)"
    using assms(2) by (simp add: handleHealthz_def public_view_def Let_def)
  have "map_option snd (serve dp ep r s1) = map_option snd (serve dp ep r s2)"
    using guarded metrics health by (cases ep) (auto simp: spaHandler_def Let_def split: option.splits)
  moreover have "s' = s1" if "serve dp ep r s1 = Some (s', resp)" for s' resp
    using that guarded by (cases ep) (auto simp: handleHealthz_def handleMetrics_def spaHandler_def Let_def split: option.splits)
  ultimately show ?thesis by blast
qed

section \<open>No handler panics\<close>

lemma wf_cong_store:
  assumes "st_buf s' = st_buf s" "st_head s' = st_head s" "st_size s' = st_size s" "st_cap s' = st_cap s"
    and "st_subs s' = st_subs s" "st_nextID s' = st_nextID s" "st_chans s' = st_chans s"
  shows "store_wf s' = store_wf s"
  using assms by (simp add: store_wf_def ring_wf_def hub_wf_def)

lemma log_warn_wf [simp]: "store_wf (log_warn msg s) = store_wf s"
  by (rule wf_cong_store) (simp_all add: log_warn_def)

lemma store_wf_ring: "store_wf s \<Longrightarrow> ring_wf s"
  by (simp add: store_wf_def)

lemma At_total: "store_wf s \<Longrightarrow> \<exists>s' r. At ops t s = Some (s', r) \<and> store_wf s'"
  using at_ring_scan [OF store_wf_ring, of s t] by (auto simp: At_def split: option.splits sum.splits)

lemma History_total: "store_wf s \<Longrightarrow> \<exists>s' ms. History ops from to s = Some (s', ms) \<and> store_wf s'"
  using history_ring [OF store_wf_ring, of s "from" to] by (auto simp: History_def split: option.splits sum.splits)

lemma handleStream_total:
  assumes "map_order ord" "store_wf s"
  shows "\<exists>s' res. handleStream ops ord acc early first_ok evs r s = Some (s', res) \<and> store_wf s'"
proof -
  obtain s0 sid ch where sub: "Subscribe s = (s0, sid, ch)" by (metis prod_cases3)
  from session_runs [OF assms sub, of ops early evs] obtain s1 s2 sent stopped x where
    "run_puts (Put ops ord) early s0 = Some s1" "store_wf s1" "Latest s1 = Some x"
    "stream_loop ops ord ch evs s1 = Some (s2, sent, stopped)" "store_wf s2" by blast
  then show ?thesis
    using assms(2) unsubscribe_wf [of s1 sid] unsubscribe_wf [of s2 sid]
    by (cases x) (auto simp: handleStream_def sub)
qed

definition app_ok :: "('k \<Rightarrow> bool) \<Rightarrow> ('p, 'd, 'k) app \<Rightarrow> bool" where
  "app_ok sink_ok s \<longleftrightarrow> poller_wf (app_poller s) \<and> (\<exists>k. svc_sink (app_svc s) = Some k \<and> sink_ok k)"

lemma app_ok_set_store: "app_ok sink_ok s \<Longrightarrow> store_wf st \<Longrightarrow> app_ok sink_ok (set_store st s)"
  by (simp add: app_ok_def set_store_def poller_wf_def)

definition returns_ok :: "('k \<Rightarrow> bool) \<Rightarrow> (('p, 'd, 'k) app \<times> json response) option \<Rightarrow> bool" where
  "returns_ok sink_ok res \<longleftrightarrow> (\<exists>s resp. res = Some (s, resp) \<and> app_ok sink_ok s)"

lemma returns_ok_Some [simp]: "returns_ok sink_ok (Some (s, resp)) = app_ok sink_ok s"
  by (simp add: returns_ok_def)

lemma read_handlers_ok:
  assumes "app_ok sink_ok s"
  shows "returns_ok sink_ok (handleHealthz r s)" "returns_ok sink_ok (handleMetrics version page r s)" "returns_ok sink_ok (handleMe r s)"
    "returns_ok sink_ok (handleClusters r s)" "returns_ok sink_ok (handleLocks dp r s)" "returns_ok sink_ok (handleHotObjects dp r s)"
    "returns_ok sink_ok (spaHandler dp r s)"
  using assms Latest_ring [of "pl_store (app_poller s)"]
  by (auto simp: handleHealthz_def handleMetrics_def handleMe_def handleClusters_def handleLocks_def
      handleHotObjects_def spaHandler_def Let_def app_ok_def poller_wf_def store_wf_def split: option.splits sum.splits)

lemma store_handlers_ok:
  assumes "app_ok sink_ok s" "map_order (dp_ordC dp)"
  shows "returns_ok sink_ok (handleSnapshot dp r s)" "returns_ok sink_ok (handleHistory dp r s)"
    "returns_ok sink_ok (handleStreamPage dp r s)"
proof -
  have wf: "store_wf (pl_store (app_poller s))" using assms(1) by (simp add: app_ok_def poller_wf_def)
  have "returns_ok sink_ok (case At ops t (pl_store (app_poller s)) of None \<Rightarrow> None | Some (st, snap, ok) \<Rightarrow>
      Some (set_store st s, f snap ok))" for ops t f
    using At_total [OF wf, of ops t] app_ok_set_store [OF assms(1)] by auto
  moreover have "\<exists>x. Latest (pl_store (app_poller s)) = Some x" using wf by (simp add: Latest_ring store_wf_def)
  ultimately show "returns_ok sink_ok (handleSnapshot dp r s)"
    using assms(1) by (auto simp: handleSnapshot_def Let_def split: option.splits)
  have "returns_ok sink_ok (case History ops from to (pl_store (app_poller s)) of None \<Rightarrow> None | Some (st, metas) \<Rightarrow>
      Some (set_store st s, f metas))" for ops "from" to f
    using History_total [OF wf, of ops "from" to] app_ok_set_store [OF assms(1)] by auto
  then show "returns_ok sink_ok (handleHistory dp r s)"
    using assms(1) by (simp add: handleHistory_def split: option.splits)
  show "returns_ok sink_ok (handleStreamPage dp r s)"
    using handleStream_total [OF assms(2) wf, of "dp_ops dp" "dp_wsRejected dp = None" "dp_wsEarly dp" "dp_wsFirst dp" "dp_wsEvents dp" r]
      app_ok_set_store [OF assms(1)] by (auto simp: handleStreamPage_def)
qed

context audit_sink
begin

lemma sink_handlers_ok:
  assumes "app_ok ok s" "dp_rec dp = rec" "dp_recent dp = recent"
  shows "returns_ok ok (handleAudit dp r s)" "returns_ok ok (doSignal dp action r s)"
proof -
  obtain k where k: "svc_sink (app_svc s) = Some k" "ok k" using assms(1) by (auto simp: app_ok_def)
  have "returns_ok ok (case recent l k of None \<Rightarrow> None | Some (Inl err) \<Rightarrow> Some (s, f err) | Some (Inr es) \<Rightarrow> Some (s, g es))" for l f g
    using recent_returns [OF k(2), of l] assms(1) by (auto split: sum.splits)
  then show "returns_ok ok (handleAudit dp r s)"
    using k(1) assms(1,3) by (simp add: handleAudit_def Let_def split: option.splits)
  let ?lk = "Some (lookup_query (pl_store (app_poller s)))"
  have "\<exists>svc res err. Do (dp_sig dp) ?lk rec ObserveAction (dp_now dp) action pid actor (app_svc s) =
      Some (svc, res, err) \<and> (\<exists>k'. svc_sink svc = Some k' \<and> ok k')" for pid actor
  proof -
    obtain d delivered err where "send_action (dp_sig dp) action pid (svc_db (app_svc s)) = (d, delivered, err)"
      by (metis prod_cases3)
    from Do_trail [OF k this refl, where lookup = ?lk and now = "dp_now dp" and actor = actor and observe = ObserveAction]
    show ?thesis by blast
  qed
  note Do_ok = this
  show "returns_ok ok (doSignal dp action r s)"
  proof (cases "Atoi (dp_URLParam dp (req_Path r))")
    case (Some pid)
    from Do_ok [of pid "case PrincipalFrom r of None \<Rightarrow> ''unknown'' | Some p \<Rightarrow> pr_Name p"] Some show ?thesis
      using assms(1,2) by (auto simp: doSignal_def Let_def app_ok_def)
  qed (use assms(1) in \<open>simp add: doSignal_def\<close>)
qed

end

lemma middleware_ok:
  assumes "app_ok ok s"
  shows "(\<forall>r. returns_ok ok (h r s)) \<Longrightarrow> returns_ok ok (Authenticate idn h r s)"
    "(\<forall>r. returns_ok ok (h r s)) \<Longrightarrow> returns_ok ok (RequireRole minr h r s)"
    "(\<forall>r. returns_ok ok (h r s)) \<Longrightarrow> returns_ok ok (requireSameOrigin h r s)"
  using assms by (auto simp: Authenticate_def RequireRole_def requireSameOrigin_def split: option.splits)

lemma serve_ok:
  assumes "audit_sink ok good lim trail (dp_rec dp) (dp_recent dp)" "map_order (dp_ordC dp)" "app_ok ok s"
  shows "returns_ok ok (serve dp ep r s)"
proof -
  note sink = audit_sink.sink_handlers_ok [OF assms(1,3) refl refl]
  note store = store_handlers_ok [OF assms(3,2)] and read = read_handlers_ok [OF assms(3)]
  note mw = middleware_ok [OF assms(3)]
  have act: "returns_ok ok (Authenticate (dp_identity dp) (RequireRole RoleOperator (requireSameOrigin (doSignal dp a))) r s)" for a
    by (intro mw allI sink)
  have aud: "returns_ok ok (Authenticate (dp_identity dp) (RequireRole RoleAdmin (handleAudit dp)) r s)"
    by (intro mw allI sink)
  show ?thesis
    using act [of ActionCancel] act [of ActionTerminate] aud mw(1) store read
    by (cases ep) (simp_all add: handleCancel_def handleTerminate_def split: option.splits)
qed

section \<open>A concrete server\<close>

text \<open>A build with one asset.\<close>

definition demo_bundle :: embedded where
  "demo_bundle = fmap_of_list [(''dist'', Dir), (''dist/index.html'', File ''index''), (''dist/assets'', Dir),
     (''dist/assets/app.js'', File ''code'')]"

definition demo_page :: "page \<Rightarrow> request \<Rightarrow> json response" where
  "demo_page p r = (case p of Content name c \<Rightarrow> http_Error c 200 | Listing name \<Rightarrow> http_Error name 200
     | Moved to \<Rightarrow> with_header ''Location'' to (http_Error '''' 301) | Failed code \<Rightarrow> http_Error '''' code)"

definition demo_deps :: "identity \<Rightarrow> (unit, unit, memory) deps" where
  "demo_deps idn = \<lparr>dp_ops = nil_persister, dp_sig = demo_signaler, dp_rec = Record, dp_recent = Recent,
     dp_identity = idn, dp_now = 5, dp_pool = demo_pool,
     dp_route = (\<lambda>r. Some CancelSession), dp_URLParam = (\<lambda>path. ''7''), dp_unrouted = http_Error ''405'' 405,
     dp_metrics = None, dp_ui = dist demo_bundle, dp_page = demo_page, dp_ordC = key_order,
     dp_wsRejected = None, dp_wsEarly = [], dp_wsFirst = True, dp_wsEvents = []\<rparr>"

definition demo_app :: "(unit, unit, memory) app" where
  "demo_app = \<lparr>app_poller = demo_poller, app_svc = New_service () (Some (NewMemory 10))\<rparr>"

definition ann :: identity where
  "ann r = Some \<lparr>pr_Name = ''ann'', pr_Role = ''operator''\<rparr>"

lemma demo_app_facts:
  "store_wf (pl_store (app_poller demo_app))" "svc_sink (app_svc demo_app) = Some (NewMemory 10)" "memory_wf (NewMemory 10)"
  by (simp_all add: demo_app_def New_service_def demo_poller_def SetMetrics_poller_def New_poller_def New_wf)

theorem anonymous_learns_nothing_witness:
  "map_option snd (serve (demo_deps (\<lambda>r. None)) SnapshotPage demo_request demo_app) =
   map_option snd (serve (demo_deps (\<lambda>r. None)) SnapshotPage demo_request
     (demo_app\<lparr>app_svc := New_service () (Some (NewMemory 20))\<rparr>))"
proof -
  have "dp_identity (demo_deps (\<lambda>r. None)) demo_request = None" by (simp add: demo_deps_def)
  moreover have "\<forall>version. public_view version demo_app = public_view version (demo_app\<lparr>app_svc := New_service () (Some (NewMemory 20))\<rparr>)"
    by (simp add: public_view_def counted_def New_service_def demo_app_def)
  ultimately show ?thesis by (rule anonymous_learns_nothing [THEN conjunct1])
qed

lemma demo_cancel:
  "\<exists>s' resp. serve (demo_deps ann) CancelSession demo_request demo_app = Some (s', resp) \<and> app_svc s' \<noteq> app_svc demo_app"
proof -
  have "Header_Get demo_request ''Origin'' = ''''" by code_simp
  then have origin: "CheckOrigin demo_request" by (simp add: CheckOrigin_def)
  have pid: "Atoi ''7'' = Some 7" by code_simp
  have role: "AtLeast ''operator'' RoleOperator" by (simp add: AtLeast_def rank_def RoleOperator_def RoleViewer_def RoleAdmin_def)
  let ?svc = "app_svc demo_app" and ?lk = "Some (lookup_query (pl_store (app_poller demo_app)))"
  have "send_action demo_signaler ActionCancel 7 (svc_db ?svc) = ((), True, None)"
    by (simp add: send_action_def demo_signaler_def)
  from memory.Do_trail [OF demo_app_facts(2,3) this refl, where lookup = ?lk and now = 5 and actor = "''ann''" and observe = ObserveAction]
  obtain svc res k where D: "Do demo_signaler ?lk Record ObserveAction 5 ActionCancel 7 ''ann'' ?svc = Some (svc, res, None)"
    by blast
  then have "svc_log svc \<noteq> svc_log ?svc"
    by (auto simp: Do_def write_sink_def send_action_def Let_def split: option.splits prod.splits bind_splits)
  then show ?thesis using D role pid origin
    by (auto simp: Authenticate_def RequireRole_def PrincipalFrom_def requireSameOrigin_def handleCancel_def doSignal_def
        demo_deps_def ann_def)
qed

theorem signals_guarded_witness:
  "\<exists>s' resp p pid. serve (demo_deps ann) CancelSession demo_request demo_app = Some (s', resp) \<and>
     ann demo_request = Some p \<and> pr_Role p \<in> {RoleOperator, RoleAdmin} \<and> Atoi ''7'' = Some pid"
proof -
  obtain s' resp where r: "serve (demo_deps ann) CancelSession demo_request demo_app = Some (s', resp)"
    "app_svc s' \<noteq> app_svc demo_app" using demo_cancel by blast
  from signals_guarded [OF r] r(1) show ?thesis by (auto simp: demo_deps_def)
qed

section \<open>The pages of the interface\<close>

text \<open>C30: The interface: whatever the path, a file that is served is one the build put below
  \<open>dist\<close> (nothing else of the binary, however the path is written); the path of such a file
  gets that file, the path of nothing gets the index, so a page of the application can be loaded
  by its address. The exception is a path that ends in a slash: it is no valid name, so it is not
  seen as missing and gets a 404.\<close>

theorem interface_served:
  assumes "DistFS b = Inr (dp_ui dp)" "built_ui b index"
  shows "\<exists>page path. serve dp Spa r s = Some (s, dp_page dp page (r\<lparr>req_Path := path\<rparr>)) \<and>
    (\<forall>name c. page = Content name c \<longrightarrow> (\<exists>f. name = ''/'' @ f \<and> fmlookup b (''dist/'' @ f) = Some (File c))) \<and>
    (req_Path r = ''/'' \<longrightarrow> page = Content ''/index.html'' index) \<and>
    (\<forall>f. below f \<and> req_Path r = ''/'' @ f \<longrightarrow> page =
      (case fmlookup b (''dist/'' @ f) of
         None \<Rightarrow> Content ''/index.html'' index
       | Some n \<Rightarrow> if HasSuffix (''/'' @ f) ''/index.html'' then Moved ''./''
                   else (case n of File c \<Rightarrow> Content (''/'' @ f) c | Dir \<Rightarrow> Moved (path_Base (''/'' @ f) @ ''/'')))) \<and>
    (\<forall>f. below f \<and> req_Path r = ''/'' @ f @ ''/'' \<and> fmlookup b (''dist/'' @ f) = None \<longrightarrow> page = Failed 404)"
proof -
  let ?path = "spa_path (dist b) (req_Path r)"
  let ?page = "FileServer (dist b) ?path"
  have ui: "dp_ui dp = dist b" using assms(1) by simp
  have root: "fmlookup b ''dist'' = Some Dir" using assms(2) by (simp add: built_ui_def)
  have served: "serve dp Spa r s = Some (s, dp_page dp ?page (r\<lparr>req_Path := ?path\<rparr>))"
    by (cases r) (auto simp: spaHandler_def spa_path_def ui Let_def)
  have home: "?page = Content ''/index.html'' index" if "req_Path r = ''/''"
    using that index_page [OF assms(2)] by (simp add: spa_path_def)
  have element: "?page = (case fmlookup b (''dist/'' @ f) of
         None \<Rightarrow> Content ''/index.html'' index
       | Some n \<Rightarrow> if HasSuffix (''/'' @ f) ''/index.html'' then Moved ''./''
                   else (case n of File c \<Rightarrow> Content (''/'' @ f) c | Dir \<Rightarrow> Moved (path_Base (''/'' @ f) @ ''/'')))"
    if "below f" "req_Path r = ''/'' @ f" for f
    using that index_page [OF assms(2)] serves_element [OF that(1), of b] below_plain [OF that(1)]
    by (auto simp: spa_path_def trimLeadingSlash_def dist_below split: option.splits node.splits)
  have slashed: "?page = Failed 404" if "below f" "req_Path r = ''/'' @ f @ ''/''" "fmlookup b (''dist/'' @ f) = None" for f
    using that serves_slash [OF that(1,3)] below_slash [OF that(1)]
    by (simp add: spa_path_def trimLeadingSlash_def dist_def)
  have confined: "\<exists>f. name = ''/'' @ f \<and> fmlookup b (''dist/'' @ f) = Some (File c)" if "?page = Content name c" for name c
    using serves_below [OF root that] by simp
  show ?thesis
    by (rule exI [of _ ?page], rule exI [of _ ?path], intro conjI allI impI; (elim conjE)?)
      (rule served confined home element slashed; assumption)+
qed

theorem interface_served_witness:
  "\<exists>page path. serve (demo_deps ann) Spa (demo_request\<lparr>req_Path := ''/locks''\<rparr>) demo_app =
       Some (demo_app, demo_page page (demo_request\<lparr>req_Path := path\<rparr>)) \<and>
     page = Content ''/index.html'' ''index''"
proof -
  have b: "built_ui demo_bundle ''index''" "fmlookup demo_bundle ''dist/locks'' = None" "below ''locks''" by code_simp+
  have "DistFS demo_bundle = Inr (dp_ui (demo_deps ann))" "dp_page (demo_deps ann) = demo_page" by (simp_all add: demo_deps_def)
  from interface_served [OF this(1) b(1), of "demo_request\<lparr>req_Path := ''/locks''\<rparr>" demo_app] this(2) b(2,3)
  show ?thesis by fastforce
qed

end
