(* ===== verification/Config.thy ===== *)
theory Config
  imports Auth
begin

text \<open>
  Package \<open>internal/config\<close>: loading the configuration. The file system, the environment and
  the YAML decoder are arguments of \<open>Load\<close>, and nothing is assumed of them. Errors are values
  of \<open>config_error\<close>, one constructor per message with the values the message prints. The
  sections with one field (\<open>http\<close>, \<open>redaction\<close>) and the two of \<open>cluster\<close> are fields of
  \<open>config\<close>.
\<close>

section \<open>Configuration\<close>

record principal_config =
  pc_Name :: string
  pc_Role :: string
  pc_TokenEnv :: string
  pc_Token :: string

record role_mapping =
  rm_Group :: string
  rm_Role :: string

record proxy_auth =
  pa_UserHeader :: string
  pa_GroupsHeader :: string
  pa_GroupsSep :: string
  pa_TrustMode :: string
  pa_SecretHeader :: string
  pa_SecretEnv :: string
  pa_Secret :: string
  pa_DefaultRole :: string
  pa_RoleMappings :: "role_mapping list"

record auth_config =
  au_Mode :: string
  au_Token :: string
  au_Principals :: "principal_config list"
  au_Proxy :: proxy_auth

record poll_config =
  po_Interval :: duration
  po_RingSize :: int
  po_StatementTimeout :: duration
  po_WaitersOnly :: bool

record persist_config =
  pe_Enabled :: bool
  pe_Path :: string
  pe_Retention :: duration

record config =
  cfg_ClusterName :: string
  cfg_ClusterDSN :: string
  cfg_Poll :: poll_config
  cfg_Addr :: string
  cfg_Auth :: auth_config
  cfg_Persist :: persist_config
  cfg_Redaction :: bool

definition zero_proxy_auth :: proxy_auth where
  "zero_proxy_auth = \<lparr>pa_UserHeader = '''', pa_GroupsHeader = '''', pa_GroupsSep = '''', pa_TrustMode = '''',
     pa_SecretHeader = '''', pa_SecretEnv = '''', pa_Secret = '''', pa_DefaultRole = '''', pa_RoleMappings = []\<rparr>"

definition Defaults :: config where
  "Defaults = \<lparr>cfg_ClusterName = ''default'', cfg_ClusterDSN = '''',
     cfg_Poll = \<lparr>po_Interval = second, po_RingSize = 300, po_StatementTimeout = 3 * second, po_WaitersOnly = False\<rparr>,
     cfg_Addr = '':8080'',
     cfg_Auth = \<lparr>au_Mode = '''', au_Token = '''', au_Principals = [], au_Proxy = zero_proxy_auth\<rparr>,
     cfg_Persist = \<lparr>pe_Enabled = False, pe_Path = '''', pe_Retention = 24 * hour\<rparr>,
     cfg_Redaction = False\<rparr>"

datatype config_error =
    ReadConfig string string
  | ParseConfig string string
  | DSNMissing
  | ModeInvalid string
  | PersistPathMissing
  | NoAuth
  | PrincipalName nat
  | PrincipalRole nat string string
  | PrincipalTokenEnv nat string
  | PrincipalTokenEmpty nat string string
  | SecretEnvMissing
  | SecretEmpty string
  | TrustModeInvalid string
  | NoRoleMappings
  | RoleMappingInvalid nat string string
  | DefaultRoleInvalid string

section \<open>Validation\<close>

definition validRoles :: "string \<Rightarrow> bool" where
  "validRoles r \<longleftrightarrow> r = ''viewer'' \<or> r = ''operator'' \<or> r = ''admin''"

text \<open>The loop over the principals; the first offending one is reported.\<close>

fun check_principals :: "nat \<Rightarrow> principal_config list \<Rightarrow> config_error option" where
  "check_principals i [] = None"
| "check_principals i (p # ps) =
     (if pc_Name p = '''' then Some (PrincipalName i)
      else if \<not> validRoles (pc_Role p) then Some (PrincipalRole i (pc_Name p) (pc_Role p))
      else if pc_TokenEnv p = '''' then Some (PrincipalTokenEnv i (pc_Name p))
      else if pc_Token p = '''' then Some (PrincipalTokenEmpty i (pc_Name p) (pc_TokenEnv p))
      else check_principals (i + 1) ps)"

definition validateTokenAuth :: "config \<Rightarrow> config_error option" where
  "validateTokenAuth c =
     (if au_Token (cfg_Auth c) = '''' \<and> au_Principals (cfg_Auth c) = [] then Some NoAuth
      else check_principals 0 (au_Principals (cfg_Auth c)))"

fun check_mappings :: "nat \<Rightarrow> role_mapping list \<Rightarrow> config_error option" where
  "check_mappings i [] = None"
| "check_mappings i (m # ms) =
     (if rm_Group m = '''' \<or> \<not> validRoles (rm_Role m) then Some (RoleMappingInvalid i (rm_Group m) (rm_Role m))
      else check_mappings (i + 1) ms)"

definition validateProxyAuth :: "config \<Rightarrow> config_error option" where
  "validateProxyAuth c =
     (let px = au_Proxy (cfg_Auth c)
      in if pa_TrustMode px = ''secret'' \<and> pa_SecretEnv px = '''' then Some SecretEnvMissing
         else if pa_TrustMode px = ''secret'' \<and> pa_Secret px = '''' then Some (SecretEmpty (pa_SecretEnv px))
         else if pa_TrustMode px \<noteq> ''secret'' \<and> pa_TrustMode px \<noteq> ''network'' then Some (TrustModeInvalid (pa_TrustMode px))
         else if pa_RoleMappings px = [] \<and> pa_DefaultRole px = '''' then Some NoRoleMappings
         else (case check_mappings 0 (pa_RoleMappings px) of
                 Some e \<Rightarrow> Some e
               | None \<Rightarrow>
                   if pa_DefaultRole px \<noteq> '''' \<and> \<not> validRoles (pa_DefaultRole px)
                   then Some (DefaultRoleInvalid (pa_DefaultRole px)) else None))"

definition validate :: "config \<Rightarrow> config_error option" where
  "validate c =
     (if cfg_ClusterDSN c = '''' then Some DSNMissing
      else let auth_err =
             (if au_Mode (cfg_Auth c) = ''token'' then validateTokenAuth c
              else if au_Mode (cfg_Auth c) = ''proxy'' then validateProxyAuth c
              else Some (ModeInvalid (au_Mode (cfg_Auth c))))
           in case auth_err of
                Some e \<Rightarrow> Some e
              | None \<Rightarrow>
                  if pe_Enabled (cfg_Persist c) \<and> pe_Path (cfg_Persist c) = '''' then Some PersistPathMissing
                  else None)"

section \<open>Loading\<close>

type_synonym env = "string \<Rightarrow> string"

text \<open>The secrets and overrides that come from the environment.\<close>

definition resolve_token :: "env \<Rightarrow> principal_config \<Rightarrow> principal_config" where
  "resolve_token getenv p = (if pc_TokenEnv p \<noteq> '''' then p\<lparr>pc_Token := getenv (pc_TokenEnv p)\<rparr> else p)"

text \<open>Names of the environment variables.\<close>

definition EnvDSN :: string where
  [simp]: "EnvDSN = ''PGLOCKR_DSN''"

definition EnvToken :: string where
  [simp]: "EnvToken = ''PGLOCKR_TOKEN''"

definition EnvHTTPAddr :: string where
  [simp]: "EnvHTTPAddr = ''PGLOCKR_HTTP_ADDR''"

definition EnvCluster :: string where
  [simp]: "EnvCluster = ''PGLOCKR_CLUSTER''"

definition EnvDBPath :: string where
  [simp]: "EnvDBPath = ''PGLOCKR_DB_PATH''"

definition EnvRedact :: string where
  [simp]: "EnvRedact = ''PGLOCKR_REDACT''"

definition apply_env :: "env \<Rightarrow> config \<Rightarrow> config" where
  "apply_env getenv c =
     (let au = cfg_Auth c; px = au_Proxy au; pe = cfg_Persist c
      in c\<lparr>cfg_ClusterDSN := getenv EnvDSN,
           cfg_Auth := au\<lparr>au_Token := getenv EnvToken,
             au_Principals := map (resolve_token getenv) (au_Principals au),
             au_Proxy := (if pa_SecretEnv px \<noteq> '''' then px\<lparr>pa_Secret := getenv (pa_SecretEnv px)\<rparr> else px)\<rparr>,
           cfg_Addr := (if getenv EnvHTTPAddr \<noteq> '''' then getenv EnvHTTPAddr else cfg_Addr c),
           cfg_ClusterName := (if getenv EnvCluster \<noteq> '''' then getenv EnvCluster else cfg_ClusterName c),
           cfg_Persist := (if getenv EnvDBPath \<noteq> ''''
             then pe\<lparr>pe_Path := getenv EnvDBPath, pe_Enabled := True\<rparr> else pe),
           cfg_Redaction := (if getenv EnvRedact = ''1'' \<or> EqualFold_ascii (getenv EnvRedact) ''true''
             then True else cfg_Redaction c)\<rparr>)"

definition or_default :: "string \<Rightarrow> string \<Rightarrow> string" where
  "or_default v d = (if v = '''' then d else v)"

definition proxy_defaults :: "proxy_auth \<Rightarrow> proxy_auth" where
  "proxy_defaults px =
     px\<lparr>pa_UserHeader := or_default (pa_UserHeader px) ''X-Auth-Request-Email'',
        pa_GroupsHeader := or_default (pa_GroupsHeader px) ''X-Auth-Request-Groups'',
        pa_GroupsSep := or_default (pa_GroupsSep px) '','',
        pa_TrustMode := or_default (pa_TrustMode px) ''secret'',
        pa_SecretHeader := or_default (pa_SecretHeader px) ''X-Pglockr-Proxy-Secret''\<rparr>"

definition auth_defaults :: "config \<Rightarrow> config" where
  "auth_defaults c =
     (let au = (cfg_Auth c)\<lparr>au_Mode := or_default (au_Mode (cfg_Auth c)) ''token''\<rparr>
      in c\<lparr>cfg_Auth := (if au_Mode au = ''proxy'' then au\<lparr>au_Proxy := proxy_defaults (au_Proxy au)\<rparr> else au)\<rparr>)"

text \<open>The defaults for numbers that are not positive and for empty names.\<close>

definition reapply_defaults :: "config \<Rightarrow> config" where
  "reapply_defaults c =
     (let d = Defaults; po = cfg_Poll c; pe = cfg_Persist c
      in c\<lparr>cfg_Persist := (if pe_Retention pe \<le> 0 then pe\<lparr>pe_Retention := pe_Retention (cfg_Persist d)\<rparr> else pe),
           cfg_Poll := po\<lparr>
             po_Interval := (if po_Interval po \<le> 0 then po_Interval (cfg_Poll d) else po_Interval po),
             po_RingSize := (if po_RingSize po \<le> 0 then po_RingSize (cfg_Poll d) else po_RingSize po),
             po_StatementTimeout := (if po_StatementTimeout po \<le> 0 then po_StatementTimeout (cfg_Poll d) else po_StatementTimeout po)\<rparr>,
           cfg_Addr := or_default (cfg_Addr c) (cfg_Addr d),
           cfg_ClusterName := or_default (cfg_ClusterName c) (cfg_ClusterName d)\<rparr>)"

definition read_config ::
  "(string \<Rightarrow> string + string) \<Rightarrow> (string \<Rightarrow> config \<Rightarrow> string + config) \<Rightarrow> string \<Rightarrow> config_error + config" where
  "read_config readFile unmarshal path =
     (if path = '''' then Inr Defaults
      else case readFile path of
             Inl err \<Rightarrow> Inl (ReadConfig path err)
           | Inr raw \<Rightarrow>
               (case unmarshal raw Defaults of
                  Inl err \<Rightarrow> Inl (ParseConfig path err)
                | Inr c \<Rightarrow> Inr c))"

definition Load ::
  "(string \<Rightarrow> string + string) \<Rightarrow> (string \<Rightarrow> config \<Rightarrow> string + config) \<Rightarrow> env \<Rightarrow> string \<Rightarrow> config_error + config" where
  "Load readFile unmarshal getenv path =
     (case read_config readFile unmarshal path of
        Inl e \<Rightarrow> Inl e
      | Inr c0 \<Rightarrow>
          let c = reapply_defaults (auth_defaults (apply_env getenv c0))
          in case validate c of Some e \<Rightarrow> Inl e | None \<Rightarrow> Inr c)"

section \<open>What a loaded configuration satisfies\<close>

lemma validRoles_iff: "validRoles r \<longleftrightarrow> valid_role r"
  by (auto simp: validRoles_def valid_role_iff RoleViewer_def RoleOperator_def RoleAdmin_def)

lemma check_principals_None:
  "check_principals i ps = None \<longleftrightarrow>
     list_all (\<lambda>p. pc_Name p \<noteq> '''' \<and> valid_role (pc_Role p) \<and> pc_TokenEnv p \<noteq> '''' \<and> pc_Token p \<noteq> '''') ps"
  by (induction ps arbitrary: i) (auto simp: validRoles_iff)

lemma check_mappings_None:
  "check_mappings i ms = None \<longleftrightarrow> list_all (\<lambda>m. rm_Group m \<noteq> '''' \<and> valid_role (rm_Role m)) ms"
  by (induction ms arbitrary: i) (auto simp: validRoles_iff)

definition token_auth_ok :: "auth_config \<Rightarrow> bool" where
  "token_auth_ok au \<longleftrightarrow>
     (au_Token au \<noteq> '''' \<or> au_Principals au \<noteq> []) \<and>
     list_all (\<lambda>p. pc_Name p \<noteq> '''' \<and> valid_role (pc_Role p) \<and> pc_TokenEnv p \<noteq> '''' \<and> pc_Token p \<noteq> '''') (au_Principals au)"

definition proxy_auth_ok :: "proxy_auth \<Rightarrow> bool" where
  "proxy_auth_ok px \<longleftrightarrow>
     (pa_TrustMode px = ''secret'' \<and> pa_Secret px \<noteq> '''' \<or> pa_TrustMode px = ''network'') \<and>
     (pa_RoleMappings px \<noteq> [] \<or> pa_DefaultRole px \<noteq> '''') \<and>
     list_all (\<lambda>m. rm_Group m \<noteq> '''' \<and> valid_role (rm_Role m)) (pa_RoleMappings px) \<and>
     (pa_DefaultRole px \<noteq> '''' \<longrightarrow> valid_role (pa_DefaultRole px))"

definition config_ok :: "config \<Rightarrow> bool" where
  "config_ok c \<longleftrightarrow>
     cfg_ClusterDSN c \<noteq> '''' \<and> cfg_ClusterName c \<noteq> '''' \<and> cfg_Addr c \<noteq> '''' \<and>
     0 < po_Interval (cfg_Poll c) \<and> 0 < po_RingSize (cfg_Poll c) \<and> 0 < po_StatementTimeout (cfg_Poll c) \<and>
     (pe_Enabled (cfg_Persist c) \<longrightarrow> pe_Path (cfg_Persist c) \<noteq> '''') \<and>
     (au_Mode (cfg_Auth c) = ''token'' \<and> token_auth_ok (cfg_Auth c) \<or>
      au_Mode (cfg_Auth c) = ''proxy'' \<and> proxy_auth_ok (au_Proxy (cfg_Auth c)) \<and>
        pa_UserHeader (au_Proxy (cfg_Auth c)) \<noteq> '''' \<and> pa_SecretHeader (au_Proxy (cfg_Auth c)) \<noteq> '''')"

lemma validate_None:
  "validate c = None \<longleftrightarrow>
     cfg_ClusterDSN c \<noteq> '''' \<and> \<not> (pe_Enabled (cfg_Persist c) \<and> pe_Path (cfg_Persist c) = '''') \<and>
     (if au_Mode (cfg_Auth c) = ''token'' then validateTokenAuth c = None
      else au_Mode (cfg_Auth c) = ''proxy'' \<and> validateProxyAuth c = None)"
  by (simp add: validate_def Let_def split: option.splits)

lemma validateTokenAuth_None: "validateTokenAuth c = None \<longleftrightarrow> token_auth_ok (cfg_Auth c)"
  by (auto simp: validateTokenAuth_def token_auth_ok_def check_principals_None)

lemma validateProxyAuth_None:
  "validateProxyAuth c = None \<longleftrightarrow>
     proxy_auth_ok (au_Proxy (cfg_Auth c)) \<and>
     (pa_TrustMode (au_Proxy (cfg_Auth c)) = ''secret'' \<longrightarrow> pa_SecretEnv (au_Proxy (cfg_Auth c)) \<noteq> '''')"
  using check_mappings_None [of 0 "pa_RoleMappings (au_Proxy (cfg_Auth c))"]
  by (cases "check_mappings 0 (pa_RoleMappings (au_Proxy (cfg_Auth c)))")
    (auto simp: validateProxyAuth_def proxy_auth_ok_def validRoles_iff Let_def)

lemma or_default_nonempty [simp]: "d \<noteq> '''' \<Longrightarrow> or_default v d \<noteq> ''''"
  by (simp add: or_default_def)

lemma reapply_defaults_fields [simp]:
  "cfg_ClusterDSN (reapply_defaults c) = cfg_ClusterDSN c" "cfg_Auth (reapply_defaults c) = cfg_Auth c"
  "cfg_ClusterName (reapply_defaults c) \<noteq> ''''" "cfg_Addr (reapply_defaults c) \<noteq> ''''"
  "0 < po_Interval (cfg_Poll (reapply_defaults c))" "0 < po_RingSize (cfg_Poll (reapply_defaults c))"
  "0 < po_StatementTimeout (cfg_Poll (reapply_defaults c))" "0 < pe_Retention (cfg_Persist (reapply_defaults c))"
  by (simp_all add: reapply_defaults_def Let_def Defaults_def second_def minute_def hour_def)

lemma Load_Inr:
  "Load readFile unmarshal getenv path = Inr c \<longleftrightarrow>
     (\<exists>c0. read_config readFile unmarshal path = Inr c0 \<and>
        c = reapply_defaults (auth_defaults (apply_env getenv c0)) \<and> validate c = None)"
  by (auto simp: Load_def Let_def split: sum.splits option.splits)

lemma auth_env_secrets:
  "let au = cfg_Auth (auth_defaults (apply_env getenv c0))
   in au_Token au = getenv EnvToken \<and>
      (\<forall>p \<in> set (au_Principals au). pc_TokenEnv p \<noteq> '''' \<longrightarrow> pc_Token p = getenv (pc_TokenEnv p)) \<and>
      (pa_SecretEnv (au_Proxy au) \<noteq> '''' \<longrightarrow> pa_Secret (au_Proxy au) = getenv (pa_SecretEnv (au_Proxy au))) \<and>
      (au_Mode au = ''proxy'' \<longrightarrow> pa_UserHeader (au_Proxy au) \<noteq> '''' \<and> pa_SecretHeader (au_Proxy au) \<noteq> '''')"
  by (auto simp: auth_defaults_def apply_env_def resolve_token_def proxy_defaults_def Let_def)

text \<open>C25: A configuration that \<open>Load\<close> returns is usable: the cadence, ring size and timeout
  are positive; there is a DSN; the authentication mode is one of the two and fully
  set up (every principal has a name, a valid role and a non-empty token; a proxy in the secret
  mode has a secret and every role is valid); an enabled persistence has a path. The DSN, the
  tokens and the secret in use are those of the environment, whatever the file says. (The
  retention is left out: a documented value of it is overridden, see \<open>Load_retention_default\<close>.)\<close>

theorem Load_sound:
  assumes "Load readFile unmarshal getenv path = Inr c"
  shows "config_ok c \<and> cfg_ClusterDSN c = getenv EnvDSN \<and>
    au_Token (cfg_Auth c) = getenv EnvToken \<and>
    (au_Mode (cfg_Auth c) = ''token'' \<longrightarrow>
       (\<forall>p \<in> set (au_Principals (cfg_Auth c)). pc_Token p = getenv (pc_TokenEnv p))) \<and>
    (au_Mode (cfg_Auth c) = ''proxy'' \<and> pa_TrustMode (au_Proxy (cfg_Auth c)) = ''secret'' \<longrightarrow>
       pa_Secret (au_Proxy (cfg_Auth c)) = getenv (pa_SecretEnv (au_Proxy (cfg_Auth c))))"
proof -
  from assms obtain c0 where c: "c = reapply_defaults (auth_defaults (apply_env getenv c0))" and v: "validate c = None"
    by (auto simp: Load_Inr)
  have sec: "au_Token (cfg_Auth c) = getenv EnvToken"
    "\<forall>p \<in> set (au_Principals (cfg_Auth c)). pc_TokenEnv p \<noteq> '''' \<longrightarrow> pc_Token p = getenv (pc_TokenEnv p)"
    "pa_SecretEnv (au_Proxy (cfg_Auth c)) \<noteq> '''' \<longrightarrow> pa_Secret (au_Proxy (cfg_Auth c)) = getenv (pa_SecretEnv (au_Proxy (cfg_Auth c)))"
    "au_Mode (cfg_Auth c) = ''proxy'' \<longrightarrow> pa_UserHeader (au_Proxy (cfg_Auth c)) \<noteq> '''' \<and> pa_SecretHeader (au_Proxy (cfg_Auth c)) \<noteq> ''''"
    using auth_env_secrets [of getenv c0] by (simp_all add: c Let_def)
  have dsn: "cfg_ClusterDSN c = getenv EnvDSN"
    by (simp add: c auth_defaults_def apply_env_def Let_def)
  have mode: "au_Mode (cfg_Auth c) = ''token'' \<and> token_auth_ok (cfg_Auth c) \<or>
      au_Mode (cfg_Auth c) = ''proxy'' \<and> proxy_auth_ok (au_Proxy (cfg_Auth c)) \<and>
        (pa_TrustMode (au_Proxy (cfg_Auth c)) = ''secret'' \<longrightarrow> pa_SecretEnv (au_Proxy (cfg_Auth c)) \<noteq> '''')"
    using v by (simp add: validate_None validateTokenAuth_None validateProxyAuth_None split: if_splits)
  have "config_ok c" using v mode sec(4) unfolding config_ok_def validate_None by (auto simp: c)
  moreover have "\<forall>p \<in> set (au_Principals (cfg_Auth c)). pc_TokenEnv p \<noteq> ''''" if "au_Mode (cfg_Auth c) = ''token''"
    using mode that by (auto simp: token_auth_ok_def list_all_iff)
  ultimately show ?thesis using dsn sec mode by auto
qed

text \<open>An environment with a DSN and a token, and a file that asks for a retention of zero.\<close>

definition demo_getenv :: env where
  "demo_getenv v = (if v = EnvDSN then ''d'' else if v = EnvToken then ''t'' else '''')"

definition demo_unmarshal :: "string \<Rightarrow> config \<Rightarrow> string + config" where
  "demo_unmarshal raw c = Inr (c\<lparr>cfg_Persist := (cfg_Persist c)\<lparr>pe_Retention := 0\<rparr>\<rparr>)"

definition demo_config :: config where
  "demo_config = Defaults\<lparr>cfg_ClusterDSN := ''d'',
     cfg_Auth := \<lparr>au_Mode = ''token'', au_Token = ''t'', au_Principals = [], au_Proxy = zero_proxy_auth\<rparr>\<rparr>"

lemma demo_Load: "Load (\<lambda>p. Inr ''retention: 0'') demo_unmarshal demo_getenv ''f'' = Inr demo_config"
  by (simp add: Load_def read_config_def demo_unmarshal_def Let_def apply_env_def auth_defaults_def or_default_def
      reapply_defaults_def Defaults_def demo_getenv_def zero_proxy_auth_def EqualFold_ascii_def
      demo_config_def validate_def validateTokenAuth_def second_def minute_def hour_def)

theorem Load_sound_witness:
  "\<exists>c. Load (\<lambda>p. Inr ''addr'') (\<lambda>raw c. Inr (c\<lparr>cfg_Addr := ''h:1''\<rparr>)) demo_getenv ''f'' = Inr c \<and> config_ok c \<and>
     cfg_Addr c = ''h:1'' \<and> au_Token (cfg_Auth c) = ''t''"
proof -
  have l: "Load (\<lambda>p. Inr ''addr'') (\<lambda>raw c. Inr (c\<lparr>cfg_Addr := ''h:1''\<rparr>)) demo_getenv ''f'' = Inr (demo_config\<lparr>cfg_Addr := ''h:1''\<rparr>)"
    by (simp add: Load_def read_config_def Let_def apply_env_def auth_defaults_def or_default_def
        reapply_defaults_def Defaults_def demo_getenv_def zero_proxy_auth_def EqualFold_ascii_def
        demo_config_def validate_def validateTokenAuth_def second_def minute_def hour_def)
  from Load_sound [OF l] l show ?thesis by (simp add: demo_getenv_def)
qed

text \<open>A retention of zero or less in the file, which the documentation gives as keeping the
  history for ever, never takes effect: the loaded configuration has the default of 24
  hours.\<close>

theorem Load_retention_default:
  assumes "read_config readFile unmarshal path = Inr c0" "pe_Retention (cfg_Persist c0) \<le> 0"
    and "Load readFile unmarshal getenv path = Inr c"
  shows "pe_Retention (cfg_Persist c) = 24 * hour"
proof -
  have "c = reapply_defaults (auth_defaults (apply_env getenv c0))" using assms(1,3) by (simp add: Load_Inr)
  moreover have "pe_Retention (cfg_Persist (auth_defaults (apply_env getenv c0))) = pe_Retention (cfg_Persist c0)"
    by (simp add: auth_defaults_def apply_env_def Let_def)
  ultimately show ?thesis using assms(2) by (simp add: reapply_defaults_def Defaults_def Let_def)
qed

theorem Load_retention_default_witness: "pe_Retention (cfg_Persist demo_config) = 24 * hour"
proof -
  have "read_config (\<lambda>p. Inr ''retention: 0'') demo_unmarshal ''f'' =
      Inr (Defaults\<lparr>cfg_Persist := (cfg_Persist Defaults)\<lparr>pe_Retention := 0\<rparr>\<rparr>)"
    by (simp add: read_config_def demo_unmarshal_def)
  from Load_retention_default [OF this _ demo_Load] show ?thesis by simp
qed

end
