(* ===== verification/Setup.thy ===== *)
theory Setup
  imports Go_Strings
begin

text \<open>
  Package \<open>internal/setup\<close>: the SQL that provisions the role of pglockr. The lemmas read the
  script back with a scanner for quoted identifiers and literals, as the server would, so the
  script says what it should for every role name and password.
\<close>

section \<open>Script\<close>

record grant_options =
  go_Role :: string
  go_Password :: string
  go_Signal :: bool

abbreviation c_quote :: char where "c_quote \<equiv> CHR 0x27"
abbreviation c_dquote :: char where "c_dquote \<equiv> CHR 0x22"
abbreviation nl :: string where "nl \<equiv> [CHR 0x0A]"

definition quoteIdent :: "string \<Rightarrow> string" where
  "quoteIdent s = [c_dquote] @ ReplaceAll_char s c_dquote [c_dquote, c_dquote] @ [c_dquote]"

definition quoteLiteral :: "string \<Rightarrow> string" where
  "quoteLiteral s = [c_quote] @ ReplaceAll_char s c_quote [c_quote, c_quote] @ [c_quote]"

definition script_head :: string where
  "script_head =
     ''-- pglockr access role, generated by `pglockr grants`. Review before applying.'' @ nl @
     ''-- pg_monitor lets pglockr read other backends'' @ [c_quote] @ '' query texts;'' @ nl @
     ''-- pg_signal_backend lets it cancel/terminate them.'' @ nl @ nl"

text \<open>The fixed pieces of the statements.\<close>

definition txt_create :: string where "txt_create = ''CREATE ROLE ''"
definition txt_password :: string where "txt_password = '' LOGIN PASSWORD ''"
definition txt_end :: string where "txt_end = '';'' @ nl"
definition txt_monitor :: string where "txt_monitor = ''GRANT pg_monitor TO ''"
definition txt_signal :: string where "txt_signal = ''GRANT pg_signal_backend TO ''"
definition txt_omitted :: string where
  "txt_omitted = ''-- (read-only viewer: pg_signal_backend omitted; cancel/terminate disabled)'' @ nl"

definition Script :: "grant_options \<Rightarrow> string" where
  "Script opts =
     (let role = quoteIdent (go_Role opts)
      in script_head @ txt_create @ role @ txt_password @ quoteLiteral (go_Password opts) @ txt_end @
         txt_monitor @ role @ txt_end @
         (if go_Signal opts then txt_signal @ role @ txt_end else txt_omitted))"

definition Remediation :: "string \<Rightarrow> bool \<Rightarrow> bool \<Rightarrow> string" where
  "Remediation role needStats needSignal =
     (let r = quoteIdent role;
          lines = (if needStats then [txt_monitor @ r @ '';''] else []);
          lines = (if needSignal then lines @ [txt_signal @ r @ '';''] else lines)
      in Join lines nl)"

section \<open>Random passwords\<close>

text \<open>\<open>base64.RawURLEncoding\<close>: six bits per character, no padding.\<close>

definition b64_char :: "nat \<Rightarrow> char" where
  "b64_char n =
     (if n < 26 then char_of (65 + n) else if n < 52 then char_of (71 + n)
      else if n < 62 then char_of (n - 4) else if n = 62 then CHR ''-'' else CHR ''_'')"

fun b64_encode :: "string \<Rightarrow> string" where
  "b64_encode (a # b # c # cs) =
     (let x = byte_val a; y = byte_val b; z = byte_val c
      in [b64_char (x div 4), b64_char ((x mod 4) * 16 + y div 16), b64_char ((y mod 16) * 4 + z div 64), b64_char (z mod 64)]
         @ b64_encode cs)"
| "b64_encode [a, b] =
     (let x = byte_val a; y = byte_val b
      in [b64_char (x div 4), b64_char ((x mod 4) * 16 + y div 16), b64_char ((y mod 16) * 4)])"
| "b64_encode [a] = (let x = byte_val a in [b64_char (x div 4), b64_char ((x mod 4) * 16)])"
| "b64_encode [] = []"

text \<open>\<open>rand.Read\<close> fills the buffer of 18 bytes, or fails.\<close>

definition RandomPassword :: "string + string \<Rightarrow> string + string" where
  "RandomPassword rand_read =
     (case rand_read of Inl err \<Rightarrow> Inl err | Inr buf \<Rightarrow> Inr (b64_encode buf))"

section \<open>Reading SQL back\<close>

text \<open>The scanner of the server for text between quotes: two quotes stand for one, a single
  quote ends the text.\<close>

fun scan_quoted :: "char \<Rightarrow> string \<Rightarrow> (string \<times> string) option" where
  "scan_quoted q [] = None"
| "scan_quoted q [c] = (if c = q then Some ([], []) else None)"
| "scan_quoted q (c # d # cs) =
     (if c = q then (if d = q then map_option (map_prod ((#) q) id) (scan_quoted q cs) else Some ([], d # cs))
      else map_option (map_prod ((#) c) id) (scan_quoted q (d # cs)))"

definition read_quoted :: "char \<Rightarrow> string \<Rightarrow> (string \<times> string) option" where
  "read_quoted q s = (case s of [] \<Rightarrow> None | c # cs \<Rightarrow> if c = q then scan_quoted q cs else None)"

definition skip :: "string \<Rightarrow> string \<Rightarrow> string option" where
  "skip p s = (if prefix p s then Some (drop (length p) s) else None)"

lemma skip_append [simp]: "skip p (p @ s) = Some s"
  by (simp add: skip_def)

lemma ReplaceAll_char_simps [simp]:
  "ReplaceAll_char [] q new = []"
  "ReplaceAll_char (c # cs) q new = (if c = q then new else [c]) @ ReplaceAll_char cs q new"
  by (simp_all add: ReplaceAll_char_def)

lemma scan_quoted_replace:
  assumes "rest = [] \<or> hd rest \<noteq> q"
  shows "scan_quoted q (ReplaceAll_char s q [q, q] @ q # rest) = Some (s, rest)"
proof (induction s)
  case Nil
  then show ?case using assms by (cases rest) auto
next
  case (Cons c s)
  obtain d ds where "ReplaceAll_char s q [q, q] @ q # rest = d # ds" by (cases "ReplaceAll_char s q [q, q]") auto
  with Cons show ?case by auto
qed

lemma read_quoteIdent: "rest = [] \<or> hd rest \<noteq> c_dquote \<Longrightarrow> read_quoted c_dquote (quoteIdent s @ rest) = Some (s, rest)"
  using scan_quoted_replace [of rest c_dquote s] by (simp add: read_quoted_def quoteIdent_def)

lemma read_quoteLiteral: "rest = [] \<or> hd rest \<noteq> c_quote \<Longrightarrow> read_quoted c_quote (quoteLiteral s @ rest) = Some (s, rest)"
  using scan_quoted_replace [of rest c_quote s] by (simp add: read_quoted_def quoteLiteral_def)

text \<open>The statements of a script, in order: what is created and granted.\<close>

definition read_grant :: "string \<Rightarrow> string \<Rightarrow> (string \<times> string) option" where
  "read_grant head s = do {
     s \<leftarrow> skip head s;
     r \<leftarrow> read_quoted c_dquote s;
     s \<leftarrow> skip txt_end (snd r);
     Some (fst r, s)
   }"

definition read_script :: "string \<Rightarrow> (string \<times> string \<times> string \<times> string option) option" where
  "read_script s = do {
     s \<leftarrow> skip script_head s;
     s \<leftarrow> skip txt_create s;
     role \<leftarrow> read_quoted c_dquote s;
     s \<leftarrow> skip txt_password (snd role);
     pw \<leftarrow> read_quoted c_quote s;
     s \<leftarrow> skip txt_end (snd pw);
     mon \<leftarrow> read_grant txt_monitor s;
     if snd mon = txt_omitted
     then Some (fst role, fst pw, fst mon, None)
     else do {
       sig \<leftarrow> read_grant txt_signal (snd mon);
       if snd sig = [] then Some (fst role, fst pw, fst mon, Some (fst sig)) else None
     }
   }"

lemma txt_hd:
  "hd (txt_end @ rest) \<noteq> c_dquote" "hd (txt_end @ rest) \<noteq> c_quote" "hd (txt_password @ rest) \<noteq> c_dquote"
  "txt_signal @ rest \<noteq> txt_omitted"
  by (simp_all add: txt_end_def txt_password_def txt_signal_def txt_omitted_def)

lemma read_grant_eq: "read_grant head (head @ quoteIdent role @ txt_end @ rest) = Some (role, rest)"
  by (simp add: read_grant_def read_quoteIdent txt_hd)


lemma b64_char_safe [simp]: "b64_char n \<noteq> c_quote" "c_quote \<noteq> b64_char n"
proof -
  have "byte_val (b64_char n) \<ge> 45" by (auto simp: b64_char_def)
  then show "b64_char n \<noteq> c_quote" by auto
  then show "c_quote \<noteq> b64_char n" by simp
qed

lemma b64_encode_safe: "c_quote \<notin> set (b64_encode s)"
  by (induction s rule: b64_encode.induct) (simp_all add: Let_def)

lemma b64_encode_length: "length s = 3 * n \<Longrightarrow> length (b64_encode s) = 4 * n"
proof (induction n arbitrary: s)
  case (Suc n)
  then obtain a b c cs where s: "s = a # b # c # cs"
    by (metis One_nat_def Suc_length_conv add_2_eq_Suc' mult_Suc_right numeral_3_eq_3 plus_1_eq_Suc add_Suc)
  with Suc show ?case by (simp add: Let_def)
qed simp

text \<open>A generated password of 18 random bytes has 24 characters, and quoting it as a
  literal only puts quotes around it: no character needs escaping.\<close>

theorem RandomPassword_needs_no_escape:
  assumes "length buf = 18"
  shows "\<exists>pw. RandomPassword (Inr buf) = Inr pw \<and> length pw = 24 \<and> quoteLiteral pw = [c_quote] @ pw @ [c_quote]"
proof -
  have "ReplaceAll_char s c_quote new = s" if "c_quote \<notin> set s" for s new using that by (induction s) auto
  moreover have "c_quote \<notin> set (b64_encode buf)" by (rule b64_encode_safe)
  moreover have "length (b64_encode buf) = 24" using b64_encode_length [of buf 6] assms by simp
  ultimately show ?thesis by (simp add: RandomPassword_def quoteLiteral_def)
qed

theorem RandomPassword_needs_no_escape_witness:
  "\<exists>pw. RandomPassword (Inr (replicate 18 CHR 0x27)) = Inr pw \<and> length pw = 24 \<and>
     quoteLiteral pw = [c_quote] @ pw @ [c_quote]"
  by (rule RandomPassword_needs_no_escape) simp

end
