(* ===== verification/Json_Strings.thy ===== *)
theory Json_Strings
  imports Rfc3339
begin

text \<open>
  JSON as package \<open>encoding/json\<close> writes and reads it. Strings: the escaping of the encoder
  (\<open>json_quote\<close>; HTML characters and invalid UTF-8 included) and the unquoting of the decoder
  (\<open>unquote\<close>). Documents: a scanner for the tokens, and the state machine of the decoder with its
  stack of open arrays and objects. A string and a key are kept as they stand between their
  quotes, a number as its literal: the target type decides what becomes of them.
\<close>

section \<open>Strings\<close>

abbreviation c_backslash :: char where "c_backslash \<equiv> CHR 0x5C"
abbreviation c_dq :: char where "c_dq \<equiv> CHR 0x22"

definition html_safe :: "nat \<Rightarrow> bool" where
  "html_safe b \<longleftrightarrow> 32 \<le> b \<and> b < 128 \<and> b \<noteq> 34 \<and> b \<noteq> 92 \<and> b \<noteq> 38 \<and> b \<noteq> 60 \<and> b \<noteq> 62"

definition esc_ascii :: "nat \<Rightarrow> string" where
  "esc_ascii b =
     (if html_safe b then [char_of b]
      else if b = 92 then [c_backslash, c_backslash]
      else if b = 34 then [c_backslash, c_dq]
      else if b = 8 then [c_backslash, CHR ''b'']
      else if b = 12 then [c_backslash, CHR ''f'']
      else if b = 10 then [c_backslash, CHR ''n'']
      else if b = 13 then [c_backslash, CHR ''r'']
      else if b = 9 then [c_backslash, CHR ''t'']
      else [c_backslash, CHR ''u'', CHR ''0'', CHR ''0'', hex_digit (b div 16), hex_digit (b mod 16)])"

text \<open>The text for the first rune of the bytes.\<close>

definition esc_step :: "nat list \<Rightarrow> string" where
  "esc_step bs =
     (case dec_bytes bs of
        (r, w) \<Rightarrow>
          if hd bs < 128 then esc_ascii (hd bs)
          else if r = rune_error \<and> w = 1 then [c_backslash, CHR ''u'', CHR ''f'', CHR ''f'', CHR ''f'', CHR ''d'']
          else if r = 8232 \<or> r = 8233 then [c_backslash, CHR ''u'', CHR ''2'', CHR ''0'', CHR ''2'', hex_digit (r mod 16)]
          else map char_of (take w bs))"

function quote_bytes :: "nat list \<Rightarrow> string" where
  "quote_bytes bs = (if bs = [] then [] else esc_step bs @ quote_bytes (drop (snd (dec_bytes bs)) bs))"
  by pat_completeness auto
termination
  by (relation "measure length") (auto simp: dec_bytes_pos)

declare quote_bytes.simps [simp del]

definition json_quote :: "string \<Rightarrow> string" where
  "json_quote s = quote_bytes (map byte_val s)"

definition hex_val :: "char \<Rightarrow> nat option" where
  "hex_val c =
     (let b = byte_val c
      in if 48 \<le> b \<and> b \<le> 57 then Some (b - 48)
         else if 97 \<le> b \<and> b \<le> 102 then Some (b - 87)
         else if 65 \<le> b \<and> b \<le> 70 then Some (b - 55) else None)"

primrec hex_num :: "nat \<Rightarrow> string \<Rightarrow> nat option" where
  "hex_num acc [] = Some acc"
| "hex_num acc (c # cs) = do { d \<leftarrow> hex_val c; hex_num (acc * 16 + d) cs }"

definition getu4 :: "string \<Rightarrow> nat option" where
  "getu4 s =
     (if length s < 6 \<or> s ! 0 \<noteq> c_backslash \<or> s ! 1 \<noteq> CHR ''u'' then None else hex_num 0 (take 4 (drop 2 s)))"

definition surrogate :: "nat \<Rightarrow> bool" where
  "surrogate r \<longleftrightarrow> 55296 \<le> r \<and> r < 57344"

text \<open>\<open>utf16.DecodeRune\<close>.\<close>

definition utf16_pair :: "nat \<Rightarrow> nat \<Rightarrow> rune" where
  "utf16_pair r1 r2 =
     (if 55296 \<le> r1 \<and> r1 < 56320 \<and> 56320 \<le> r2 \<and> r2 < 57344
      then (r1 - 55296) * 1024 + (r2 - 56320) + 65536 else rune_error)"

text \<open>One step of the decoder: what it writes and how many bytes it reads.\<close>

definition unquote_step :: "string \<Rightarrow> (string \<times> nat) option" where
  "unquote_step s =
     (case s of
        [] \<Rightarrow> None
      | c # cs \<Rightarrow>
          if c = c_backslash then
            (case cs of
               [] \<Rightarrow> None
             | e # _ \<Rightarrow>
                 if e = c_dq \<or> e = c_backslash \<or> e = CHR ''/'' \<or> e = CHR 0x27 then Some ([e], 2)
                 else if e = CHR ''b'' then Some ([CHR 0x08], 2)
                 else if e = CHR ''f'' then Some ([CHR 0x0C], 2)
                 else if e = CHR ''n'' then Some ([CHR 0x0A], 2)
                 else if e = CHR ''r'' then Some ([CHR 0x0D], 2)
                 else if e = CHR ''t'' then Some ([CHR 0x09], 2)
                 else if e = CHR ''u'' then
                   (case getu4 s of
                      None \<Rightarrow> None
                    | Some r \<Rightarrow>
                        if surrogate r
                        then (let r2 = (case getu4 (drop 6 s) of None \<Rightarrow> rune_error | Some r1 \<Rightarrow> utf16_pair r r1)
                              in if r2 \<noteq> rune_error then Some (enc_rune r2, 12) else Some (enc_rune rune_error, 6))
                        else Some (enc_rune r, 6))
                 else None)
          else if c = c_dq \<or> byte_val c < 32 then None
          else if byte_val c < 128 then Some ([c], 1)
          else (case dec_bytes (map byte_val s) of (r, w) \<Rightarrow> Some (enc_rune r, w)))"

lemma unquote_step_pos: "unquote_step s = Some (out, n) \<Longrightarrow> 0 < n"
  using dec_bytes_pos [of "map byte_val s"] by (auto simp: unquote_step_def Let_def split_beta simp del: dec_bytes.simps split: list.splits if_splits option.splits)

function unquote :: "string \<Rightarrow> string option" where
  "unquote s =
     (if s = [] then Some []
      else (case unquote_step s of None \<Rightarrow> None | Some (out, n) \<Rightarrow> map_option ((@) out) (unquote (drop n s))))"
  by pat_completeness auto
termination
  by (relation "measure length") (auto dest: unquote_step_pos)

declare unquote.simps [simp del]

definition prepend :: "string \<Rightarrow> (string \<times> 'a) option \<Rightarrow> (string \<times> 'a) option" where
  "prepend p = map_option (\<lambda>(r, rest). (p @ r, rest))"

lemma prepend_simps [simp]:
  "prepend p None = None" "prepend p (Some (r, rest)) = Some (p @ r, rest)" "prepend [] x = x"
  "prepend p (prepend q x) = prepend (p @ q) x"
  "prepend p x = Some (r, rest) \<longleftrightarrow> (\<exists>q. x = Some (q, rest) \<and> r = p @ q)"
  by (cases x; auto simp: prepend_def)+

text \<open>What the scanner takes for a string, up to the closing quote.\<close>

fun scan_text :: "string \<Rightarrow> (string \<times> string) option" where
  "scan_text [] = None"
| "scan_text (c # cs) =
     (if c = c_dq then Some ([], cs)
      else if byte_val c < 32 then None
      else if c = c_backslash then
        (case cs of
           [] \<Rightarrow> None
         | e # es \<Rightarrow>
             if e \<in> set [CHR ''b'', CHR ''f'', CHR ''n'', CHR ''r'', CHR ''t'', c_backslash, CHR ''/'', c_dq]
             then prepend [c, e] (scan_text es)
             else if e = CHR ''u'' then
               (if 4 \<le> length es \<and> hex_num 0 (take 4 es) \<noteq> None
                then prepend (c # e # take 4 es) (scan_text (drop 4 es)) else None)
             else None)
      else prepend [c] (scan_text cs))"

lemma scan_text_shorter: "scan_text s = Some (raw, rest) \<Longrightarrow> length rest < length s"
  by (induction s arbitrary: raw rule: scan_text.induct)
    (fastforce split: if_splits list.splits option.splits)+

section \<open>Round trip of strings\<close>

definition plain :: "char \<Rightarrow> bool" where
  "plain c \<longleftrightarrow> 32 \<le> byte_val c \<and> byte_val c \<noteq> 34 \<and> byte_val c \<noteq> 92"

lemma plain_facts: "plain c \<Longrightarrow> 32 \<le> byte_val c \<and> c \<noteq> c_dq \<and> c \<noteq> c_backslash"
  by (auto simp: plain_def)

lemma scan_plain:
  "list_all plain p \<Longrightarrow> scan_text (p @ t) = prepend p (scan_text t)"
  by (induction p) (auto dest: plain_facts)

text \<open>Decoding looks at the bytes of one rune only.\<close>

lemma dec_bytes_local:
  assumes "dec_bytes bs = (r, w)" "bs \<noteq> []" "128 \<le> hd bs" "\<not> (r = rune_error \<and> w = 1)"
  shows "w \<le> length bs \<and> dec_bytes (take w bs @ xs) = (r, w) \<and> (\<forall>b \<in> set (take w bs). 128 \<le> b)"
  using assms by (cases bs) (auto simp: second_ok_def cont_byte_def split: list.splits if_splits)

lemma hex_val_digit [simp]: "n < 16 \<Longrightarrow> hex_val (hex_digit n) = Some n"
  using hex_digit_val [of n] by (auto simp: hex_val_def Let_def split: if_splits)

lemma hex_val_ascii [simp]:
  "hex_val (CHR ''0'') = Some 0" "hex_val (CHR ''2'') = Some 2" "hex_val (CHR ''f'') = Some 15" "hex_val (CHR ''d'') = Some 13"
  by (simp_all add: hex_val_def)

lemma scan_escape:
  "e \<in> {CHR ''b'', CHR ''f'', CHR ''n'', CHR ''r'', CHR ''t'', c_backslash, CHR ''/'', c_dq} \<Longrightarrow>
     scan_text (c_backslash # e # t) = prepend [c_backslash, e] (scan_text t)"
  "hex_num 0 [h1, h2, h3, h4] \<noteq> None \<Longrightarrow>
     scan_text (c_backslash # CHR ''u'' # h1 # h2 # h3 # h4 # t) = prepend [c_backslash, CHR ''u'', h1, h2, h3, h4] (scan_text t)"
  by auto

lemma scan_ascii: "b < 128 \<Longrightarrow> scan_text (esc_ascii b @ t) = prepend (esc_ascii b) (scan_text t)"
proof (cases "html_safe b")
  case True
  then have "plain (char_of b)" by (auto simp: html_safe_def plain_def)
  with True show ?thesis using scan_plain [of "[char_of b]" t] by (simp add: esc_ascii_def)
next
  case False
  assume "b < 128"
  then have "b div 16 < 16" "b mod 16 < 16" by auto
  with False show ?thesis by (simp add: esc_ascii_def scan_escape del: scan_text.simps)
qed

lemma scan_step:
  assumes "bs \<noteq> []" "\<forall>b \<in> set bs. b < 256"
  shows "scan_text (esc_step bs @ t) = prepend (esc_step bs) (scan_text t)"
proof -
  obtain r w where d: "dec_bytes bs = (r, w)" by (cases "dec_bytes bs")
  consider "hd bs < 128" | "128 \<le> hd bs" "r = rune_error \<and> w = 1" | "128 \<le> hd bs" "\<not> (r = rune_error \<and> w = 1)" "r = 8232 \<or> r = 8233"
    | "128 \<le> hd bs" "\<not> (r = rune_error \<and> w = 1)" "\<not> (r = 8232 \<or> r = 8233)" by linarith
  then show ?thesis
  proof cases
    case 4
    with dec_bytes_local [OF d assms(1) 4(1,2), of "[]"] have "\<forall>b \<in> set (take w bs). 128 \<le> b" by blast
    moreover have "\<forall>b \<in> set (take w bs). b < 256" using assms(2) by (meson in_set_takeD)
    ultimately have "list_all plain (map char_of (take w bs))" by (fastforce simp: list_all_iff plain_def)
    with 4 d show ?thesis using scan_plain by (simp add: esc_step_def)
  qed (use d in \<open>auto simp: esc_step_def scan_ascii scan_escape simp del: scan_text.simps\<close>)
qed

lemma scan_quote_bytes: "\<forall>b \<in> set bs. b < 256 \<Longrightarrow> scan_text (quote_bytes bs @ c_dq # rest) = Some (quote_bytes bs, rest)"
proof (induction bs rule: quote_bytes.induct)
  case (1 bs)
  show ?case
  proof (cases "bs = []")
    case False
    have "\<forall>b \<in> set (drop (snd (dec_bytes bs)) bs). b < 256" using 1(2) by (meson in_set_dropD)
    from 1(1) [OF False this] False scan_step [OF False 1(2)] show ?thesis
      by (subst (1 2) quote_bytes.simps) (simp del: scan_text.simps)
  qed (simp add: quote_bytes.simps)
qed

lemma scan_quote: "scan_text (json_quote s @ c_dq # rest) = Some (json_quote s, rest)"
  unfolding json_quote_def by (rule scan_quote_bytes) auto

section \<open>Unquoting\<close>

lemma unquote_by_step: "unquote_step s = Some (out, n) \<Longrightarrow> unquote s = map_option ((@) out) (unquote (drop n s))"
  by (subst unquote.simps) (auto simp: unquote_step_def)

lemma control_chars:
  "char_of (8::nat) = CHR 0x08" "char_of (9::nat) = CHR 0x09" "char_of (10::nat) = CHR 0x0A" "char_of (12::nat) = CHR 0x0C"
  "char_of (13::nat) = CHR 0x0D" "char_of (34::nat) = c_dq" "char_of (92::nat) = c_backslash"
  by code_simp+

lemma unquote_step_ascii:
  assumes "b < 128"
  shows "unquote_step (esc_ascii b @ t) = Some (enc_rune b, length (esc_ascii b))"
proof (cases "html_safe b")
  case True
  then have "plain (char_of b)" by (auto simp: html_safe_def plain_def)
  with True assms plain_facts [OF this] show ?thesis by (simp add: unquote_step_def esc_ascii_def enc_rune_ascii)
next
  case False
  have u: "b div 16 < 16" "b mod 16 < 16" "(b div 16) * 16 + b mod 16 = b" "\<not> surrogate b" using assms by (auto simp: surrogate_def)
  then have "getu4 ([c_backslash, CHR ''u'', CHR ''0'', CHR ''0'', hex_digit (b div 16), hex_digit (b mod 16)] @ t) = Some b"
    by (simp add: getu4_def)
  with False u(4) assms show ?thesis by (simp add: unquote_step_def esc_ascii_def enc_rune_ascii control_chars)
qed

lemma unquote_step_high:
  "128 \<le> byte_val c \<Longrightarrow> dec_bytes (map byte_val (c # cs)) = (r, w) \<Longrightarrow> unquote_step (c # cs) = Some (enc_rune r, w)"
  by (auto simp: unquote_step_def simp del: dec_bytes.simps)

lemma unquote_step_esc:
  assumes "bs \<noteq> []" "\<forall>b \<in> set bs. b < 256"
  shows "unquote_step (esc_step bs @ t) = Some (enc_rune (fst (dec_bytes bs)), length (esc_step bs))"
proof -
  obtain r w where d: "dec_bytes bs = (r, w)" by (cases "dec_bytes bs")
  consider "hd bs < 128" | "128 \<le> hd bs" "r = rune_error \<and> w = 1" | "128 \<le> hd bs" "\<not> (r = rune_error \<and> w = 1)" "r = 8232 \<or> r = 8233"
    | "128 \<le> hd bs" "\<not> (r = rune_error \<and> w = 1)" "\<not> (r = 8232 \<or> r = 8233)" by linarith
  then show ?thesis
  proof cases
    case 1
    then have "r = hd bs" using d assms(1) by (cases bs) auto
    with 1 d unquote_step_ascii [OF 1, of t] show ?thesis by (simp add: esc_step_def)
  next
    case 4
    note loc = dec_bytes_local [OF d assms(1) 4(1,2)]
    have w: "0 < w" "w \<le> length bs" using dec_bytes_pos [of bs] d loc by auto
    then obtain c cs where c: "map char_of (take w bs) = c # cs" "byte_val c = hd bs"
      using assms by (cases bs; cases w) auto
    have "map byte_val (map char_of (take w bs) @ t) = take w bs @ map byte_val t"
      using assms(2) by (auto intro!: map_idI dest: in_set_takeD)
    then have "dec_bytes (map byte_val (c # cs @ t)) = (r, w)" using loc unfolding c(1) append_Cons by metis
    then have "unquote_step (map char_of (take w bs) @ t) = Some (enc_rune r, w)"
      unfolding c(1) append_Cons by (rule unquote_step_high [rotated]) (use 4(1) c(2) in simp)
    with 4 d w show ?thesis by (auto simp: esc_step_def min_absorb2)
  qed (use d in \<open>auto simp: esc_step_def unquote_step_def getu4_def surrogate_def\<close>)
qed

text \<open>Reading back what was written: every rune, invalid bytes as U+FFFD.\<close>

lemma unquote_quote_bytes: "\<forall>b \<in> set bs. b < 256 \<Longrightarrow> unquote (quote_bytes bs) = Some (string_of (dec_all bs))"
proof (induction bs rule: quote_bytes.induct)
  case (1 bs)
  show ?case
  proof (cases "bs = []")
    case False
    let ?rest = "drop (snd (dec_bytes bs)) bs"
    have "\<forall>b \<in> set ?rest. b < 256" using 1(2) by (meson in_set_dropD)
    from 1(1) [OF False this] unquote_by_step [OF unquote_step_esc [OF False 1(2), of "quote_bytes ?rest"]] False show ?thesis
      by (simp add: quote_bytes.simps [of bs] dec_all.simps [of bs])
  qed (simp add: quote_bytes.simps unquote.simps)
qed

lemma unquote_quote: "unquote (json_quote s) = Some (string_of (runes_of s))"
  unfolding json_quote_def runes_of_def by (rule unquote_quote_bytes) auto

end
