(* ===== verification/Json.thy ===== *)
theory Json
  imports Json_Strings
begin

text \<open>
  JSON documents: the text of a value, the tokens of a text, and the state machine of the decoder
  with its stack of open arrays and objects, which \<open>encoding/json\<close> limits to a depth of 10000.
  What the encoder writes for a value is parsed back into that value.
\<close>

section \<open>Values and their text\<close>

datatype jvalue = JNull | JBool bool | JNumber string | JString string | JArray "jvalue list"
  | JObject "(string \<times> jvalue) list"

fun separated :: "'a \<Rightarrow> 'a list list \<Rightarrow> 'a list" where
  "separated sep [] = []"
| "separated sep [x] = x"
| "separated sep (x # y # zs) = x @ sep # separated sep (y # zs)"

abbreviation quoted_raw :: "string \<Rightarrow> string" where
  "quoted_raw raw \<equiv> c_dq # raw @ [c_dq]"

fun json_text :: "jvalue \<Rightarrow> string" where
  "json_text JNull = ''null''"
| "json_text (JBool b) = (if b then ''true'' else ''false'')"
| "json_text (JNumber n) = n"
| "json_text (JString raw) = quoted_raw raw"
| "json_text (JArray vs) = CHR ''['' # separated (CHR '','') (map json_text vs) @ '']''"
| "json_text (JObject ms) =
     CHR ''{'' # separated (CHR '','') (map (\<lambda>(k, v). quoted_raw k @ CHR '':'' # json_text v) ms) @ ''}''"

section \<open>Tokens\<close>

datatype jtoken = TLBrace | TRBrace | TLBracket | TRBracket | TColon | TComma | TNull | TTrue | TFalse
  | TNumber string | TString string

definition scan_digits :: "string \<Rightarrow> (string \<times> string) option" where
  "scan_digits s = (if takeWhile is_digit s = [] then None else Some (takeWhile is_digit s, dropWhile is_digit s))"

definition scan_integer :: "string \<Rightarrow> (string \<times> string) option" where
  "scan_integer s = (if s \<noteq> [] \<and> hd s = CHR ''0'' then Some (''0'', tl s) else scan_digits s)"

definition scan_fraction :: "string \<Rightarrow> (string \<times> string) option" where
  "scan_fraction s = (if s \<noteq> [] \<and> hd s = CHR ''.'' then prepend ''.'' (scan_digits (tl s)) else Some ([], s))"

definition scan_exponent :: "string \<Rightarrow> (string \<times> string) option" where
  "scan_exponent s =
     (if s \<noteq> [] \<and> (hd s = CHR ''e'' \<or> hd s = CHR ''E'')
      then (if tl s \<noteq> [] \<and> (hd (tl s) = CHR ''+'' \<or> hd (tl s) = CHR ''-'')
            then prepend [hd s, hd (tl s)] (scan_digits (tl (tl s))) else prepend [hd s] (scan_digits (tl s)))
      else Some ([], s))"

definition scan_number :: "string \<Rightarrow> (string \<times> string) option" where
  "scan_number s =
     (let (sign, s) = (if s \<noteq> [] \<and> hd s = CHR ''-'' then (''-'', tl s) else ([], s))
      in do {
        (i, s) \<leftarrow> scan_integer s;
        (f, s) \<leftarrow> scan_fraction s;
        (e, s) \<leftarrow> scan_exponent s;
        Some (sign @ i @ f @ e, s)
      })"

definition json_space :: "char \<Rightarrow> bool" where
  "json_space c \<longleftrightarrow> byte_val c = 32 \<or> byte_val c = 9 \<or> byte_val c = 10 \<or> byte_val c = 13"

definition punctuation :: "char \<Rightarrow> jtoken option" where
  "punctuation c =
     (if c = CHR ''{'' then Some TLBrace else if c = CHR ''}'' then Some TRBrace
      else if c = CHR ''['' then Some TLBracket else if c = CHR '']'' then Some TRBracket
      else if c = CHR '':'' then Some TColon else if c = CHR '','' then Some TComma else None)"

definition next_token :: "string \<Rightarrow> (jtoken \<times> string) option" where
  "next_token s =
     (case s of
        [] \<Rightarrow> None
      | c # cs \<Rightarrow>
          (case punctuation c of
             Some t \<Rightarrow> Some (t, cs)
           | None \<Rightarrow>
               if c = c_dq then map_option (\<lambda>(raw, rest). (TString raw, rest)) (scan_text cs)
               else if prefix ''null'' s then Some (TNull, drop 4 s)
               else if prefix ''true'' s then Some (TTrue, drop 4 s)
               else if prefix ''false'' s then Some (TFalse, drop 5 s)
               else map_option (\<lambda>(n, rest). (TNumber n, rest)) (scan_number s)))"

lemma scan_digits_shorter: "scan_digits s = Some (d, rest) \<Longrightarrow> length rest < length s"
  by (cases s) (auto simp: scan_digits_def split: if_splits intro: le_imp_less_Suc length_dropWhile_le)

lemma scan_number_shorter:
  assumes "scan_number s = Some (n, rest)"
  shows "length rest < length s"
proof -
  have "length r < length x" if "scan_integer x = Some (i, r)" for x i r
    using that scan_digits_shorter [of x i r] by (auto simp: scan_integer_def neq_Nil_conv split: if_splits)
  moreover have "length r \<le> length x" if "scan_fraction x = Some (i, r)" for x i r
    using that scan_digits_shorter [of "tl x"] by (cases x) (auto simp: scan_fraction_def split: if_splits)
  moreover have "length r \<le> length x" if "scan_exponent x = Some (i, r)" for x i r
    using that scan_digits_shorter [of "tl x"] scan_digits_shorter [of "tl (tl x)"]
    by (cases x; cases "tl x") (auto simp: scan_exponent_def split: if_splits)
  ultimately show ?thesis using assms
    by (auto simp: scan_number_def Let_def bind_eq_Some_conv split: if_splits) (fastforce simp: neq_Nil_conv)+
qed

lemma next_token_shorter: "next_token s = Some (t, rest) \<Longrightarrow> length rest < length s"
  by (cases s) (auto simp: next_token_def split: option.splits if_splits dest: scan_text_shorter scan_number_shorter)

definition before :: "'a list \<Rightarrow> 'a list option \<Rightarrow> 'a list option" where
  "before xs = map_option ((@) xs)"

lemma before_simps [simp]: "before [] x = x" "before xs (before ys x) = before (xs @ ys) x" "before xs (Some ys) = Some (xs @ ys)"
  by (cases x; simp add: before_def)+

function json_lex :: "string \<Rightarrow> jtoken list option" where
  "json_lex s =
     (if s = [] then Some []
      else if json_space (hd s) then json_lex (tl s)
      else (case next_token s of None \<Rightarrow> None | Some (t, rest) \<Rightarrow> before [t] (json_lex rest)))"
  by pat_completeness auto
termination
  by (relation "measure length") (auto dest: next_token_shorter)

declare json_lex.simps [simp del]

section \<open>The decoder\<close>

datatype frame = OpenArray "jvalue list" | OpenObject "(string \<times> jvalue) list" | OpenMember "(string \<times> jvalue) list" string

text \<open>\<open>WantValue\<close> and \<open>WantKey\<close> say whether the array or object may still be closed at once.\<close>

datatype expected = WantValue bool | WantKey bool | WantColon | WantSeparator | Finished jvalue

abbreviation max_depth :: nat where "max_depth \<equiv> 10000"

fun push_value :: "jvalue \<Rightarrow> frame list \<Rightarrow> (expected \<times> frame list) option" where
  "push_value v [] = Some (Finished v, [])"
| "push_value v (OpenArray vs # fs) = Some (WantSeparator, OpenArray (vs @ [v]) # fs)"
| "push_value v (OpenMember ms k # fs) = Some (WantSeparator, OpenObject (ms @ [(k, v)]) # fs)"
| "push_value v (OpenObject ms # fs) = None"

definition push_frame :: "expected \<Rightarrow> frame \<Rightarrow> frame list \<Rightarrow> (expected \<times> frame list) option" where
  "push_frame e f fs = (if length fs < max_depth then Some (e, f # fs) else None)"

fun begin_member :: "string \<Rightarrow> frame list \<Rightarrow> (expected \<times> frame list) option" where
  "begin_member raw (OpenObject ms # fs) = Some (WantColon, OpenMember ms raw # fs)"
| "begin_member raw fs = None"

fun next_item :: "frame list \<Rightarrow> (expected \<times> frame list) option" where
  "next_item (OpenArray vs # fs) = Some (WantValue False, OpenArray vs # fs)"
| "next_item (OpenObject ms # fs) = Some (WantKey False, OpenObject ms # fs)"
| "next_item fs = None"

fun close_array :: "frame list \<Rightarrow> (expected \<times> frame list) option" where
  "close_array (OpenArray vs # fs) = push_value (JArray vs) fs"
| "close_array fs = None"

fun close_object :: "frame list \<Rightarrow> (expected \<times> frame list) option" where
  "close_object (OpenObject ms # fs) = push_value (JObject ms) fs"
| "close_object fs = None"

definition accept :: "expected \<Rightarrow> frame list \<Rightarrow> jtoken \<Rightarrow> (expected \<times> frame list) option" where
  "accept e fs t =
     (case e of
        WantValue may_close \<Rightarrow>
          (case t of
             TNull \<Rightarrow> push_value JNull fs
           | TTrue \<Rightarrow> push_value (JBool True) fs
           | TFalse \<Rightarrow> push_value (JBool False) fs
           | TNumber n \<Rightarrow> push_value (JNumber n) fs
           | TString raw \<Rightarrow> push_value (JString raw) fs
           | TLBracket \<Rightarrow> push_frame (WantValue True) (OpenArray []) fs
           | TLBrace \<Rightarrow> push_frame (WantKey True) (OpenObject []) fs
           | TRBracket \<Rightarrow> if may_close then close_array fs else None
           | _ \<Rightarrow> None)
      | WantKey may_close \<Rightarrow>
          (case t of
             TString raw \<Rightarrow> begin_member raw fs
           | TRBrace \<Rightarrow> if may_close then close_object fs else None
           | _ \<Rightarrow> None)
      | WantColon \<Rightarrow> if t = TColon then Some (WantValue False, fs) else None
      | WantSeparator \<Rightarrow>
          (case t of
             TComma \<Rightarrow> next_item fs
           | TRBracket \<Rightarrow> close_array fs
           | TRBrace \<Rightarrow> close_object fs
           | _ \<Rightarrow> None)
      | Finished v \<Rightarrow> None)"

fun decode_tokens :: "jtoken list \<Rightarrow> expected \<times> frame list \<Rightarrow> jvalue option" where
  "decode_tokens [] (Finished v, fs) = Some v"
| "decode_tokens [] _ = None"
| "decode_tokens (t # ts) (e, fs) = Option.bind (accept e fs t) (decode_tokens ts)"

definition json_parse :: "string \<Rightarrow> jvalue option" where
  "json_parse s = (case json_lex s of None \<Rightarrow> None | Some ts \<Rightarrow> decode_tokens ts (WantValue False, []))"

section \<open>Round trip of documents\<close>

fun tokens :: "jvalue \<Rightarrow> jtoken list" where
  "tokens JNull = [TNull]"
| "tokens (JBool b) = [if b then TTrue else TFalse]"
| "tokens (JNumber n) = [TNumber n]"
| "tokens (JString raw) = [TString raw]"
| "tokens (JArray vs) = TLBracket # separated TComma (map tokens vs) @ [TRBracket]"
| "tokens (JObject ms) = TLBrace # separated TComma (map (\<lambda>(k, v). TString k # TColon # tokens v) ms) @ [TRBrace]"

fun nested :: "jvalue \<Rightarrow> nat \<Rightarrow> bool" where
  "nested (JArray vs) n \<longleftrightarrow> 0 < n \<and> (\<forall>v \<in> set vs. nested v (n - 1))"
| "nested (JObject ms) n \<longleftrightarrow> 0 < n \<and> (\<forall>(k, v) \<in> set ms. nested v (n - 1))"
| "nested _ n \<longleftrightarrow> True"

definition delimited :: "string \<Rightarrow> bool" where
  "delimited s \<longleftrightarrow> s = [] \<or> hd s = CHR '','' \<or> hd s = CHR '']'' \<or> hd s = CHR ''}'' \<or> json_space (hd s)"

definition string_body :: "string \<Rightarrow> bool" where
  "string_body raw \<longleftrightarrow> (\<forall>rest. scan_text (raw @ c_dq # rest) = Some (raw, rest))"

definition number_literal :: "string \<Rightarrow> bool" where
  "number_literal n \<longleftrightarrow>
     n \<noteq> [] \<and> (hd n = CHR ''-'' \<or> is_digit (hd n)) \<and> (\<forall>rest. delimited rest \<longrightarrow> scan_number (n @ rest) = Some (n, rest))"

text \<open>Values an encoder writes: their strings and numbers are those the scanner takes.\<close>

fun writable :: "jvalue \<Rightarrow> bool" where
  "writable (JNumber n) \<longleftrightarrow> number_literal n"
| "writable (JString raw) \<longleftrightarrow> string_body raw"
| "writable (JArray vs) \<longleftrightarrow> (\<forall>v \<in> set vs. writable v)"
| "writable (JObject ms) \<longleftrightarrow> (\<forall>(k, v) \<in> set ms. string_body k \<and> writable v)"
| "writable _ \<longleftrightarrow> True"

subsection \<open>Scanning\<close>

lemma json_lex_token: "next_token s = Some (t, rest) \<Longrightarrow> \<not> json_space (hd s) \<Longrightarrow> json_lex s = before [t] (json_lex rest)"
  by (subst json_lex.simps) (auto simp: next_token_def)

lemma lex_punctuation: "punctuation c = Some t \<Longrightarrow> json_lex (c # s) = before [t] (json_lex s)"
  by (rule json_lex_token) (auto simp: next_token_def punctuation_def json_space_def split: if_splits)

lemma lex_string: "string_body raw \<Longrightarrow> json_lex (c_dq # raw @ c_dq # s) = before [TString raw] (json_lex s)"
  by (rule json_lex_token) (auto simp: next_token_def punctuation_def json_space_def string_body_def)

lemma lex_number:
  assumes "number_literal n" "delimited s"
  shows "json_lex (n @ s) = before [TNumber n] (json_lex s)"
proof (rule json_lex_token)
  from assms obtain c cs where n: "n = c # cs" "c = CHR ''-'' \<or> is_digit c" "scan_number (n @ s) = Some (n, s)"
    by (auto simp: number_literal_def neq_Nil_conv)
  then have c: "byte_val c = 45 \<or> 48 \<le> byte_val c \<and> byte_val c \<le> 57" by (auto simp: is_digit_def digit_of_def split: if_splits)
  then have "punctuation c = None" "c \<noteq> c_dq" "c \<noteq> CHR ''n''" "c \<noteq> CHR ''t''" "c \<noteq> CHR ''f''" by (auto simp: punctuation_def)
  with n show "next_token (n @ s) = Some (TNumber n, s)" by (simp add: next_token_def)
  show "\<not> json_space (hd (n @ s))" using c n(1) by (auto simp: json_space_def)
qed

lemma separated_Cons: "xs \<noteq> [] \<Longrightarrow> separated sep (x # xs) = x @ sep # separated sep xs"
  by (cases xs) simp_all

lemma lex_separated:
  assumes "\<And>x rest. x \<in> set xs \<Longrightarrow> delimited rest \<Longrightarrow> json_lex (f x @ rest) = before (g x) (json_lex rest)" "delimited rest"
  shows "json_lex (separated (CHR '','') (map f xs) @ rest) = before (separated TComma (map g xs)) (json_lex rest)"
  using assms
proof (induction xs)
  case (Cons x xs)
  show ?case
  proof (cases "xs = []")
    case False
    have "json_lex (CHR '','' # separated (CHR '','') (map f xs) @ rest) = before (TComma # separated TComma (map g xs)) (json_lex rest)"
      using Cons by (simp add: lex_punctuation punctuation_def)
    with False show ?thesis using Cons.prems(1) [of x "CHR '','' # separated (CHR '','') (map f xs) @ rest"]
      by (simp add: separated_Cons delimited_def)
  qed (use Cons.prems in simp)
qed simp

lemma lex_json_text: "writable v \<Longrightarrow> delimited rest \<Longrightarrow> json_lex (json_text v @ rest) = before (tokens v) (json_lex rest)"
proof (induction v arbitrary: rest)
  case JNull
  then show ?case by (simp add: json_lex_token [of _ TNull rest] next_token_def punctuation_def json_space_def)
next
  case (JBool b)
  then show ?case
    by (cases b) (simp_all add: json_lex_token [of _ TTrue rest] json_lex_token [of _ TFalse rest] next_token_def punctuation_def json_space_def)
next
  case (JNumber n)
  then show ?case by (simp add: lex_number)
next
  case (JString raw)
  then show ?case by (simp add: lex_string)
next
  case (JArray vs)
  have "json_lex (separated (CHR '','') (map json_text vs) @ CHR '']'' # rest) =
      before (separated TComma (map tokens vs)) (json_lex (CHR '']'' # rest))"
    by (rule lex_separated) (use JArray in \<open>auto simp: delimited_def\<close>)
  then show ?case by (simp add: lex_punctuation punctuation_def)
next
  case (JObject ms)
  have "json_lex (separated (CHR '','') (map (\<lambda>(k, v). quoted_raw k @ CHR '':'' # json_text v) ms) @ CHR ''}'' # rest) =
      before (separated TComma (map (\<lambda>(k, v). TString k # TColon # tokens v) ms)) (json_lex (CHR ''}'' # rest))"
  proof (rule lex_separated)
    fix m rest assume m: "m \<in> set ms" "delimited rest"
    obtain k v where kv: "m = (k, v)" by (cases m)
    with m(1) JObject.prems(1) have "string_body k" "writable v" by auto
    with JObject.IH [of m v rest] m kv show "json_lex ((case m of (k, v) \<Rightarrow> quoted_raw k @ CHR '':'' # json_text v) @ rest) =
        before (case m of (k, v) \<Rightarrow> TString k # TColon # tokens v) (json_lex rest)"
      by (simp add: lex_string lex_punctuation punctuation_def)
  qed (simp add: delimited_def)
  then show ?case by (simp add: lex_punctuation punctuation_def)
qed

subsection \<open>Decoding\<close>

lemma decode_elements:
  assumes "\<And>v ts us. v \<in> set vs \<Longrightarrow> decode_tokens (tokens v @ ts) (WantValue e, OpenArray us # fs) =
      decode_tokens ts (WantSeparator, OpenArray (us @ [v]) # fs)"
    "\<And>v ts us. v \<in> set vs \<Longrightarrow> decode_tokens (tokens v @ ts) (WantValue False, OpenArray us # fs) =
      decode_tokens ts (WantSeparator, OpenArray (us @ [v]) # fs)"
    "vs \<noteq> [] \<or> e"
  shows "decode_tokens (separated TComma (map tokens vs) @ TRBracket # ts) (WantValue e, OpenArray us # fs) =
    Option.bind (push_value (JArray (us @ vs)) fs) (decode_tokens ts)"
  using assms
proof (induction vs arbitrary: e us)
  case (Cons v vs)
  show ?case
  proof (cases "vs = []")
    case False
    then have "decode_tokens (separated TComma (map tokens vs) @ TRBracket # ts) (WantValue False, OpenArray (us @ [v]) # fs) =
        Option.bind (push_value (JArray ((us @ [v]) @ vs)) fs) (decode_tokens ts)"
      by (intro Cons.IH) (simp_all add: Cons.prems)
    with False show ?thesis by (simp add: separated_Cons Cons.prems(1) accept_def)
  qed (simp add: Cons.prems(1) accept_def)
qed (simp add: accept_def)

lemma decode_members:
  assumes "\<And>k v ts us. (k, v) \<in> set ms \<Longrightarrow> decode_tokens (tokens v @ ts) (WantValue False, OpenMember us k # fs) =
      decode_tokens ts (WantSeparator, OpenObject (us @ [(k, v)]) # fs)"
    and "ms \<noteq> [] \<or> e"
  shows "decode_tokens (separated TComma (map (\<lambda>(k, v). TString k # TColon # tokens v) ms) @ TRBrace # ts) (WantKey e, OpenObject us # fs) =
    Option.bind (push_value (JObject (us @ ms)) fs) (decode_tokens ts)"
  using assms
proof (induction ms arbitrary: e us)
  case (Cons m ms)
  obtain k v where m: "m = (k, v)" by (cases m)
  show ?case
  proof (cases "ms = []")
    case False
    then have "decode_tokens (separated TComma (map (\<lambda>(k, v). TString k # TColon # tokens v) ms) @ TRBrace # ts)
        (WantKey False, OpenObject (us @ [m]) # fs) = Option.bind (push_value (JObject ((us @ [m]) @ ms)) fs) (decode_tokens ts)"
      by (intro Cons.IH) (simp_all add: Cons.prems)
    with False m show ?thesis by (simp add: separated_Cons Cons.prems(1) accept_def)
  qed (simp add: Cons.prems(1) accept_def m)
qed (simp add: accept_def)

lemma decode_tokens_value:
  "nested v n \<Longrightarrow> length fs + n \<le> max_depth \<Longrightarrow>
   decode_tokens (tokens v @ ts) (WantValue e, fs) = Option.bind (push_value v fs) (decode_tokens ts)"
proof (induction v arbitrary: n fs ts e)
  case (JArray vs)
  have "decode_tokens (separated TComma (map tokens vs) @ TRBracket # ts) (WantValue True, OpenArray [] # fs) =
      Option.bind (push_value (JArray ([] @ vs)) fs) (decode_tokens ts)"
  proof (rule decode_elements)
    fix v ts us assume "v \<in> set vs"
    with JArray show "decode_tokens (tokens v @ ts) (WantValue True, OpenArray us # fs) =
        decode_tokens ts (WantSeparator, OpenArray (us @ [v]) # fs)"
      "decode_tokens (tokens v @ ts) (WantValue False, OpenArray us # fs) =
        decode_tokens ts (WantSeparator, OpenArray (us @ [v]) # fs)" by auto
  qed simp
  with JArray.prems show ?case by (simp add: accept_def push_frame_def)
next
  case (JObject ms)
  have "decode_tokens (separated TComma (map (\<lambda>(k, v). TString k # TColon # tokens v) ms) @ TRBrace # ts) (WantKey True, OpenObject [] # fs) =
      Option.bind (push_value (JObject ([] @ ms)) fs) (decode_tokens ts)"
  proof (rule decode_members)
    fix k v ts us assume "(k, v) \<in> set ms"
    with JObject show "decode_tokens (tokens v @ ts) (WantValue False, OpenMember us k # fs) =
        decode_tokens ts (WantSeparator, OpenObject (us @ [(k, v)]) # fs)" by fastforce
  qed simp
  with JObject.prems show ?case by (simp add: accept_def push_frame_def)
qed (simp_all add: accept_def)

text \<open>A document may be followed by white space.\<close>

lemma json_parse_text:
  assumes "writable v" "nested v max_depth" "list_all json_space sp"
  shows "json_parse (json_text v @ sp) = Some v"
proof -
  have "json_lex sp = Some []" using assms(3) by (induction sp) (simp_all add: json_lex.simps)
  moreover have "delimited sp" using assms(3) by (cases sp) (simp_all add: delimited_def)
  ultimately have "json_lex (json_text v @ sp) = Some (tokens v)" using lex_json_text [OF assms(1), of sp] by simp
  moreover have "decode_tokens (tokens v) (WantValue False, []) = Some v"
    using decode_tokens_value [OF assms(2), of "[]" "[]"] by simp
  ultimately show ?thesis by (simp add: json_parse_def)
qed

section \<open>Integers\<close>

text \<open>\<open>strconv.AppendInt\<close> in base 10.\<close>

fun nat_digits :: "nat \<Rightarrow> string" where
  "nat_digits n = (if n < 10 then [digit_char (int n)] else nat_digits (n div 10) @ [digit_char (int (n mod 10))])"

declare nat_digits.simps [simp del]

definition Itoa :: "int \<Rightarrow> string" where
  "Itoa i = (if i < 0 then CHR ''-'' # nat_digits (nat (- i)) else nat_digits (nat i))"

lemma nat_digits_facts:
  "nat_digits n \<noteq> [] \<and> list_all is_digit (nat_digits n) \<and> digits_val 0 (nat_digits n) = Some (int n) \<and>
   (hd (nat_digits n) = CHR ''0'' \<longrightarrow> n = 0)"
proof (induction n rule: nat_digits.induct)
  case (1 n)
  show ?case
  proof (cases "n < 10")
    case True
    moreover have "digit_char (int n) = CHR ''0'' \<Longrightarrow> n = 0" if "n < 10"
      using digit_of_char [of "int n"] that by (simp add: digit_of_def)
    ultimately show ?thesis by (simp add: nat_digits.simps)
  next
    case False
    with 1 have "nat_digits (n div 10) \<noteq> []" "hd (nat_digits (n div 10)) = CHR ''0'' \<longrightarrow> n div 10 = 0" by auto
    moreover have "10 * int (n div 10) + int (n mod 10) = int n" by presburger
    moreover have "n div 10 \<noteq> 0" using False by auto
    ultimately show ?thesis using 1 False by (simp add: nat_digits.simps [of n] digits_val_append)
  qed
qed

lemma nat_digits_zero [simp]: "nat_digits 0 = ''0''"
  by (simp add: nat_digits.simps digit_char_def) code_simp

lemma Atoi_Itoa: "in_int64 i \<Longrightarrow> Atoi (Itoa i) = Some i"
proof -
  assume i: "in_int64 i"
  obtain d ds where d: "nat_digits (nat \<bar>i\<bar>) = d # ds" using nat_digits_facts by (meson neq_Nil_conv)
  then have "is_digit d" using nat_digits_facts [of "nat \<bar>i\<bar>"] by simp
  then have "d \<noteq> CHR ''-''" "d \<noteq> CHR ''+''" by (auto simp: is_digit_def digit_of_def)
  moreover have "digits_val 0 (d # ds) = Some \<bar>i\<bar>" using nat_digits_facts [of "nat \<bar>i\<bar>"] d by simp
  ultimately show ?thesis using i d by (auto simp: Atoi_def Itoa_def Let_def)
qed

lemma scan_digits_number:
  "list_all is_digit ds \<Longrightarrow> ds \<noteq> [] \<Longrightarrow> s = [] \<or> \<not> is_digit (hd s) \<Longrightarrow> scan_digits (ds @ s) = Some (ds, s)"
  by (cases s) (auto simp: scan_digits_def list_all_iff takeWhile_append dropWhile_append takeWhile_eq_all_conv neq_Nil_conv)

lemma Itoa_literal: "number_literal (Itoa i)"
proof -
  let ?ds = "nat_digits (nat \<bar>i\<bar>)"
  note facts = nat_digits_facts [of "nat \<bar>i\<bar>"]
  have "scan_integer (?ds @ rest) = Some (?ds, rest)" if "delimited rest" for rest
  proof (cases "nat \<bar>i\<bar> = 0")
    case False
    have "rest = [] \<or> \<not> is_digit (hd rest)" using that by (auto simp: delimited_def json_space_def is_digit_def digit_of_def)
    with False facts show ?thesis using scan_digits_number [of ?ds rest] by (simp add: scan_integer_def)
  qed (simp add: scan_integer_def)
  moreover have "scan_fraction rest = Some ([], rest)" "scan_exponent rest = Some ([], rest)" if "delimited rest" for rest
    using that by (auto simp: delimited_def json_space_def scan_fraction_def scan_exponent_def)
  moreover have "hd ?ds \<noteq> CHR ''-''" using facts by (cases ?ds) (auto simp: is_digit_def digit_of_def)
  moreover have "is_digit (hd ?ds)" using facts by (cases ?ds) auto
  ultimately show ?thesis using facts by (cases "i < 0") (auto simp: number_literal_def Itoa_def scan_number_def)
qed

end
