(* ===== verification/Snapshot_Json.thy ===== *)
theory Snapshot_Json
  imports Json Graph "HOL-Library.List_Lexorder"
begin

text \<open>
  The JSON contract of a snapshot (\<open>types.go\<close>): \<open>json.Marshal\<close> and \<open>json.Unmarshal\<close> on the
  structs \<open>Snapshot\<close>, \<open>Session\<close> and \<open>Edge\<close> with the names of their tags. A list of the model
  stands for a slice: \<open>Build\<close> makes the edges and the roots with \<open>make\<close>, so that they are written
  as \<open>[]\<close> when they are empty; the blockers of a session come from \<open>toIntSlice\<close>, which returns
  nil for none, written as \<open>null\<close>. A key that is repeated in a text counts with its last
  occurrence here; the encoder never repeats one.
\<close>

section \<open>Writing\<close>

primrec sum_list_of :: "('e + 'a) list \<Rightarrow> 'e + 'a list" where
  "sum_list_of [] = Inr []"
| "sum_list_of (x # xs) =
     (case x of Inl e \<Rightarrow> Inl e | Inr v \<Rightarrow> (case sum_list_of xs of Inl e \<Rightarrow> Inl e | Inr vs \<Rightarrow> Inr (v # vs)))"

definition json_string :: "string \<Rightarrow> time_error + jvalue" where
  "json_string s = Inr (JString (json_quote s))"

definition json_int :: "int \<Rightarrow> time_error + jvalue" where
  "json_int i = Inr (JNumber (Itoa i))"

definition json_bool :: "bool \<Rightarrow> time_error + jvalue" where
  "json_bool b = Inr (JBool b)"

definition json_time :: "(time \<Rightarrow> int) \<Rightarrow> time \<Rightarrow> time_error + jvalue" where
  "json_time zone t = (case MarshalTime zone t of Inl e \<Rightarrow> Inl e | Inr s \<Rightarrow> Inr (JString s))"

definition json_array :: "(time_error + jvalue) list \<Rightarrow> time_error + jvalue" where
  "json_array vs = (case sum_list_of vs of Inl e \<Rightarrow> Inl e | Inr xs \<Rightarrow> Inr (JArray xs))"

definition json_struct :: "(string \<times> (time_error + jvalue)) list \<Rightarrow> time_error + jvalue" where
  "json_struct ms = (case sum_list_of (map snd ms) of Inl e \<Rightarrow> Inl e | Inr xs \<Rightarrow> Inr (JObject (zip (map fst ms) xs)))"

definition json_nilable :: "int list \<Rightarrow> time_error + jvalue" where
  "json_nilable is = (if is = [] then Inr JNull else json_array (map json_int is))"

definition Marshal_session :: "(time \<Rightarrow> int) \<Rightarrow> session \<Rightarrow> time_error + jvalue" where
  "Marshal_session zone s = json_struct
     [(''pid'', json_int (sess_PID s)), (''user'', json_string (sess_User s)), (''appName'', json_string (sess_AppName s)),
      (''clientAddr'', json_string (sess_ClientAddr s)), (''state'', json_string (sess_State s)),
      (''waitEventType'', json_string (sess_WaitEventType s)), (''waitEvent'', json_string (sess_WaitEvent s)),
      (''backendType'', json_string (sess_BackendType s)), (''xactStart'', json_time zone (sess_XactStart s)),
      (''queryStart'', json_time zone (sess_QueryStart s)), (''waitStart'', json_time zone (sess_WaitStart s)),
      (''query'', json_string (sess_Query s)), (''blockedBy'', json_nilable (sess_BlockedBy s)), (''isRoot'', json_bool (sess_IsRoot s))]"

definition Marshal_edge :: "edge \<Rightarrow> time_error + jvalue" where
  "Marshal_edge e = json_struct
     [(''waiterPid'', json_int (edge_WaiterPID e)), (''blockerPid'', json_int (edge_BlockerPID e)),
      (''lockType'', json_string (edge_LockType e)), (''relation'', json_string (edge_Relation e)),
      (''waiterMode'', json_string (edge_WaiterMode e)), (''blockerMode'', json_string (edge_BlockerMode e))]"

text \<open>The keys of a map are written as text and in the order of the texts.\<close>

definition map_members :: "('v \<Rightarrow> time_error + jvalue) \<Rightarrow> (int, 'v) fmap \<Rightarrow> (string \<times> (time_error + jvalue)) list" where
  "map_members f m = map (\<lambda>k. (Itoa k, f (the (fmlookup m k)))) (sort_key (\<lambda>k. map byte_val (Itoa k)) (key_order (fmdom m)))"

definition Marshal_snapshot :: "(time \<Rightarrow> int) \<Rightarrow> snapshot \<Rightarrow> time_error + jvalue" where
  "Marshal_snapshot zone x = json_struct
     [(''cluster'', json_string (snap_Cluster x)), (''takenAt'', json_time zone (snap_TakenAt x)),
      (''sessions'', json_struct (map_members (Marshal_session zone) (snap_Sessions x))),
      (''edges'', json_array (map Marshal_edge (snap_Edges x))), (''roots'', json_array (map json_int (snap_Roots x)))]"

section \<open>Reading\<close>

datatype json_error = SyntaxError | TypeError | BadTime

type_synonym 'r decoder = "jvalue \<Rightarrow> 'r \<Rightarrow> json_error + 'r"

definition to_string :: "(string \<Rightarrow> 'r \<Rightarrow> 'r) \<Rightarrow> 'r decoder" where
  "to_string put v r =
     (case v of
        JNull \<Rightarrow> Inr r
      | JString raw \<Rightarrow> (case unquote raw of None \<Rightarrow> Inl SyntaxError | Some s \<Rightarrow> Inr (put s r))
      | _ \<Rightarrow> Inl TypeError)"

definition to_int :: "(int \<Rightarrow> 'r \<Rightarrow> 'r) \<Rightarrow> 'r decoder" where
  "to_int put v r =
     (case v of
        JNull \<Rightarrow> Inr r
      | JNumber n \<Rightarrow> (case Atoi n of None \<Rightarrow> Inl TypeError | Some i \<Rightarrow> Inr (put i r))
      | _ \<Rightarrow> Inl TypeError)"

definition to_bool :: "(bool \<Rightarrow> 'r \<Rightarrow> 'r) \<Rightarrow> 'r decoder" where
  "to_bool put v r = (case v of JNull \<Rightarrow> Inr r | JBool b \<Rightarrow> Inr (put b r) | _ \<Rightarrow> Inl TypeError)"

text \<open>\<open>Time.UnmarshalJSON\<close> reads the text between the quotes as it stands.\<close>

definition to_time :: "(time \<Rightarrow> 'r \<Rightarrow> 'r) \<Rightarrow> 'r decoder" where
  "to_time put v r =
     (case v of
        JNull \<Rightarrow> Inr r
      | JString raw \<Rightarrow> (case parseRFC3339 raw of None \<Rightarrow> Inl BadTime | Some t \<Rightarrow> Inr (put t r))
      | _ \<Rightarrow> Inl BadTime)"

definition to_list :: "'a \<Rightarrow> 'a decoder \<Rightarrow> ('a list \<Rightarrow> 'r \<Rightarrow> 'r) \<Rightarrow> 'r decoder" where
  "to_list zero dec put v r =
     (case v of
        JNull \<Rightarrow> Inr (put [] r)
      | JArray vs \<Rightarrow> (case sum_list_of (map (\<lambda>v. dec v zero) vs) of Inl e \<Rightarrow> Inl e | Inr xs \<Rightarrow> Inr (put xs r))
      | _ \<Rightarrow> Inl TypeError)"

text \<open>A key names the field of that name, or else one that differs from it in case only.\<close>

definition fold_rune :: "rune \<Rightarrow> rune" where
  "fold_rune r = (if 97 \<le> r \<and> r \<le> 122 then r - 32 else if r = 383 then 83 else if r = 8490 then 75 else r)"

definition fold_name :: "string \<Rightarrow> rune list" where
  "fold_name s = map fold_rune (runes_of s)"

definition find_field :: "(string \<times> 'r decoder) list \<Rightarrow> string \<Rightarrow> 'r decoder option" where
  "find_field table key =
     (case map_of table key of
        Some dec \<Rightarrow> Some dec
      | None \<Rightarrow> map_option snd (find (\<lambda>f. fold_name (fst f) = fold_name key) table))"

primrec set_members :: "(string \<times> 'r decoder) list \<Rightarrow> (string \<times> jvalue) list \<Rightarrow> 'r \<Rightarrow> json_error + 'r" where
  "set_members table [] r = Inr r"
| "set_members table (m # ms) r =
     (case unquote (fst m) of
        None \<Rightarrow> Inl SyntaxError
      | Some key \<Rightarrow>
          (case find_field table key of
             None \<Rightarrow> set_members table ms r
           | Some dec \<Rightarrow> (case dec (snd m) r of Inl e \<Rightarrow> Inl e | Inr r \<Rightarrow> set_members table ms r)))"

definition to_struct :: "(string \<times> 'r decoder) list \<Rightarrow> 'r decoder" where
  "to_struct table v r = (case v of JNull \<Rightarrow> Inr r | JObject ms \<Rightarrow> set_members table ms r | _ \<Rightarrow> Inl TypeError)"

primrec set_entries :: "'v \<Rightarrow> 'v decoder \<Rightarrow> (string \<times> jvalue) list \<Rightarrow> (int, 'v) fmap \<Rightarrow> json_error + (int, 'v) fmap" where
  "set_entries zero dec [] m = Inr m"
| "set_entries zero dec (e # es) m =
     (case unquote (fst e) of
        None \<Rightarrow> Inl SyntaxError
      | Some key \<Rightarrow>
          (case dec (snd e) zero of
             Inl err \<Rightarrow> Inl err
           | Inr v \<Rightarrow>
               (case Atoi key of None \<Rightarrow> Inl TypeError | Some k \<Rightarrow> set_entries zero dec es (fmupd k v m))))"

definition to_map :: "'v \<Rightarrow> 'v decoder \<Rightarrow> ('r \<Rightarrow> (int, 'v) fmap) \<Rightarrow> ((int, 'v) fmap \<Rightarrow> 'r \<Rightarrow> 'r) \<Rightarrow> 'r decoder" where
  "to_map zero dec get put v r =
     (case v of
        JNull \<Rightarrow> Inr (put fmempty r)
      | JObject es \<Rightarrow> (case set_entries zero dec es (get r) of Inl e \<Rightarrow> Inl e | Inr m \<Rightarrow> Inr (put m r))
      | _ \<Rightarrow> Inl TypeError)"

definition session_fields :: "(string \<times> session decoder) list" where
  "session_fields =
     [(''pid'', to_int (\<lambda>v. sess_PID_update (\<lambda>_. v))), (''user'', to_string (\<lambda>v. sess_User_update (\<lambda>_. v))),
      (''appName'', to_string (\<lambda>v. sess_AppName_update (\<lambda>_. v))), (''clientAddr'', to_string (\<lambda>v. sess_ClientAddr_update (\<lambda>_. v))),
      (''state'', to_string (\<lambda>v. sess_State_update (\<lambda>_. v))), (''waitEventType'', to_string (\<lambda>v. sess_WaitEventType_update (\<lambda>_. v))),
      (''waitEvent'', to_string (\<lambda>v. sess_WaitEvent_update (\<lambda>_. v))), (''backendType'', to_string (\<lambda>v. sess_BackendType_update (\<lambda>_. v))),
      (''xactStart'', to_time (\<lambda>v. sess_XactStart_update (\<lambda>_. v))), (''queryStart'', to_time (\<lambda>v. sess_QueryStart_update (\<lambda>_. v))),
      (''waitStart'', to_time (\<lambda>v. sess_WaitStart_update (\<lambda>_. v))), (''query'', to_string (\<lambda>v. sess_Query_update (\<lambda>_. v))),
      (''blockedBy'', to_list 0 (to_int (\<lambda>v _. v)) (\<lambda>v. sess_BlockedBy_update (\<lambda>_. v))),
      (''isRoot'', to_bool (\<lambda>v. sess_IsRoot_update (\<lambda>_. v)))]"

definition zero_edge :: edge where
  "zero_edge = \<lparr>edge_WaiterPID = 0, edge_BlockerPID = 0, edge_LockType = '''', edge_Relation = '''', edge_WaiterMode = '''',
     edge_BlockerMode = ''''\<rparr>"

definition edge_fields :: "(string \<times> edge decoder) list" where
  "edge_fields =
     [(''waiterPid'', to_int (\<lambda>v. edge_WaiterPID_update (\<lambda>_. v))), (''blockerPid'', to_int (\<lambda>v. edge_BlockerPID_update (\<lambda>_. v))),
      (''lockType'', to_string (\<lambda>v. edge_LockType_update (\<lambda>_. v))), (''relation'', to_string (\<lambda>v. edge_Relation_update (\<lambda>_. v))),
      (''waiterMode'', to_string (\<lambda>v. edge_WaiterMode_update (\<lambda>_. v))), (''blockerMode'', to_string (\<lambda>v. edge_BlockerMode_update (\<lambda>_. v)))]"

definition snapshot_fields :: "(string \<times> snapshot decoder) list" where
  "snapshot_fields =
     [(''cluster'', to_string (\<lambda>v. snap_Cluster_update (\<lambda>_. v))), (''takenAt'', to_time (\<lambda>v. snap_TakenAt_update (\<lambda>_. v))),
      (''sessions'', to_map zero_session (to_struct session_fields) snap_Sessions (\<lambda>v. snap_Sessions_update (\<lambda>_. v))),
      (''edges'', to_list zero_edge (to_struct edge_fields) (\<lambda>v. snap_Edges_update (\<lambda>_. v))),
      (''roots'', to_list 0 (to_int (\<lambda>v _. v)) (\<lambda>v. snap_Roots_update (\<lambda>_. v)))]"

definition Unmarshal_snapshot :: "string \<Rightarrow> json_error + snapshot" where
  "Unmarshal_snapshot raw =
     (case json_parse raw of None \<Rightarrow> Inl SyntaxError | Some v \<Rightarrow> to_struct snapshot_fields v zero_snapshot)"

section \<open>Round trip\<close>

text \<open>The year and the offset can be written, and the offset has no seconds.\<close>

definition writable_time :: "(time \<Rightarrow> int) \<Rightarrow> time \<Rightarrow> bool" where
  "writable_time zone t \<longleftrightarrow> \<not> isl (MarshalTime zone t) \<and> zone t mod 60 = 0"

definition storable_session :: "(time \<Rightarrow> int) \<Rightarrow> session \<Rightarrow> bool" where
  "storable_session zone s \<longleftrightarrow>
     in_int64 (sess_PID s) \<and> list_all in_int64 (sess_BlockedBy s) \<and>
     list_all (writable_time zone) [sess_XactStart s, sess_QueryStart s, sess_WaitStart s] \<and>
     list_all valid_text [sess_User s, sess_AppName s, sess_ClientAddr s, sess_State s, sess_WaitEventType s, sess_WaitEvent s,
       sess_BackendType s, sess_Query s]"

definition storable_edge :: "edge \<Rightarrow> bool" where
  "storable_edge e \<longleftrightarrow>
     list_all in_int64 [edge_WaiterPID e, edge_BlockerPID e] \<and>
     list_all valid_text [edge_LockType e, edge_Relation e, edge_WaiterMode e, edge_BlockerMode e]"

definition storable :: "(time \<Rightarrow> int) \<Rightarrow> snapshot \<Rightarrow> bool" where
  "storable zone x \<longleftrightarrow>
     valid_text (snap_Cluster x) \<and> writable_time zone (snap_TakenAt x) \<and>
     fmpred (\<lambda>pid s. in_int64 pid \<and> storable_session zone s) (snap_Sessions x) \<and>
     list_all storable_edge (snap_Edges x) \<and> list_all in_int64 (snap_Roots x)"

subsection \<open>Keys and scalars\<close>

definition plain_key :: "string \<Rightarrow> bool" where
  "plain_key s \<longleftrightarrow> list_all plain s \<and> ascii s"

lemma plain_key_body: "list_all plain s \<Longrightarrow> string_body s"
  using scan_plain [of s] by (simp add: string_body_def)

lemma unquote_plain: "plain_key s \<Longrightarrow> unquote s = Some s"
proof (induction s)
  case (Cons c s)
  then have "unquote_step (c # s) = Some ([c], 1)" using plain_facts [of c] by (simp add: unquote_step_def plain_key_def)
  from unquote_by_step [OF this] Cons show ?case by (simp add: plain_key_def)
qed (simp add: unquote.simps)

lemma digit_plain: "is_digit c \<Longrightarrow> plain c \<and> byte_val c < 128"
  by (auto simp: is_digit_def digit_of_def plain_def split: if_splits)

lemma digits_plain: "list_all is_digit s \<Longrightarrow> plain_key s"
  by (induction s) (auto simp: plain_key_def dest: digit_plain)

lemma Itoa_plain: "plain_key (Itoa i)"
  using nat_digits_facts [of "nat i"] nat_digits_facts [of "nat (- i)"] digits_plain
  by (auto simp: Itoa_def plain_key_def plain_def)

lemma plain_key_append [simp]: "plain_key (s @ t) \<longleftrightarrow> plain_key s \<and> plain_key t"
  by (auto simp: plain_key_def)

lemma plain_key_Cons [simp]: "plain_key (c # s) \<longleftrightarrow> plain c \<and> byte_val c < 128 \<and> plain_key s" "plain_key []"
  by (auto simp: plain_key_def)

lemma pad_plain [simp]: "plain_key (pad w n)"
  by (rule digits_plain) (rule pad_digits)

lemma MarshalTime_plain:
  assumes "MarshalTime zone t = Inr s"
  shows "plain_key s"
proof -
  have "plain_key (fraction_text n)" for n
  proof -
    have "list_all is_digit (trim_zeros (pad 9 n))"
      using pad_digits [of 9 n] trim_zeros_split [of "pad 9 n"] by (metis list_all_append)
    then show ?thesis by (auto simp: fraction_text_def plain_def digits_plain)
  qed
  moreover have "plain_key (zone_text n)" for n by (simp add: zone_text_def Let_def plain_def)
  ultimately show ?thesis using assms
    by (auto simp: MarshalTime_def Let_def clock_text_def plain_def split: prod.splits if_splits)
qed

lemma scalar_roundtrip [simp]:
  "valid_text s \<Longrightarrow> to_string put (JString (json_quote s)) r = Inr (put s r)"
  "in_int64 i \<Longrightarrow> to_int put' (JNumber (Itoa i)) r = Inr (put' i r)"
  by (simp_all add: to_string_def to_int_def unquote_quote valid_text_def Atoi_Itoa)

lemma time_roundtrip:
  assumes "writable_time zone t"
  shows "\<exists>s. json_time zone t = Inr (JString s) \<and> string_body s \<and> (\<forall>put r. to_time put (JString s) r = Inr (put t r))"
proof -
  from assms obtain s where s: "MarshalTime zone t = Inr s" by (auto simp: writable_time_def isl_def split: sum.splits) (metis sum.exhaust)
  then have "string_body s" using MarshalTime_plain plain_key_body by (auto simp: plain_key_def)
  with s parse_MarshalTime [OF s] assms show ?thesis by (simp add: json_time_def to_time_def writable_time_def)
qed

lemma sum_list_of_map: "(\<And>x. x \<in> set xs \<Longrightarrow> f x = Inr (g x)) \<Longrightarrow> sum_list_of (map f xs) = Inr (map g xs)"
  by (induction xs) simp_all

lemma ints_roundtrip:
  assumes "list_all in_int64 is"
  shows "json_array (map json_int is) = Inr (JArray (map (\<lambda>i. JNumber (Itoa i)) is))"
    "to_list 0 (to_int (\<lambda>v _. v)) put (JArray (map (\<lambda>i. JNumber (Itoa i)) is)) r = Inr (put is r)"
    "writable (JArray (map (\<lambda>i. JNumber (Itoa i)) is))"
proof -
  show "json_array (map json_int is) = Inr (JArray (map (\<lambda>i. JNumber (Itoa i)) is))"
    by (simp add: json_array_def json_int_def sum_list_of_map [where g = "\<lambda>i. JNumber (Itoa i)"])
  have "sum_list_of (map ((\<lambda>v. to_int (\<lambda>v _. v) v 0) \<circ> (\<lambda>i. JNumber (Itoa i))) is) = Inr (map id is)"
    by (rule sum_list_of_map) (use assms in \<open>auto simp: list_all_iff\<close>)
  then show "to_list 0 (to_int (\<lambda>v _. v)) put (JArray (map (\<lambda>i. JNumber (Itoa i)) is)) r = Inr (put is r)"
    by (simp add: to_list_def)
  show "writable (JArray (map (\<lambda>i. JNumber (Itoa i)) is))" by (simp add: Itoa_literal)
qed

subsection \<open>Structs\<close>

text \<open>The value is written, within the given depth, and read back over a fresh zero value.\<close>

definition kept_by :: "nat \<Rightarrow> time_error + jvalue \<Rightarrow> 'r decoder \<Rightarrow> 'r \<Rightarrow> 'r \<Rightarrow> bool" where
  "kept_by n written dec zero x \<longleftrightarrow> (\<exists>v. written = Inr v \<and> writable v \<and> nested v n \<and> dec v zero = Inr x)"

lemma quote_body: "string_body (json_quote s)"
  by (simp add: string_body_def scan_quote)

lemma set_members_Cons:
  "plain_key k \<Longrightarrow> map_of table k = Some dec \<Longrightarrow>
   set_members table ((k, v) # ms) r = (case dec v r of Inl e \<Rightarrow> Inl e | Inr r \<Rightarrow> set_members table ms r)"
  by (simp add: unquote_plain find_field_def)

lemmas scalar_simps = json_string_def json_int_def json_bool_def quote_body Itoa_literal

lemma nilable_roundtrip:
  assumes "list_all in_int64 is"
  shows "\<exists>v. json_nilable is = Inr v \<and> writable v \<and> nested v 1 \<and> (\<forall>put r. to_list 0 (to_int (\<lambda>v _. v)) put v r = Inr (put is r))"
proof (cases "is = []")
  case True
  then show ?thesis by (intro exI [of _ JNull]) (simp add: json_nilable_def to_list_def)
next
  case False
  then show ?thesis
    by (intro exI [of _ "JArray (map (\<lambda>i. JNumber (Itoa i)) is)"])
      (simp add: json_nilable_def ints_roundtrip [OF assms] del: writable.simps)
qed

lemma session_kept:
  assumes "storable_session zone s"
  shows "kept_by 2 (Marshal_session zone s) (to_struct session_fields) zero_session s"
proof -
  obtain x q w where t: "json_time zone (sess_XactStart s) = Inr (JString x)" "json_time zone (sess_QueryStart s) = Inr (JString q)"
    "json_time zone (sess_WaitStart s) = Inr (JString w)" "string_body x" "string_body q" "string_body w"
    "\<And>put (r :: session). to_time put (JString x) r = Inr (put (sess_XactStart s) r)"
    "\<And>put (r :: session). to_time put (JString q) r = Inr (put (sess_QueryStart s) r)"
    "\<And>put (r :: session). to_time put (JString w) r = Inr (put (sess_WaitStart s) r)"
    using assms time_roundtrip [of zone] unfolding storable_session_def list.pred_inject(2) by metis
  obtain b where b: "json_nilable (sess_BlockedBy s) = Inr b" "writable b" "nested b 1"
    "\<And>put (r :: session). to_list 0 (to_int (\<lambda>v _. v)) put b r = Inr (put (sess_BlockedBy s) r)"
    using assms nilable_roundtrip unfolding storable_session_def by blast
  let ?ms = "[(''pid'', JNumber (Itoa (sess_PID s))), (''user'', JString (json_quote (sess_User s))), (''appName'', JString (json_quote (sess_AppName s))),
      (''clientAddr'', JString (json_quote (sess_ClientAddr s))), (''state'', JString (json_quote (sess_State s))),
      (''waitEventType'', JString (json_quote (sess_WaitEventType s))), (''waitEvent'', JString (json_quote (sess_WaitEvent s))),
      (''backendType'', JString (json_quote (sess_BackendType s))), (''xactStart'', JString x), (''queryStart'', JString q), (''waitStart'', JString w),
      (''query'', JString (json_quote (sess_Query s))), (''blockedBy'', b), (''isRoot'', JBool (sess_IsRoot s))]"
  have "Marshal_session zone s = Inr (JObject ?ms)"
    by (simp add: Marshal_session_def json_struct_def t(1-3) b(1) scalar_simps)
  moreover have "writable (JObject ?ms)" "nested (JObject ?ms) 2"
    using t(4-6) b(2,3) by (simp_all add: scalar_simps plain_key_body plain_def)
  moreover have "to_struct session_fields (JObject ?ms) zero_session = Inr s"
    using assms
    by (simp add: to_struct_def session_fields_def set_members_Cons plain_def t(7-9) b(4) to_bool_def storable_session_def zero_session_def
        del: set_members.simps(2))
  ultimately show ?thesis unfolding kept_by_def by blast
qed

lemma edge_kept:
  assumes "storable_edge e"
  shows "kept_by 2 (Marshal_edge e) (to_struct edge_fields) zero_edge e"
  using assms unfolding kept_by_def
  by (simp add: Marshal_edge_def json_struct_def scalar_simps plain_key_body plain_def to_struct_def edge_fields_def set_members_Cons
      storable_edge_def zero_edge_def del: set_members.simps(2))

lemma array_kept:
  assumes "\<And>x. x \<in> set xs \<Longrightarrow> kept_by n (enc x) dec zero x"
  shows "\<exists>v. json_array (map enc xs) = Inr v \<and> writable v \<and> nested v (Suc n) \<and> (\<forall>put r. to_list zero dec put v r = Inr (put xs r))"
proof -
  from assms obtain val where val: "\<And>x. x \<in> set xs \<Longrightarrow> enc x = Inr (val x) \<and> writable (val x) \<and> nested (val x) n \<and> dec (val x) zero = Inr x"
    unfolding kept_by_def by metis
  have "sum_list_of (map enc xs) = Inr (map val xs)" "sum_list_of (map ((\<lambda>v. dec v zero) \<circ> val) xs) = Inr (map id xs)"
    by (rule sum_list_of_map; use val in simp)+
  with val show ?thesis by (intro exI [of _ "JArray (map val xs)"]) (simp add: json_array_def to_list_def)
qed

subsection \<open>Maps\<close>

lemma set_entries_map:
  assumes "\<And>k. k \<in> set ks \<Longrightarrow> in_int64 k \<and> dec (val k) zero = Inr (the (fmlookup m k)) \<and> fmlookup m k \<noteq> None"
  shows "\<exists>m'. set_entries zero dec (map (\<lambda>k. (Itoa k, val k)) ks) acc = Inr m' \<and>
    (\<forall>k. fmlookup m' k = (if k \<in> set ks then fmlookup m k else fmlookup acc k))"
  using assms
proof (induction ks arbitrary: acc)
  case (Cons k ks)
  have k: "in_int64 k" "dec (val k) zero = Inr (the (fmlookup m k))" "fmlookup m k = Some (the (fmlookup m k))"
    using Cons.prems [of k] by auto
  obtain m' where "set_entries zero dec (map (\<lambda>k. (Itoa k, val k)) ks) (fmupd k (the (fmlookup m k)) acc) = Inr m'"
    "\<forall>q. fmlookup m' q = (if q \<in> set ks then fmlookup m q else fmlookup (fmupd k (the (fmlookup m k)) acc) q)"
    using Cons.IH [of "fmupd k (the (fmlookup m k)) acc"] Cons.prems by auto
  with k show ?case by (auto simp: unquote_plain Itoa_plain Atoi_Itoa)
qed simp

lemma map_kept:
  assumes "\<And>k v. fmlookup m k = Some v \<Longrightarrow> in_int64 k \<and> kept_by n (enc v) dec zero v"
  shows "\<exists>v. json_struct (map_members enc m) = Inr v \<and> writable v \<and> nested v (Suc n) \<and>
    (\<forall>get put r. get r = fmempty \<longrightarrow> to_map zero dec get put v r = Inr (put m r))"
proof -
  let ?ks = "sort_key (\<lambda>k. map byte_val (Itoa k)) (key_order (fmdom m))"
  have ks: "k \<in> set ?ks \<longleftrightarrow> fmlookup m k \<noteq> None" for k by (simp add: key_order.ord_set fmlookup_dom_iff)
  have "\<exists>val. \<forall>k \<in> set ?ks. in_int64 k \<and> enc (the (fmlookup m k)) = Inr (val k) \<and> writable (val k) \<and> nested (val k) n \<and>
      dec (val k) zero = Inr (the (fmlookup m k))"
    using assms ks unfolding kept_by_def by (intro bchoice ballI) fastforce
  then obtain val where val: "\<And>k. k \<in> set ?ks \<Longrightarrow> in_int64 k \<and> enc (the (fmlookup m k)) = Inr (val k) \<and> writable (val k) \<and>
      nested (val k) n \<and> dec (val k) zero = Inr (the (fmlookup m k))" by blast
  let ?es = "map (\<lambda>k. (Itoa k, val k)) ?ks"
  have "sum_list_of (map snd (map_members enc m)) = Inr (map val ?ks)"
    unfolding map_members_def map_map by (rule sum_list_of_map) (use val in simp)
  then have j: "json_struct (map_members enc m) = Inr (JObject ?es)"
    by (simp add: json_struct_def map_members_def zip_map1 zip_map2 zip_same_conv_map comp_def)
  have w: "writable (JObject ?es)" "nested (JObject ?es) (Suc n)"
    using val Itoa_plain by (auto simp: plain_key_body plain_key_def simp del: set_sort)
  have t: "to_map zero dec get put (JObject ?es) r = Inr (put m r)" if "get r = fmempty" for get put and r :: 'c
  proof -
    obtain m' where m': "set_entries zero dec ?es fmempty = Inr m'" "\<forall>k. fmlookup m' k = (if k \<in> set ?ks then fmlookup m k else None)"
      using set_entries_map [of ?ks dec val zero m fmempty] val ks by auto
    have "m' = m" by (rule fmap_ext) (metis m'(2) ks)
    with m'(1) that show ?thesis by (simp add: to_map_def)
  qed
  show ?thesis by (rule exI [of _ "JObject ?es"]) (intro conjI allI impI j w t)
qed

subsection \<open>Snapshots\<close>

lemma nested_mono: "nested v m \<Longrightarrow> m \<le> n \<Longrightarrow> nested v n"
proof (induction v m arbitrary: n rule: nested.induct)
  case (1 vs m)
  then have "m - 1 \<le> n - 1" by simp
  with 1 show ?case by simp
next
  case (2 ms m)
  then have "m - 1 \<le> n - 1" by simp
  with 2 show ?case by fastforce
qed simp_all

lemma to_struct_object: "to_struct table (JObject ms) r = set_members table ms r"
  by (simp add: to_struct_def)

lemma snapshot_kept:
  assumes "storable zone x"
  shows "kept_by 4 (Marshal_snapshot zone x) (to_struct snapshot_fields) zero_snapshot x"
proof -
  obtain t where t: "json_time zone (snap_TakenAt x) = Inr (JString t)" "string_body t"
    "\<And>put (r :: snapshot). to_time put (JString t) r = Inr (put (snap_TakenAt x) r)"
    using assms time_roundtrip [of zone "snap_TakenAt x"] unfolding storable_def by metis
  obtain m where m: "json_struct (map_members (Marshal_session zone) (snap_Sessions x)) = Inr m" "writable m" "nested m 3"
    "\<And>get put (r :: snapshot). get r = fmempty \<Longrightarrow> to_map zero_session (to_struct session_fields) get put m r = Inr (put (snap_Sessions x) r)"
    using map_kept [of "snap_Sessions x" 2 "Marshal_session zone" "to_struct session_fields" zero_session] session_kept assms
    unfolding storable_def by (auto simp: fmpred_iff)
  obtain es where es: "json_array (map Marshal_edge (snap_Edges x)) = Inr es" "writable es" "nested es 3"
    "\<And>put (r :: snapshot). to_list zero_edge (to_struct edge_fields) put es r = Inr (put (snap_Edges x) r)"
    using array_kept [of "snap_Edges x" 2 Marshal_edge "to_struct edge_fields" zero_edge] edge_kept assms
    unfolding storable_def by (auto simp: list_all_iff)
  have "list_all in_int64 (snap_Roots x)" using assms by (simp add: storable_def)
  note rs = ints_roundtrip [OF this]
  let ?ms = "[(''cluster'', JString (json_quote (snap_Cluster x))), (''takenAt'', JString t), (''sessions'', m), (''edges'', es),
      (''roots'', JArray (map (\<lambda>i. JNumber (Itoa i)) (snap_Roots x)))]"
  have "Marshal_snapshot zone x = Inr (JObject ?ms)"
    by (simp add: Marshal_snapshot_def json_struct_def [of "(''cluster'', _) # _"] t(1) m(1) es(1) rs(1) scalar_simps)
  moreover have "writable (JObject ?ms)" "nested (JObject ?ms) 4"
    using t(2) m(2,3) es(2,3) rs(3) by (simp_all add: scalar_simps plain_key_body plain_def)
  moreover have "to_struct snapshot_fields (JObject ?ms) zero_snapshot = Inr x"
    using assms
    by (simp add: to_struct_object snapshot_fields_def set_members_Cons plain_def t(3) m(4) es(4) rs(2) storable_def
        zero_snapshot_def del: set_members.simps(2))
  ultimately show ?thesis unfolding kept_by_def by blast
qed

lemma snapshot_read_back:
  assumes "storable zone x" "list_all json_space sp"
  shows "\<exists>v. Marshal_snapshot zone x = Inr v \<and> Unmarshal_snapshot (json_text v @ sp) = Inr x"
proof -
  from snapshot_kept [OF assms(1)] obtain v where v: "Marshal_snapshot zone x = Inr v" "writable v" "nested v 4"
    "to_struct snapshot_fields v zero_snapshot = Inr x" unfolding kept_by_def by blast
  then have "json_parse (json_text v @ sp) = Some v" using json_parse_text nested_mono [of v 4 max_depth] assms(2) by simp
  with v show ?thesis by (simp add: Unmarshal_snapshot_def)
qed

text \<open>C14: The JSON contract of a snapshot loses nothing. A snapshot whose texts are UTF-8, whose process
  ids fit in 64 bits and whose times have a year of four digits in a zone with an offset of
  whole minutes is written, and what was written is read back as the very same snapshot,
  whatever white space follows it.\<close>

theorem snapshot_json_roundtrip:
  assumes "storable zone x" "list_all json_space sp"
  shows "\<exists>v. Marshal_snapshot zone x = Inr v \<and> Unmarshal_snapshot (json_text v @ sp) = Inr x"
  by (rule snapshot_read_back [OF assms])

text \<open>A snapshot with a session that waits, in a zone east of UTC.\<close>

definition demo_contract :: snapshot where
  "demo_contract = \<lparr>snap_Cluster = ''c1'', snap_TakenAt = 1700000000120000000,
     snap_Sessions = fmap_of_list [(42, zero_session\<lparr>sess_PID := 42, sess_Query := [CHR 0x22, CHR ''<'', CHR 0xC3, CHR 0xA4, CHR 0x0A],
       sess_BlockedBy := [7]\<rparr>)],
     snap_Edges = [zero_edge\<lparr>edge_WaiterPID := 42, edge_BlockerPID := 7, edge_LockType := ''relation''\<rparr>], snap_Roots = []\<rparr>"

definition demo_zone :: "time \<Rightarrow> int" where
  "demo_zone t = (if t = zero_time then 0 else 19800)"

lemma demo_contract_storable: "storable demo_zone demo_contract"
proof -
  have "writable_time demo_zone 1700000000120000000" "writable_time demo_zone zero_time" "valid_text ''c1''" "valid_text ''''"
    "valid_text ''relation''" "valid_text [CHR 0x22, CHR ''<'', CHR 0xC3, CHR 0xA4, CHR 0x0A]"
    by code_simp+
  then show ?thesis
    by (simp add: storable_def demo_contract_def storable_session_def storable_edge_def zero_session_def zero_edge_def in_int64_def fmpred_iff)
qed

theorem snapshot_json_roundtrip_witness:
  "\<exists>v. Marshal_snapshot demo_zone demo_contract = Inr v \<and> Unmarshal_snapshot (json_text v @ [CHR 0x0A]) = Inr demo_contract"
proof -
  have "list_all json_space [CHR 0x0A]" by (simp add: json_space_def)
  from snapshot_json_roundtrip [OF demo_contract_storable this] show ?thesis .
qed

end
