(* ===== verification/Persist.thy ===== *)
theory Persist
  imports Store Audit_Log Snapshot_Json
begin

text \<open>
  Package \<open>internal/persist\<close>: the SQLite backend for the history (\<open>sqlite.go\<close>) and for the
  audit trail (\<open>audit.go\<close>). The two tables are lists of rows in the order of insertion, each
  SQL statement of the source is a function on them. What the engine leaves open or may do is
  in \<open>sql_env\<close>: the order of rows with equal keys, the error of a statement, the time zone of
  the process, the texts of the errors of the JSON codec, the compression of the data column,
  the readings of the clock. \<open>sql_order\<close> states what ORDER BY promises.
\<close>

section \<open>Tables\<close>

record snap_row =
  sr_id :: int
  sr_cluster :: string
  sr_taken_at :: int
  sr_roots :: int
  sr_edges :: int
  sr_sessions :: int
  sr_data :: string

record audit_row =
  ar_id :: int
  ar_at :: int
  ar_actor :: string
  ar_action :: string
  ar_pid :: int
  ar_victim_query :: string
  ar_delivered :: int
  ar_error :: string

text \<open>The two \<open>seq\<close> fields are the counters of AUTOINCREMENT.\<close>

record sqlite =
  sq_snapshots :: "snap_row list"
  sq_snap_seq :: int
  sq_audit :: "audit_row list"
  sq_audit_seq :: int
  sq_retention :: duration
  sq_log :: "string list option"
  sq_lastPrune :: time

datatype statement = Schema | AuditSchema | InsertSnapshot | SelectBelow | SelectAbove | SelectHistory
  | DeleteOld | InsertAudit | SelectAudit

record sql_env =
  ev_order :: "(snap_row \<Rightarrow> int) \<Rightarrow> snap_row list \<Rightarrow> snap_row list"
  ev_fault :: "statement \<Rightarrow> string option"
  ev_zone :: "time \<Rightarrow> int"
  ev_jsonError :: "time_error + json_error \<Rightarrow> string"
  ev_gzip :: "string \<Rightarrow> string + string"
  ev_gunzip :: "string \<Rightarrow> string + string"
  ev_since :: time
  ev_prune :: time
  ev_cutoff :: time

locale sql_order =
  fixes ord :: "(snap_row \<Rightarrow> int) \<Rightarrow> snap_row list \<Rightarrow> snap_row list"
  assumes ord_mset: "mset (ord f rows) = mset rows"
    and ord_sorted: "sorted (map f (ord f rows))"
begin

lemma ord_set: "set (ord f rows) = set rows"
  using ord_mset [of f rows] by (metis set_mset_mset)

lemma ord_Nil: "ord f rows = [] \<longleftrightarrow> rows = []"
  using ord_mset [of f rows] by (metis mset_zero_iff)

text \<open>The first row of an ordered result has the least key.\<close>

lemma ord_first: "ord f rows = r # rs \<Longrightarrow> r \<in> set rows \<and> (\<forall>q \<in> set rows. f r \<le> f q)"
  using ord_sorted [of f rows] ord_set [of f rows] by auto

end

interpretation sort_order: sql_order "\<lambda>f rows. sort_key f rows"
  by unfold_locales simp_all

interpretation sort_rev_order: sql_order "\<lambda>f rows. sort_key f (rev rows)"
  by unfold_locales simp_all

section \<open>Codec\<close>

definition encode :: "sql_env \<Rightarrow> snapshot \<Rightarrow> string + string" where
  "encode env snap =
     (case Marshal_snapshot (ev_zone env) snap of
        Inl err \<Rightarrow> Inl (ev_jsonError env (Inl err))
      | Inr v \<Rightarrow> ev_gzip env (json_text v))"

definition decode :: "sql_env \<Rightarrow> string \<Rightarrow> string + snapshot" where
  "decode env blob =
     (case ev_gunzip env blob of
        Inl err \<Rightarrow> Inl err
      | Inr raw \<Rightarrow>
          (case Unmarshal_snapshot raw of
             Inl err \<Rightarrow> Inl (ev_jsonError env (Inr err))
           | Inr snap \<Rightarrow> Inr snap))"

section \<open>History\<close>

text \<open>\<open>Open\<close> on the tables the file holds already.\<close>

datatype open_error = OpenSqlite string string | InitSchema string | InitAudit string

definition Open ::
  "sql_env \<Rightarrow> (string \<Rightarrow> string option) \<Rightarrow> string \<Rightarrow> duration \<Rightarrow> string list option \<Rightarrow>
   snap_row list \<times> int \<times> audit_row list \<times> int \<Rightarrow> open_error + sqlite" where
  "Open env open_err path retention log file =
     (case open_err path of
        Some err \<Rightarrow> Inl (OpenSqlite path err)
      | None \<Rightarrow>
          (case ev_fault env Schema of
             Some err \<Rightarrow> Inl (InitSchema err)
           | None \<Rightarrow>
               (case ev_fault env AuditSchema of
                  Some err \<Rightarrow> Inl (InitAudit err)
                | None \<Rightarrow>
                    (case file of
                       (snaps, n, audit, k) \<Rightarrow>
                         Inr \<lparr>sq_snapshots = snaps, sq_snap_seq = n, sq_audit = audit, sq_audit_seq = k,
                              sq_retention = retention, sq_log = log, sq_lastPrune = zero_time\<rparr>))))"

text \<open>\<open>DELETE FROM snapshots WHERE taken_at < ?\<close>, at most once a minute.\<close>

definition maybePrune :: "sql_env \<Rightarrow> sqlite \<Rightarrow> sqlite" where
  "maybePrune env s =
     (if sq_retention s \<le> 0 then s
      else if time_Sub (ev_since env) (sq_lastPrune s) < minute then s
      else let s = s\<lparr>sq_lastPrune := ev_prune env\<rparr>;
               cutoff = time_UnixNano (ev_cutoff env + dur_neg (sq_retention s))
           in case ev_fault env DeleteOld of
                None \<Rightarrow> s\<lparr>sq_snapshots := filter (\<lambda>r. \<not> sr_taken_at r < cutoff) (sq_snapshots s)\<rparr>
              | Some err \<Rightarrow> s\<lparr>sq_log := map_option (\<lambda>l. l @ [err]) (sq_log s)\<rparr>)"

definition insert_snapshot :: "snapshot \<Rightarrow> string \<Rightarrow> sqlite \<Rightarrow> sqlite" where
  "insert_snapshot snap blob s =
     s\<lparr>sq_snap_seq := sq_snap_seq s + 1,
       sq_snapshots := sq_snapshots s @
         [\<lparr>sr_id = sq_snap_seq s + 1, sr_cluster = snap_Cluster snap,
           sr_taken_at = time_UnixNano (snap_TakenAt snap), sr_roots = int (length (snap_Roots snap)),
           sr_edges = int (length (snap_Edges snap)), sr_sessions = map_len (snap_Sessions snap), sr_data = blob\<rparr>]\<rparr>"

definition Save :: "sql_env \<Rightarrow> sqlite \<Rightarrow> snapshot \<Rightarrow> sqlite \<times> string option" where
  "Save env s snap =
     (case encode env snap of
        Inl err \<Rightarrow> (s, Some (''encode snapshot: '' @ err))
      | Inr blob \<Rightarrow>
          (case ev_fault env InsertSnapshot of
             Some err \<Rightarrow> (s, Some (''insert snapshot: '' @ err))
           | None \<Rightarrow> (maybePrune env (insert_snapshot snap blob s), None)))"

text \<open>The two queries of \<open>At\<close>: LIMIT 1 of an ordered selection.\<close>

definition select_below :: "sql_env \<Rightarrow> int \<Rightarrow> sqlite \<Rightarrow> snap_row option" where
  "select_below env target s =
     (case ev_order env (\<lambda>r. - sr_taken_at r) (filter (\<lambda>r. sr_taken_at r \<le> target) (sq_snapshots s)) of
        [] \<Rightarrow> None | r # _ \<Rightarrow> Some r)"

definition select_above :: "sql_env \<Rightarrow> int \<Rightarrow> sqlite \<Rightarrow> snap_row option" where
  "select_above env target s =
     (case ev_order env sr_taken_at (filter (\<lambda>r. sr_taken_at r \<ge> target) (sq_snapshots s)) of
        [] \<Rightarrow> None | r # _ \<Rightarrow> Some r)"

text \<open>The closure \<open>consider\<close> on the best row so far: the data, the distance, whether one was
  found.\<close>

definition row_diff :: "int \<Rightarrow> int \<Rightarrow> int" where
  "row_diff ts target = (let diff = wrap64 (ts - target) in if diff < 0 then wrap64 (- diff) else diff)"

definition consider_row :: "string option \<Rightarrow> snap_row option \<Rightarrow> int \<Rightarrow> string \<times> int \<times> bool \<Rightarrow> string + (string \<times> int \<times> bool)" where
  "consider_row fault row target best =
     (case fault of
        Some err \<Rightarrow> Inl err
      | None \<Rightarrow>
          (case row of
             None \<Rightarrow> Inr best
           | Some r \<Rightarrow>
               let diff = row_diff (sr_taken_at r) target
               in if diff < fst (snd best) then Inr (sr_data r, diff, True) else Inr best))"

definition At_sqlite :: "sql_env \<Rightarrow> sqlite \<Rightarrow> time \<Rightarrow> string + (snapshot \<times> bool)" where
  "At_sqlite env s t =
     (let target = time_UnixNano t
      in case consider_row (ev_fault env SelectBelow) (select_below env target s) target ('''', max_int64, False) of
           Inl err \<Rightarrow> Inl err
         | Inr best \<Rightarrow>
             (case consider_row (ev_fault env SelectAbove) (select_above env target s) target best of
                Inl err \<Rightarrow> Inl err
              | Inr (data, diff, found) \<Rightarrow>
                  if \<not> found then Inr (zero_snapshot, False)
                  else (case decode env data of Inl err \<Rightarrow> Inl err | Inr snap \<Rightarrow> Inr (snap, True))))"

definition History_sqlite :: "sql_env \<Rightarrow> sqlite \<Rightarrow> time \<Rightarrow> time \<Rightarrow> string + meta list" where
  "History_sqlite env s from to =
     (let lo = (if \<not> time_IsZero from then time_UnixNano from else min_int64);
          hi = (if \<not> time_IsZero to then time_UnixNano to else max_int64)
      in case ev_fault env SelectHistory of
           Some err \<Rightarrow> Inl err
         | None \<Rightarrow>
             Inr (map (\<lambda>r. \<lparr>meta_TakenAt = time_Unix0 (sr_taken_at r), meta_Roots = sr_roots r,
                             meta_Edges = sr_edges r, meta_Sessions = sr_sessions r\<rparr>)
                   (ev_order env sr_taken_at
                     (filter (\<lambda>r. lo \<le> sr_taken_at r \<and> sr_taken_at r \<le> hi) (sq_snapshots s)))))"

text \<open>The backend as the store sees it.\<close>

definition sqlite_ops :: "sql_env \<Rightarrow> sqlite persister" where
  "sqlite_ops env = \<lparr>p_Save = Save env, p_At = At_sqlite env, p_History = History_sqlite env\<rparr>"

section \<open>Audit trail\<close>

definition boolToInt :: "bool \<Rightarrow> int" where
  "boolToInt b = (if b then 1 else 0)"

definition Record_sqlite :: "sql_env \<Rightarrow> entry \<Rightarrow> sqlite \<Rightarrow> string option \<times> sqlite" where
  "Record_sqlite env e s =
     (case ev_fault env InsertAudit of
        Some err \<Rightarrow> (Some err, s)
      | None \<Rightarrow>
          (None, s\<lparr>sq_audit_seq := sq_audit_seq s + 1,
                   sq_audit := sq_audit s @
                     [\<lparr>ar_id = sq_audit_seq s + 1, ar_at = time_UnixNano (ent_At e), ar_actor = ent_Actor e,
                       ar_action = ent_Action e, ar_pid = ent_PID e, ar_victim_query = ent_VictimQuery e,
                       ar_delivered = boolToInt (ent_Delivered e), ar_error = ent_Error e\<rparr>]\<rparr>))"

definition entry_of_row :: "audit_row \<Rightarrow> entry" where
  "entry_of_row r = \<lparr>ent_At = time_Unix0 (ar_at r), ent_Actor = ar_actor r, ent_Action = ar_action r,
     ent_PID = ar_pid r, ent_VictimQuery = ar_victim_query r, ent_Delivered = (ar_delivered r \<noteq> 0), ent_Error = ar_error r\<rparr>"

text \<open>\<open>ORDER BY at DESC, id DESC LIMIT ?\<close>; the keys are distinct.\<close>

definition Recent_sqlite :: "sql_env \<Rightarrow> int \<Rightarrow> sqlite \<Rightarrow> string + entry list" where
  "Recent_sqlite env limit s =
     (let lim = (if limit \<le> 0 \<or> limit > 1000 then 1000 else limit)
      in case ev_fault env SelectAudit of
           Some err \<Rightarrow> Inl err
         | None \<Rightarrow>
             Inr (map entry_of_row (take (nat lim) (sort_key (\<lambda>r. (- ar_at r, - ar_id r)) (sq_audit s)))))"

section \<open>What the tables stand for\<close>

definition row_is :: "sql_env \<Rightarrow> snap_row \<Rightarrow> snapshot \<Rightarrow> bool" where
  "row_is env r x \<longleftrightarrow>
     in_int64 (snap_TakenAt x) \<and> sr_taken_at r = snap_TakenAt x \<and> decode env (sr_data r) = Inr x \<and>
     sr_roots r = int (length (snap_Roots x)) \<and> sr_edges r = int (length (snap_Edges x)) \<and>
     sr_sessions r = map_len (snap_Sessions x)"

definition db_holds :: "sql_env \<Rightarrow> snapshot list \<Rightarrow> sqlite \<Rightarrow> bool" where
  "db_holds env ss s \<longleftrightarrow> list_all2 (row_is env) (sq_snapshots s) ss"

text \<open>The codec keeps this snapshot: what it writes is read back unchanged.\<close>

definition codec_ok :: "sql_env \<Rightarrow> snapshot \<Rightarrow> bool" where
  "codec_ok env x \<longleftrightarrow> (\<exists>blob. encode env x = Inr blob \<and> decode env blob = Inr x)"

text \<open>Decompression undoes compression.\<close>

definition gzip_ok :: "sql_env \<Rightarrow> bool" where
  "gzip_ok env \<longleftrightarrow> (\<forall>raw. \<exists>blob. ev_gzip env raw = Inr blob \<and> ev_gunzip env blob = Inr raw)"

lemma storable_codec: "gzip_ok env \<Longrightarrow> storable (ev_zone env) x \<Longrightarrow> codec_ok env x"
  using snapshot_read_back [of "ev_zone env" x "[]"] by (fastforce simp: codec_ok_def encode_def decode_def gzip_ok_def)

lemma list_all2_filter:
  "list_all2 R xs ys \<Longrightarrow> (\<And>x y. R x y \<Longrightarrow> P x = Q y) \<Longrightarrow> list_all2 R (filter P xs) (filter Q ys)"
  by (induction xs ys rule: list_all2_induct) auto

lemma db_holds_rows: "db_holds env ss s \<Longrightarrow> r \<in> set (sq_snapshots s) \<Longrightarrow> \<exists>x \<in> set ss. row_is env r x"
  unfolding db_holds_def by (metis in_set_conv_nth list_all2_conv_all_nth)

lemma db_holds_snaps: "db_holds env ss s \<Longrightarrow> x \<in> set ss \<Longrightarrow> \<exists>r \<in> set (sq_snapshots s). row_is env r x"
  unfolding db_holds_def by (metis in_set_conv_nth list_all2_conv_all_nth)

definition prunes :: "sql_env \<Rightarrow> sqlite \<Rightarrow> bool" where
  "prunes env s \<longleftrightarrow>
     0 < sq_retention s \<and> minute \<le> time_Sub (ev_since env) (sq_lastPrune s) \<and> ev_fault env DeleteOld = None"

lemma maybePrune_rows:
  assumes "in_int64 (sq_retention s)" "in_int64 (ev_cutoff env - sq_retention s)"
  shows "sq_snapshots (maybePrune env s) =
      (if prunes env s then filter (\<lambda>r. ev_cutoff env - sq_retention s \<le> sr_taken_at r) (sq_snapshots s) else sq_snapshots s) \<and>
    sq_audit (maybePrune env s) = sq_audit s \<and> sq_audit_seq (maybePrune env s) = sq_audit_seq s"
proof (cases "0 < sq_retention s")
  case True
  then have "dur_neg (sq_retention s) = - sq_retention s"
    using assms(1) by (intro dur_neg_exact) (auto simp: in_int64_def)
  then have "time_UnixNano (ev_cutoff env + dur_neg (sq_retention s)) = ev_cutoff env - sq_retention s"
    using assms(2) by (simp add: time_UnixNano_def wrap64_id)
  with True show ?thesis
    by (simp add: maybePrune_def prunes_def Let_def not_less split: option.splits)
qed (simp add: maybePrune_def prunes_def)

lemma Save_appends:
  assumes "db_holds env ss s" "codec_ok env x" "in_int64 (snap_TakenAt x)" "ev_fault env InsertSnapshot = None"
    and "in_int64 (sq_retention s)" "in_int64 (ev_cutoff env - sq_retention s)"
  shows "\<exists>s'. Save env s x = (s', None) \<and> sq_audit s' = sq_audit s \<and>
    db_holds env
      (if 0 < sq_retention s \<and> minute \<le> time_Sub (ev_since env) (sq_lastPrune s) \<and> ev_fault env DeleteOld = None
       then filter (\<lambda>y. ev_cutoff env - sq_retention s \<le> snap_TakenAt y) (ss @ [x]) else ss @ [x]) s'"
proof -
  obtain blob where blob: "encode env x = Inr blob" "decode env blob = Inr x" using assms(2) by (auto simp: codec_ok_def)
  let ?s = "insert_snapshot x blob s"
  have "db_holds env (ss @ [x]) ?s"
    using assms(1,3) blob(2)
    by (auto simp: db_holds_def insert_snapshot_def row_is_def time_UnixNano_def wrap64_id intro!: list_all2_appendI)
  moreover have pr: "prunes env ?s = prunes env s" "sq_retention ?s = sq_retention s" "sq_audit ?s = sq_audit s"
    by (simp_all add: prunes_def insert_snapshot_def)
  ultimately have "db_holds env (if prunes env s then filter (\<lambda>y. ev_cutoff env - sq_retention s \<le> snap_TakenAt y) (ss @ [x]) else ss @ [x])
      (maybePrune env ?s)"
    using maybePrune_rows [of ?s env] assms(5,6) unfolding db_holds_def
    by (auto intro!: list_all2_filter simp: row_is_def simp del: filter_append)
  then show ?thesis
    using maybePrune_rows [of ?s env] assms(4-6) pr(2,3) blob(1) by (simp add: Save_def prunes_def)
qed

text \<open>C27: \<open>Save\<close> appends the snapshot to the history and, when pruning is due (a positive
  retention, the last pruning at least a minute ago) and the deletion succeeds, drops exactly
  the snapshots older than the retention; it never touches the audit trail. What the history
  then holds is what reading its rows back gives: the blob of the row, decompressed and
  parsed, is the snapshot that was saved.\<close>

theorem Save_refines_history:
  assumes "db_holds env ss s" "gzip_ok env" "storable (ev_zone env) x" "in_int64 (snap_TakenAt x)" "ev_fault env InsertSnapshot = None"
    and "in_int64 (sq_retention s)" "in_int64 (ev_cutoff env - sq_retention s)"
  shows "\<exists>s'. Save env s x = (s', None) \<and> sq_audit s' = sq_audit s \<and>
    db_holds env
      (if 0 < sq_retention s \<and> minute \<le> time_Sub (ev_since env) (sq_lastPrune s) \<and> ev_fault env DeleteOld = None
       then filter (\<lambda>y. ev_cutoff env - sq_retention s \<le> snap_TakenAt y) (ss @ [x]) else ss @ [x]) s'"
  by (rule Save_appends [OF assms(1) storable_codec [OF assms(2,3)] assms(4-7)])

section \<open>Reading the history\<close>

lemma select_below_Some:
  assumes "sql_order (ev_order env)" "select_below env target s = Some r"
  shows "r \<in> set (sq_snapshots s) \<and> sr_taken_at r \<le> target \<and>
    (\<forall>q \<in> set (sq_snapshots s). sr_taken_at q \<le> target \<longrightarrow> sr_taken_at q \<le> sr_taken_at r)"
proof -
  let ?rows = "filter (\<lambda>r. sr_taken_at r \<le> target) (sq_snapshots s)"
  obtain rs where "ev_order env (\<lambda>r. - sr_taken_at r) ?rows = r # rs"
    using assms(2) by (auto simp: select_below_def split: list.splits)
  from sql_order.ord_first [OF assms(1) this] show ?thesis by auto
qed

lemma select_below_None:
  assumes "sql_order (ev_order env)" "select_below env target s = None"
  shows "\<forall>q \<in> set (sq_snapshots s). target < sr_taken_at q"
proof -
  have "ev_order env (\<lambda>r. - sr_taken_at r) (filter (\<lambda>r. sr_taken_at r \<le> target) (sq_snapshots s)) = []"
    using assms(2) by (simp add: select_below_def split: list.splits)
  then show ?thesis using sql_order.ord_Nil [OF assms(1)] by (auto simp: filter_empty_conv not_le)
qed

lemma select_above_Some:
  assumes "sql_order (ev_order env)" "select_above env target s = Some r"
  shows "r \<in> set (sq_snapshots s) \<and> target \<le> sr_taken_at r \<and>
    (\<forall>q \<in> set (sq_snapshots s). target \<le> sr_taken_at q \<longrightarrow> sr_taken_at r \<le> sr_taken_at q)"
proof -
  let ?rows = "filter (\<lambda>r. sr_taken_at r \<ge> target) (sq_snapshots s)"
  obtain rs where "ev_order env sr_taken_at ?rows = r # rs"
    using assms(2) by (auto simp: select_above_def split: list.splits)
  from sql_order.ord_first [OF assms(1) this] show ?thesis by auto
qed

lemma select_above_None:
  assumes "sql_order (ev_order env)" "select_above env target s = None"
  shows "\<forall>q \<in> set (sq_snapshots s). sr_taken_at q < target"
proof -
  have "ev_order env sr_taken_at (filter (\<lambda>r. sr_taken_at r \<ge> target) (sq_snapshots s)) = []"
    using assms(2) by (simp add: select_above_def split: list.splits)
  then show ?thesis using sql_order.ord_Nil [OF assms(1)] by (auto simp: filter_empty_conv not_le)
qed

lemma row_diff_exact: "\<bar>ts - target\<bar> < max_int64 \<Longrightarrow> row_diff ts target = \<bar>ts - target\<bar>"
proof -
  assume "\<bar>ts - target\<bar> < max_int64"
  then have "in_int64 (ts - target)" "in_int64 (- (ts - target))" by (auto simp: in_int64_def)
  then show ?thesis by (simp add: row_diff_def Let_def wrap64_id)
qed

lemma consider_row_simps:
  "consider_row None None target best = Inr best"
  "\<bar>sr_taken_at r - target\<bar> < max_int64 \<Longrightarrow>
   consider_row None (Some r) target (data, d, found) =
     Inr (if \<bar>sr_taken_at r - target\<bar> < d then (sr_data r, \<bar>sr_taken_at r - target\<bar>, True) else (data, d, found))"
  by (simp_all add: consider_row_def Let_def row_diff_exact)

text \<open>The two candidates: the row that wins is nearest to the target.\<close>

definition nearest_row :: "snap_row list \<Rightarrow> int \<Rightarrow> snap_row \<Rightarrow> bool" where
  "nearest_row rows target r \<longleftrightarrow>
     r \<in> set rows \<and> (\<forall>q \<in> set rows. \<bar>sr_taken_at r - target\<bar> \<le> \<bar>sr_taken_at q - target\<bar>)"

lemma best_row:
  assumes "sql_order (ev_order env)"
    and far: "\<forall>q \<in> set (sq_snapshots s). \<bar>sr_taken_at q - target\<bar> < max_int64"
  shows "\<exists>best. consider_row None (select_below env target s) target ('''', max_int64, False) = Inr best \<and>
    (if sq_snapshots s = [] then consider_row None (select_above env target s) target best = Inr ('''', max_int64, False)
     else \<exists>r d. nearest_row (sq_snapshots s) target r \<and>
       consider_row None (select_above env target s) target best = Inr (sr_data r, d, True))"
proof (cases "select_below env target s"; cases "select_above env target s")
  assume n: "select_below env target s = None" "select_above env target s = None"
  then have "sq_snapshots s = []"
    using select_below_None [OF assms(1) n(1)] select_above_None [OF assms(1) n(2)] by (cases "sq_snapshots s") auto
  with n show ?thesis by (simp add: consider_row_simps)
next
  fix a assume n: "select_below env target s = None" and a: "select_above env target s = Some a"
  note A = select_above_Some [OF assms(1) a] and B = select_below_None [OF assms(1) n]
  have "nearest_row (sq_snapshots s) target a" using A B by (auto simp: nearest_row_def)
  moreover have "\<bar>sr_taken_at a - target\<bar> < max_int64" using A far by blast
  moreover have "sq_snapshots s \<noteq> []" using A by auto
  ultimately show ?thesis unfolding n a
    by (intro exI [of _ "([], max_int64, False)"]) (auto simp only: consider_row_simps if_True if_False simp_thms)
next
  fix b assume b: "select_below env target s = Some b" and n: "select_above env target s = None"
  note B = select_below_Some [OF assms(1) b] and A = select_above_None [OF assms(1) n]
  have "nearest_row (sq_snapshots s) target b" using A B by (auto simp: nearest_row_def)
  moreover have "\<bar>sr_taken_at b - target\<bar> < max_int64" using B far by blast
  moreover have "sq_snapshots s \<noteq> []" using B by auto
  ultimately show ?thesis unfolding n b by (auto simp only: consider_row_simps if_True if_False simp_thms)
next
  fix a b assume a: "select_above env target s = Some a" and b: "select_below env target s = Some b"
  note A = select_above_Some [OF assms(1) a] and B = select_below_Some [OF assms(1) b]
  have lt: "\<bar>sr_taken_at a - target\<bar> < max_int64" "\<bar>sr_taken_at b - target\<bar> < max_int64" using A B far by blast+
  have near: "\<bar>sr_taken_at b - target\<bar> \<le> \<bar>sr_taken_at q - target\<bar> \<or> \<bar>sr_taken_at a - target\<bar> \<le> \<bar>sr_taken_at q - target\<bar>"
    if "q \<in> set (sq_snapshots s)" for q
    using A B that by (cases "sr_taken_at q \<le> target") auto
  have ne: "sq_snapshots s \<noteq> []" using A by auto
  have "nearest_row (sq_snapshots s) target (if \<bar>sr_taken_at a - target\<bar> < \<bar>sr_taken_at b - target\<bar> then a else b)"
    unfolding nearest_row_def using A B near by force
  then show ?thesis unfolding a b using lt ne
    by (intro exI [of _ "(sr_data b, \<bar>sr_taken_at b - target\<bar>, True)"];
        cases "\<bar>sr_taken_at a - target\<bar> < \<bar>sr_taken_at b - target\<bar>")
      (auto simp only: consider_row_simps if_True if_False simp_thms)
qed

definition nearest :: "snapshot list \<Rightarrow> time \<Rightarrow> snapshot \<Rightarrow> bool" where
  "nearest ss t x \<longleftrightarrow> x \<in> set ss \<and> (\<forall>y \<in> set ss. \<bar>snap_TakenAt x - t\<bar> \<le> \<bar>snap_TakenAt y - t\<bar>)"

text \<open>The condition under which no distance overflows.\<close>

definition in_reach :: "snapshot list \<Rightarrow> time \<Rightarrow> bool" where
  "in_reach ss t \<longleftrightarrow> in_int64 t \<and> (\<forall>x \<in> set ss. \<bar>snap_TakenAt x - t\<bar> < max_int64)"

lemma At_sqlite_nearest:
  assumes "sql_order (ev_order env)" "db_holds env ss s" "in_reach ss t"
    and "ev_fault env SelectBelow = None" "ev_fault env SelectAbove = None"
  shows "if ss = [] then At_sqlite env s t = Inr (zero_snapshot, False)
    else \<exists>x. At_sqlite env s t = Inr (x, True) \<and> nearest ss t x"
proof -
  have t: "time_UnixNano t = t" using assms(3) by (simp add: in_reach_def time_UnixNano_def wrap64_id)
  have len: "sq_snapshots s = [] \<longleftrightarrow> ss = []" using assms(2) by (auto simp: db_holds_def)
  have far: "\<forall>q \<in> set (sq_snapshots s). \<bar>sr_taken_at q - t\<bar> < max_int64"
    using assms(2,3) db_holds_rows unfolding in_reach_def row_is_def by metis
  from best_row [OF assms(1) far] obtain best where
    b: "consider_row None (select_below env t s) t ('''', max_int64, False) = Inr best" and
    a: "if sq_snapshots s = [] then consider_row None (select_above env t s) t best = Inr ('''', max_int64, False)
     else \<exists>r d. nearest_row (sq_snapshots s) t r \<and> consider_row None (select_above env t s) t best = Inr (sr_data r, d, True)"
    by blast
  show ?thesis
  proof (cases "ss = []")
    case True
    with a b len show ?thesis by (simp add: At_sqlite_def t assms(4,5) Let_def)
  next
    case False
    with a len obtain r d where r: "nearest_row (sq_snapshots s) t r"
      "consider_row None (select_above env t s) t best = Inr (sr_data r, d, True)" by auto
    obtain x where x: "x \<in> set ss" "row_is env r x" using r(1) assms(2) db_holds_rows by (metis nearest_row_def)
    have "\<bar>snap_TakenAt x - t\<bar> \<le> \<bar>snap_TakenAt y - t\<bar>" if y: "y \<in> set ss" for y
    proof -
      obtain q where "q \<in> set (sq_snapshots s)" "row_is env q y" using db_holds_snaps [OF assms(2) y] by blast
      with r(1) x(2) show ?thesis by (auto simp: nearest_row_def row_is_def)
    qed
    then have "nearest ss t x" using x(1) by (simp add: nearest_def)
    moreover have "At_sqlite env s t = Inr (x, True)"
      using b r(2) x(2) by (simp add: At_sqlite_def t assms(4,5) Let_def row_is_def)
    ultimately show ?thesis using False by simp
  qed
qed

lemma History_sqlite_window:
  assumes "sql_order (ev_order env)" "db_holds env ss s" "ev_fault env SelectHistory = None"
    and "time_IsZero from \<or> in_int64 from" "time_IsZero to \<or> in_int64 to"
  shows "\<exists>ms. History_sqlite env s from to = Inr ms \<and>
    mset ms = mset (map meta_of (filter (in_window from to) ss)) \<and> sorted (map meta_TakenAt ms)"
proof -
  let ?lo = "if \<not> time_IsZero from then time_UnixNano from else min_int64"
  let ?hi = "if \<not> time_IsZero to then time_UnixNano to else max_int64"
  let ?P = "\<lambda>r. ?lo \<le> sr_taken_at r \<and> sr_taken_at r \<le> ?hi"
  let ?meta = "\<lambda>r. \<lparr>meta_TakenAt = time_Unix0 (sr_taken_at r), meta_Roots = sr_roots r,
     meta_Edges = sr_edges r, meta_Sessions = sr_sessions r\<rparr>"
  let ?rows = "ev_order env sr_taken_at (filter ?P (sq_snapshots s))"
  have "list_all2 (row_is env) (filter ?P (sq_snapshots s)) (filter (in_window from to) ss)"
    using assms(2,4,5) unfolding db_holds_def
    by (rule_tac list_all2_filter)
      (auto simp: row_is_def in_window_def in_int64_def time_UnixNano_def wrap64_def)
  then have "map ?meta (filter ?P (sq_snapshots s)) = map meta_of (filter (in_window from to) ss)"
    by (induction rule: list_all2_induct) (auto simp: row_is_def meta_of_def time_Unix0_def)
  moreover have "mset (map ?meta ?rows) = mset (map ?meta (filter ?P (sq_snapshots s)))"
    using sql_order.ord_mset [OF assms(1)] by simp
  moreover have "sorted (map meta_TakenAt (map ?meta ?rows))"
    using sql_order.ord_sorted [OF assms(1), of sr_taken_at] by (simp add: comp_def time_Unix0_def)
  ultimately show ?thesis by (simp add: History_sqlite_def Let_def assms(3))
qed

text \<open>Without faults every query on well-formed rows succeeds.\<close>

lemma db_readable:
  assumes "sql_order (ev_order env)" "db_holds env ss h" "\<And>st. ev_fault env st = None"
  shows "\<exists>x. At_sqlite env h t = Inr x" "\<exists>x. History_sqlite env h from to = Inr x"
proof -
  have row: "\<exists>x. decode env (sr_data r) = Inr x" if "select_below env n h = Some r \<or> select_above env n h = Some r" for r n
    using that select_below_Some [OF assms(1), of n h r] select_above_Some [OF assms(1), of n h r] db_holds_rows [OF assms(2), of r]
    by (auto simp: row_is_def)
  show "\<exists>x. At_sqlite env h t = Inr x"
    using row [of "time_UnixNano t"] assms(3)
    by (fastforce simp: At_sqlite_def consider_row_def Let_def split: option.splits sum.splits if_splits)
  show "\<exists>x. History_sqlite env h from to = Inr x" by (simp add: History_sqlite_def Let_def assms(3))
qed

section \<open>The contract of a durable history\<close>

text \<open>What the store expects of its backend: \<open>holds ss p\<close> says that the backend holds the
  snapshots \<open>ss\<close>.\<close>

locale durable_history =
  fixes ops :: "'p persister"
    and holds :: "snapshot list \<Rightarrow> 'p \<Rightarrow> bool"
  assumes at_nearest: "holds ss p \<Longrightarrow> in_reach ss t \<Longrightarrow> p_At ops p t = Inr r \<Longrightarrow>
      (if ss = [] then r = (zero_snapshot, False) else snd r \<and> nearest ss t (fst r))"
    and history_window: "holds ss p \<Longrightarrow> time_IsZero from \<or> in_int64 from \<Longrightarrow> time_IsZero to \<or> in_int64 to \<Longrightarrow>
      p_History ops p from to = Inr ms \<Longrightarrow>
      mset ms = mset (map meta_of (filter (in_window from to) ss)) \<and> sorted (map meta_TakenAt ms)"
begin

text \<open>\<open>At\<close> of the store answers from the backend, or from the ring when the backend fails.\<close>

lemma store_At:
  assumes "st_persist s = Some p" "holds ss p" "in_reach ss t" "At ops t s = Some (s', x, found)"
  shows "(\<exists>err. p_At ops p t = Inl err \<and> at_ring s t = Some (x, found)) \<or>
    s' = s \<and> (if ss = [] then \<not> found else found \<and> nearest ss t x)"
proof (cases "p_At ops p t")
  case (Inl err)
  then show ?thesis using assms(1,4) by (auto simp: At_def)
next
  case (Inr r)
  then have "s' = s" "r = (x, found)" using assms(1,4) by (auto simp: At_def)
  with at_nearest [OF assms(2,3) Inr] show ?thesis by (auto split: if_splits)
qed

end

lemma decode_faults: "At_sqlite env s t = Inr r \<Longrightarrow> ev_fault env SelectBelow = None \<and> ev_fault env SelectAbove = None"
  by (auto simp: At_sqlite_def consider_row_def Let_def split: option.splits sum.splits)

lemma sqlite_durable_history:
  assumes "sql_order (ev_order env)"
  shows "durable_history (sqlite_ops env) (db_holds env)"
proof
  fix ss p t r
  assume h: "db_holds env ss p" "in_reach ss t" "p_At (sqlite_ops env) p t = Inr r"
  then have "ev_fault env SelectBelow = None" "ev_fault env SelectAbove = None"
    using decode_faults by (auto simp: sqlite_ops_def)
  from At_sqlite_nearest [OF assms h(1,2) this] h(3)
  show "if ss = [] then r = (zero_snapshot, False) else snd r \<and> nearest ss t (fst r)"
    by (auto simp: sqlite_ops_def split: if_splits)
next
  fix ss p "from" to ms
  assume h: "db_holds env ss p" "time_IsZero from \<or> in_int64 from" "time_IsZero to \<or> in_int64 to"
    "p_History (sqlite_ops env) p from to = Inr ms"
  then have "ev_fault env SelectHistory = None"
    by (auto simp: sqlite_ops_def History_sqlite_def Let_def split: option.splits)
  from History_sqlite_window [OF assms h(1) this h(2,3)] h(4)
  show "mset ms = mset (map meta_of (filter (in_window from to) ss)) \<and> sorted (map meta_TakenAt ms)"
    by (auto simp: sqlite_ops_def)
qed

text \<open>An engine that keeps the order of insertion among equal keys.\<close>

definition stable_env :: "sql_env \<Rightarrow> sql_env" where
  "stable_env env = env\<lparr>ev_order := (\<lambda>f rows. sort_key f rows)\<rparr>"

lemma stable_env_order: "sql_order (ev_order (stable_env env))"
  by (simp add: stable_env_def sort_order.sql_order_axioms)

interpretation sqlite_history: durable_history "sqlite_ops (stable_env env)" "db_holds (stable_env env)" for env
  by (rule sqlite_durable_history [OF stable_env_order])

section \<open>The audit trail in SQLite\<close>

definition audit_wf :: "sqlite \<Rightarrow> bool" where
  "audit_wf s \<longleftrightarrow> sorted_wrt (<) (map ar_id (sq_audit s)) \<and> (\<forall>r \<in> set (sq_audit s). ar_id r \<le> sq_audit_seq s)"

definition sqlite_trail :: "sqlite \<Rightarrow> entry list" where
  "sqlite_trail s = map entry_of_row (sq_audit s)"

lemma audit_sorted_rev:
  assumes "sorted_wrt (<) (map ar_id rows)" "sorted (map ar_at rows)"
  shows "sort_key (\<lambda>r. (- ar_at r, - ar_id r)) rows = rev rows"
proof (rule sorted_key_unique [where f = "\<lambda>r. (- ar_at r, - ar_id r)"])
  have "sorted_wrt (\<lambda>a b. (- ar_at b, - ar_id b) \<le> (- ar_at a, - ar_id a)) rows"
    using assms unfolding sorted_wrt_map by (induction rows) auto
  then show "sorted (map (\<lambda>r. (- ar_at r, - ar_id r)) (rev rows))"
    by (simp add: sorted_wrt_rev sorted_wrt_map)
  have "distinct (map ar_id rows)" using assms(1) by (simp add: strict_sorted_iff)
  then show "inj_on (\<lambda>r. (- ar_at r, - ar_id r)) (set (sort_key (\<lambda>r. (- ar_at r, - ar_id r)) rows))"
    by (auto simp: distinct_map inj_on_def)
qed simp_all

lemma entry_of_row_At [simp]: "ent_At (entry_of_row r) = ar_at r"
  by (simp add: entry_of_row_def time_Unix0_def)

interpretation sqlite_sink: audit_sink audit_wf "\<lambda>e. in_int64 (ent_At e)" 1000 sqlite_trail
  "\<lambda>e s. Some (Record_sqlite env e s)" "\<lambda>l s. Some (Recent_sqlite env l s)" for env
proof
  fix s :: sqlite and e err s' l es
  show "(1 :: int) \<le> 1000" by simp
  assume wf: "audit_wf s"
  then show "\<exists>err s'. Some (Record_sqlite env e s) = Some (err, s') \<and> audit_wf s'"
    by (fastforce simp: Record_sqlite_def audit_wf_def sorted_wrt_append split: option.splits)
  show "sqlite_trail s' = sqlite_trail s" if "Some (Record_sqlite env e s) = Some (Some err, s')"
    using that by (auto simp: Record_sqlite_def split: option.splits)
  show "sqlite_trail s' \<noteq> [] \<and> suffix (sqlite_trail s') (sqlite_trail s @ [e])"
    if "in_int64 (ent_At e)" "Some (Record_sqlite env e s) = Some (None, s')"
    using that by (auto simp: Record_sqlite_def sqlite_trail_def entry_of_row_def boolToInt_def
        time_UnixNano_def time_Unix0_def wrap64_id split: option.splits)
  show "es = take (nat l) (rev (sqlite_trail s))"
    if "1 \<le> l" "l \<le> 1000" "sorted (map ent_At (sqlite_trail s))" "Some (Recent_sqlite env l s) = Some (Inr es)"
    using that wf audit_sorted_rev [of "sq_audit s"]
    by (auto simp: Recent_sqlite_def audit_wf_def sqlite_trail_def comp_def Let_def rev_map take_map split: option.splits)
qed simp

section \<open>Properties\<close>

text \<open>C26: \<open>At\<close> of a store with the SQLite backend: when the queries succeed, it returns the
  stored snapshot nearest in time, or none when nothing is stored, whatever order the engine
  gives to rows with equal times; when either of its two queries fails, it logs the error of
  that query and answers from the ring.\<close>

theorem store_At_durable:
  assumes "sql_order (ev_order env)" "st_persist s = Some p" "db_holds env ss p" "in_reach ss t"
  shows "(ev_fault env SelectBelow = None \<and> ev_fault env SelectAbove = None \<longrightarrow>
      (if ss = [] then At (sqlite_ops env) t s = Some (s, zero_snapshot, False)
       else \<exists>x. At (sqlite_ops env) t s = Some (s, x, True) \<and> x \<in> set ss \<and>
         (\<forall>y \<in> set ss. \<bar>snap_TakenAt x - t\<bar> \<le> \<bar>snap_TakenAt y - t\<bar>))) \<and>
    (\<forall>err. ev_fault env SelectBelow = Some err \<or> ev_fault env SelectBelow = None \<and> ev_fault env SelectAbove = Some err \<longrightarrow>
      At (sqlite_ops env) t s = map_option (Pair (log_warn err s)) (at_ring s t))"
proof -
  have "At_sqlite env p t = Inl err"
    if "ev_fault env SelectBelow = Some err \<or> ev_fault env SelectBelow = None \<and> ev_fault env SelectAbove = Some err" for err
    using that by (auto simp: At_sqlite_def consider_row_def Let_def split: option.splits)
  moreover have "At (sqlite_ops env) t s = Some (s, r)" if "At_sqlite env p t = Inr r" for r
    using that assms(2) by (simp add: At_def sqlite_ops_def)
  ultimately show ?thesis
    using At_sqlite_nearest [OF assms(1,3,4)] assms(2)
    by (auto simp: nearest_def At_def sqlite_ops_def split: if_splits)
qed

text \<open>\<open>History\<close> of a store with the SQLite backend summarises exactly the stored snapshots
  in the window that the ring would show, oldest first.\<close>

theorem store_History_durable:
  assumes "sql_order (ev_order env)" "st_persist s = Some p" "db_holds env ss p" "ev_fault env SelectHistory = None"
    and "time_IsZero from \<or> in_int64 from" "time_IsZero to \<or> in_int64 to"
  shows "\<exists>ms. History (sqlite_ops env) from to s = Some (s, ms) \<and>
    mset ms = mset (map meta_of (filter (in_window from to) ss)) \<and> sorted (map meta_TakenAt ms)"
  using History_sqlite_window [OF assms(1,3,4,5,6)] assms(2) by (auto simp: History_def sqlite_ops_def)

text \<open>The SQLite trail: an entry that was recorded without an error, with a time not before
  those recorded earlier, is the first one that \<open>Recent\<close> returns, with every field as
  recorded.\<close>

theorem sqlite_recorded_first:
  assumes "audit_wf s" "in_int64 (ent_At e)" "Record_sqlite env e s = (None, s')"
    and "sorted (map ent_At (sqlite_trail s @ [e]))" "1 \<le> l" "l \<le> 1000" "Recent_sqlite env' l s' = Inr es"
  shows "\<exists>rest. es = e # rest"
proof -
  have "audit_wf s'" using sqlite_sink.rec_returns [OF assms(1), of env e] assms(3) by auto
  moreover have "sqlite_trail s' = sqlite_trail s @ [e]"
    using assms(2,3) by (auto simp: Record_sqlite_def sqlite_trail_def entry_of_row_def boolToInt_def
        time_UnixNano_def time_Unix0_def wrap64_id split: option.splits)
  ultimately have "es = take (nat l) (e # rev (sqlite_trail s))"
    using sqlite_sink.recent_newest [of s' l env' es] assms(4-7) by simp
  with assms(5) show ?thesis by (cases "nat l") auto
qed

section \<open>A concrete backend\<close>

text \<open>An engine without faults, a process in UTC, no compression, and a database after two
  saves.\<close>

definition demo_sql :: sql_env where
  "demo_sql = \<lparr>ev_order = (\<lambda>f rows. sort_key f rows), ev_fault = (\<lambda>st. None),
     ev_zone = (\<lambda>t. 0), ev_jsonError = (\<lambda>err. ''json''), ev_gzip = Inr, ev_gunzip = Inr,
     ev_since = 0, ev_prune = 0, ev_cutoff = 0\<rparr>"

definition demo_empty :: sqlite where
  "demo_empty = \<lparr>sq_snapshots = [], sq_snap_seq = 0, sq_audit = [], sq_audit_seq = 0, sq_retention = 0, sq_log = None,
      sq_lastPrune = zero_time\<rparr>"

definition demo_db :: sqlite where
  "demo_db = fst (Save demo_sql (fst (Save demo_sql demo_empty (demo_snap 1))) (demo_snap 9))"

lemma demo_snap_TakenAt [simp]: "snap_TakenAt (demo_snap t) = t"
  by (simp add: demo_snap_def)

lemma demo_gzip: "gzip_ok demo_sql"
  by (simp add: gzip_ok_def demo_sql_def)

lemma demo_storable: "storable (ev_zone demo_sql) (demo_snap 1)" "storable (ev_zone demo_sql) (demo_snap 4)"
  "storable (ev_zone demo_sql) (demo_snap 9)"
proof -
  have "writable_time (\<lambda>t. 0) 1" "writable_time (\<lambda>t. 0) 4" "writable_time (\<lambda>t. 0) 9" "valid_text ''''" by code_simp+
  then show "storable (ev_zone demo_sql) (demo_snap 1)" "storable (ev_zone demo_sql) (demo_snap 4)"
    "storable (ev_zone demo_sql) (demo_snap 9)"
    by (simp_all add: storable_def demo_sql_def demo_snap_def zero_snapshot_def)
qed

lemma demo_save:
  assumes "db_holds demo_sql ss s" "storable (ev_zone demo_sql) (demo_snap t)" "in_int64 t" "sq_retention s = 0"
  shows "db_holds demo_sql (ss @ [demo_snap t]) (fst (Save demo_sql s (demo_snap t)))"
  using Save_appends [OF assms(1) storable_codec [OF demo_gzip assms(2)]] assms(3,4)
  by (auto simp: demo_sql_def in_int64_def)

lemma Save_frame:
  "sq_audit (fst (Save env s x)) = sq_audit s" "sq_retention (fst (Save env s x)) = sq_retention s"
  "sq_audit_seq (fst (Save env s x)) = sq_audit_seq s"
  by (auto simp: Save_def maybePrune_def insert_snapshot_def Let_def split: sum.splits option.splits)

lemma demo_db_rows:
  "sq_audit demo_db = []" "sq_retention demo_db = 0" "sq_audit_seq demo_db = 0"
  "db_holds demo_sql [demo_snap 1, demo_snap 9] demo_db"
proof -
  have "db_holds demo_sql [] demo_empty" by (simp add: db_holds_def demo_empty_def)
  from demo_save [OF demo_save [OF this demo_storable(1)] demo_storable(3)]
  show "db_holds demo_sql [demo_snap 1, demo_snap 9] demo_db"
    by (simp add: demo_db_def Save_frame demo_empty_def in_int64_def)
qed (simp_all add: demo_db_def Save_frame demo_empty_def)

lemma demo_sql_order: "sql_order (ev_order demo_sql)"
  by (simp add: demo_sql_def sort_order.sql_order_axioms)

theorem Save_refines_history_witness:
  "\<exists>s'. Save demo_sql demo_db (demo_snap 4) = (s', None) \<and>
     db_holds demo_sql [demo_snap 1, demo_snap 9, demo_snap 4] s'"
  using Save_refines_history [OF demo_db_rows(4) demo_gzip demo_storable(2)]
  by (auto simp: in_int64_def demo_db_rows demo_sql_def)

definition demo_durable :: "sqlite store" where
  "demo_durable = SetPersister demo_db None (New 2)"

lemma demo_durable_persist: "st_persist demo_durable = Some demo_db"
  by (simp add: demo_durable_def SetPersister_def)

text \<open>The same engine when its second query fails.\<close>

definition demo_faulty :: sql_env where
  "demo_faulty = demo_sql\<lparr>ev_fault := (\<lambda>st. if st = SelectAbove then Some ''gone'' else None)\<rparr>"

lemma demo_faulty_facts:
  "sql_order (ev_order demo_faulty)" "db_holds demo_faulty [demo_snap 1, demo_snap 9] demo_db"
proof -
  have "decode demo_faulty = decode demo_sql" by (simp add: fun_eq_iff decode_def demo_faulty_def demo_sql_def split: sum.splits)
  then have "row_is demo_faulty = row_is demo_sql" by (simp add: fun_eq_iff row_is_def)
  then show "db_holds demo_faulty [demo_snap 1, demo_snap 9] demo_db"
    using demo_db_rows(4) by (simp add: db_holds_def)
  show "sql_order (ev_order demo_faulty)" using demo_sql_order by (simp add: demo_faulty_def)
qed

theorem store_At_durable_witness:
  "(\<exists>x. At (sqlite_ops demo_sql) 7 demo_durable = Some (demo_durable, x, True) \<and>
     x \<in> {demo_snap 1, demo_snap 9} \<and> \<bar>snap_TakenAt x - 7\<bar> \<le> 2) \<and>
   At (sqlite_ops demo_faulty) 7 demo_durable = map_option (Pair (log_warn ''gone'' demo_durable)) (at_ring demo_durable 7)"
proof
  have reach: "in_reach [demo_snap 1, demo_snap 9] 7" by (simp add: in_reach_def in_int64_def)
  moreover have "ev_fault demo_sql SelectBelow = None \<and> ev_fault demo_sql SelectAbove = None"
    by (simp add: demo_sql_def)
  ultimately show "\<exists>x. At (sqlite_ops demo_sql) 7 demo_durable = Some (demo_durable, x, True) \<and>
     x \<in> {demo_snap 1, demo_snap 9} \<and> \<bar>snap_TakenAt x - 7\<bar> \<le> 2"
    using store_At_durable [OF demo_sql_order demo_durable_persist demo_db_rows(4), of 7] by fastforce
  have "ev_fault demo_faulty SelectBelow = None \<and> ev_fault demo_faulty SelectAbove = Some ''gone''" by (simp add: demo_faulty_def)
  with store_At_durable [OF demo_faulty_facts(1) demo_durable_persist demo_faulty_facts(2) reach]
  show "At (sqlite_ops demo_faulty) 7 demo_durable = map_option (Pair (log_warn ''gone'' demo_durable)) (at_ring demo_durable 7)"
    by blast
qed

theorem store_History_durable_witness:
  "\<exists>ms. History (sqlite_ops demo_sql) 2 zero_time demo_durable = Some (demo_durable, ms) \<and>
     mset ms = {#meta_of (demo_snap 9)#}"
proof -
  have pre: "ev_fault demo_sql SelectHistory = None" "time_IsZero 2 \<or> in_int64 2" "time_IsZero zero_time \<or> in_int64 zero_time"
    by (simp_all add: demo_sql_def in_int64_def time_IsZero_def)
  show ?thesis
    using store_History_durable [OF demo_sql_order demo_durable_persist demo_db_rows(4) pre]
    by (auto simp: in_window_def time_IsZero_def zero_time_def)
qed

definition demo_entry :: entry where
  "demo_entry = \<lparr>ent_At = 3, ent_Actor = ''a'', ent_Action = ''cancel'', ent_PID = 7, ent_VictimQuery = '''',
      ent_Delivered = True, ent_Error = ''''\<rparr>"

theorem sqlite_recorded_first_witness:
  "\<exists>s' rest. Record_sqlite demo_sql demo_entry demo_db = (None, s') \<and>
     Recent_sqlite demo_sql 5 s' = Inr (demo_entry # rest)"
proof -
  have pre: "audit_wf demo_db" "in_int64 (ent_At demo_entry)" "sorted (map ent_At (sqlite_trail demo_db @ [demo_entry]))"
    by (simp_all add: audit_wf_def demo_db_rows sqlite_trail_def in_int64_def demo_entry_def)
  obtain s' where s': "Record_sqlite demo_sql demo_entry demo_db = (None, s')"
    by (simp add: Record_sqlite_def demo_sql_def)
  obtain es where es: "Recent_sqlite demo_sql 5 s' = Inr es" by (simp add: Recent_sqlite_def demo_sql_def)
  show ?thesis using sqlite_recorded_first [OF pre(1,2) s' pre(3) _ _ es] s' es by auto
qed

end
