(* ===== verification/System.thy ===== *)
theory System
  imports Api Config Setup Persist
begin

text \<open>
  \<open>cmd/pglockr/main.go\<close>: how the parts are put together. \<open>buildIdentity\<close> turns the
  authentication settings into an identity; \<open>run_start\<close> is the state \<open>run\<close> sets up before it
  serves; \<open>poll_source\<close> is the source the poller reads, masked when redaction is on;
  \<open>preflight\<close> and \<open>runGrants\<close> are the two uses of the provisioning scripts.
  The audit sink is of either kind here, so this is where the audited \<open>Do\<close> is stated in full.
\<close>

section \<open>Identity\<close>

datatype build_error =
    BadPrincipal string string
  | BadMapping string string
  | BadDefault string
  | BadProxy proxy_error

primrec token_entries :: "principal_config list \<Rightarrow> token_principal list \<Rightarrow> build_error + token_principal list" where
  "token_entries [] out = Inr out"
| "token_entries (p # ps) out =
     (case ParseRole (pc_Role p) of
        Inl err \<Rightarrow> Inl (BadPrincipal (pc_Name p) err)
      | Inr role \<Rightarrow> token_entries ps (out @ [\<lparr>tp_Name = pc_Name p, tp_Role = role, tp_Token = pc_Token p\<rparr>]))"

primrec role_map :: "role_mapping list \<Rightarrow> (string, role) fmap \<Rightarrow> build_error + (string, role) fmap" where
  "role_map [] m = Inr m"
| "role_map (x # xs) m =
     (case ParseRole (rm_Role x) of
        Inl err \<Rightarrow> Inl (BadMapping (rm_Group x) err)
      | Inr role \<Rightarrow> role_map xs (fmupd (rm_Group x) role m))"

definition default_role :: "string \<Rightarrow> build_error + role" where
  "default_role d =
     (if d = '''' then Inr ''''
      else case ParseRole d of Inl err \<Rightarrow> Inl (BadDefault err) | Inr r \<Rightarrow> Inr r)"

definition buildProxyIdentity :: "proxy_auth \<Rightarrow> build_error + proxy_config" where
  "buildProxyIdentity p =
     (case role_map (pa_RoleMappings p) fmempty of
        Inl err \<Rightarrow> Inl err
      | Inr groupToRole \<Rightarrow>
          (case default_role (pa_DefaultRole p) of
             Inl err \<Rightarrow> Inl err
           | Inr defaultRole \<Rightarrow>
               (case NewProxyIdentity
                       \<lparr>px_UserHeader = pa_UserHeader p, px_GroupsHeader = pa_GroupsHeader p, px_GroupsSep = pa_GroupsSep p,
                        px_TrustMode = pa_TrustMode p, px_SecretHeader = pa_SecretHeader p, px_Secret = pa_Secret p,
                        px_DefaultRole = defaultRole, px_GroupToRole = groupToRole\<rparr> of
                  Inl err \<Rightarrow> Inl (BadProxy err)
                | Inr cfg \<Rightarrow> Inr cfg)))"

definition buildIdentity :: "(string \<Rightarrow> string) \<Rightarrow> auth_config \<Rightarrow> build_error + identity" where
  "buildIdentity sha256 cfg =
     (if au_Mode cfg = ''proxy'' then
        (case buildProxyIdentity (au_Proxy cfg) of Inl err \<Rightarrow> Inl err | Inr px \<Rightarrow> Inr (Proxy_Authenticate px))
      else
        (let entries = (if au_Token cfg \<noteq> '''' then [\<lparr>tp_Name = ''default'', tp_Role = RoleAdmin, tp_Token = au_Token cfg\<rparr>] else [])
         in case token_entries (au_Principals cfg) entries of
              Inl err \<Rightarrow> Inl err
            | Inr entries \<Rightarrow> Inr (Token_Authenticate sha256 (NewTokenIdentity sha256 entries))))"

section \<open>Wiring\<close>

definition poll_source :: "config \<Rightarrow> (int fset \<Rightarrow> int list) \<Rightarrow> polled \<Rightarrow> polled" where
  "poll_source cfg ord raw = (if cfg_Redaction cfg then Source_Snapshot ord raw else raw)"

text \<open>The store, with the history attached when persistence is on, and the poller on it.\<close>

definition start_store :: "config \<Rightarrow> 'p option \<Rightarrow> string list option \<Rightarrow> 'p store" where
  "start_store cfg hist log =
     (let storage = New (po_RingSize (cfg_Poll cfg))
      in case hist of None \<Rightarrow> storage | Some h \<Rightarrow> SetPersister h log storage)"

definition start_poller :: "config \<Rightarrow> 'p option \<Rightarrow> string list option \<Rightarrow> 'p poller" where
  "start_poller cfg hist log =
     SetMetrics_poller (New_poller (cfg_ClusterName cfg) (start_store cfg hist log) (po_Interval (cfg_Poll cfg)))"

section \<open>Privileges\<close>

text \<open>What \<open>preflight\<close> logs, and the message for the standard error.\<close>

datatype notice = CapsUnknown string | CapsKnown capabilities | NoStats string | NoSignal string | Apply string string

definition preflight :: "pg_pool \<Rightarrow> notice list" where
  "preflight pool =
     (case Capabilities pool of
        Inl err \<Rightarrow> [CapsUnknown err]
      | Inr caps \<Rightarrow>
          let needStats = (\<not> cap_CanReadStats caps); needSignal = (\<not> cap_CanSignal caps)
          in [CapsKnown caps] @
             (if \<not> needStats \<and> \<not> needSignal then []
              else (if needStats then [NoStats (cap_Role caps)] else []) @
                   (if needSignal then [NoSignal (cap_Role caps)] else []) @
                   [Apply (cap_Role caps) (Remediation (cap_Role caps) needStats needSignal)]))"

text \<open>\<open>runGrants\<close>: the script for the standard output and the guidance for the standard error.
  The flag parser and the quoting of \<open>%q\<close> are arguments.\<close>

definition grants_help :: "(string \<Rightarrow> string) \<Rightarrow> string \<Rightarrow> string \<Rightarrow> bool \<Rightarrow> string" where
  "grants_help quote role pw generated =
     nl @ ''# Review the SQL above, then apply it as a superuser, e.g.:'' @ nl @
     ''#   pglockr grants --role '' @ role @ '' | psql '' @ [c_dquote] @ ''postgres://postgres@HOST:5432/DBNAME'' @ [c_dquote] @ nl @
     (if generated
      then ''#'' @ nl @ ''# Generated password for '' @ quote role @ '' (save it '' @ [CHR 0xE2, CHR 0x80, CHR 0x94] @
           '' shown once):'' @ nl @ ''#   '' @ pw @ nl
      else '''') @
     ''#'' @ nl @ ''# Then point pglockr at it:'' @ nl @ ''#   PGLOCKR_DSN='' @ [c_dquote] @ ''postgres://'' @ role @
     '':PASSWORD@HOST:5432/DBNAME'' @ [c_dquote] @ nl"

definition runGrants ::
  "(string \<Rightarrow> string) \<Rightarrow> (string list \<Rightarrow> string + string \<times> string \<times> bool) \<Rightarrow> string + string \<Rightarrow> string list \<Rightarrow> string + string \<times> string" where
  "runGrants quote parse rand_read args =
     (case parse args of
        Inl err \<Rightarrow> Inl err
      | Inr (role, password, noSignal) \<Rightarrow>
          (case (if password = '''' then RandomPassword rand_read else Inr password) of
             Inl err \<Rightarrow> Inl err
           | Inr pw \<Rightarrow>
               Inr (Script \<lparr>go_Role = role, go_Password = pw, go_Signal = \<not> noSignal\<rparr>,
                    grants_help quote role pw (password = ''''))))"

section \<open>The audit sink of the program\<close>

text \<open>A trail in memory, or the history database when persistence is on. The database is then
  both the backend of the store and the sink: \<open>Save\<close> and its pruning leave the audit table
  alone and \<open>Record\<close> leaves the snapshots alone, so each holder sees the table it works on.\<close>

datatype sink = MemorySink memory | SqliteSink sqlite

fun sink_record :: "sql_env \<Rightarrow> entry \<Rightarrow> sink \<Rightarrow> (string option \<times> sink) option" where
  "sink_record env e (MemorySink m) = map_option (map_prod id MemorySink) (Record e m)"
| "sink_record env e (SqliteSink h) = Some (map_prod id SqliteSink (Record_sqlite env e h))"

fun sink_recent :: "sql_env \<Rightarrow> int \<Rightarrow> sink \<Rightarrow> (string + entry list) option" where
  "sink_recent env l (MemorySink m) = Recent l m"
| "sink_recent env l (SqliteSink h) = Some (Recent_sqlite env l h)"

fun sink_ok :: "sink \<Rightarrow> bool" where
  "sink_ok (MemorySink m) = memory_wf m"
| "sink_ok (SqliteSink h) = audit_wf h"

fun sink_trail :: "sink \<Rightarrow> entry list" where
  "sink_trail (MemorySink m) = mem_entries m"
| "sink_trail (SqliteSink h) = sqlite_trail h"

lemma Save_keeps_audit: "sq_audit (fst (Save env h snap)) = sq_audit h \<and> sq_audit_seq (fst (Save env h snap)) = sq_audit_seq h"
  by (simp add: Save_def maybePrune_def insert_snapshot_def Let_def split: sum.splits option.splits)

lemma Record_keeps_snapshots:
  "sq_snapshots (snd (Record_sqlite env e h)) = sq_snapshots h \<and> sq_snap_seq (snd (Record_sqlite env e h)) = sq_snap_seq h \<and>
   sq_lastPrune (snd (Record_sqlite env e h)) = sq_lastPrune h"
  by (simp add: Record_sqlite_def split: option.splits)

interpretation any_sink: audit_sink sink_ok "\<lambda>e. in_int64 (ent_At e)" 1000 sink_trail "sink_record env" "sink_recent env" for env
proof
  fix s e err s' l es
  show "(1 :: int) \<le> 1000" by simp
  assume ok: "sink_ok s"
  show "\<exists>err s'. sink_record env e s = Some (err, s') \<and> sink_ok s'"
    using ok memory.rec_returns sqlite_sink.rec_returns [of _ env e] by (cases s) force+
  show "sink_trail s' = sink_trail s" if "sink_record env e s = Some (Some err, s')"
    using that ok memory.rec_error sqlite_sink.rec_error [of _ env e]
    by (cases s) (auto simp: map_prod_def split: prod.splits)
  show "sink_trail s' \<noteq> [] \<and> suffix (sink_trail s') (sink_trail s @ [e])"
    if "in_int64 (ent_At e)" "sink_record env e s = Some (None, s')"
  proof (cases s)
    case (MemorySink m)
    with that(2) obtain m' where "Record e m = Some (None, m')" "s' = MemorySink m'" by (auto simp: map_prod_def split: prod.splits)
    with memory.rec_keeps [of m e m'] ok MemorySink show ?thesis by auto
  next
    case (SqliteSink h)
    with that(2) obtain h' where "Record_sqlite env e h = (None, h')" "s' = SqliteSink h'" by (auto simp: map_prod_def split: prod.splits)
    with sqlite_sink.rec_keeps [of h e env h'] that(1) ok SqliteSink show ?thesis by auto
  qed
  show "\<exists>r. sink_recent env l s = Some r" using ok memory.recent_returns by (cases s) auto
  show "es = take (nat l) (rev (sink_trail s))"
    if "1 \<le> l" "l \<le> 1000" "sorted (map ent_At (sink_trail s))" "sink_recent env l s = Some (Inr es)"
    using that ok memory.recent_newest [of _ l es] sqlite_sink.recent_newest [of _ l env es]
    by (cases s) auto
qed

text \<open>C16: \<open>Do\<close> with the sink of either kind: a cancel is sent as a cancel and a terminate as a
  terminate, once, and any other action is not sent at all. The trail then ends with an entry that
  names the actor, the action, the target, the victim's query and the outcome, and it is the
  first one that \<open>Recent\<close> returns; the only exception is a database that refuses to record it:
  then the trail stays as it was and the error of the database is logged before the line on the
  signal. The trail in memory never refuses. Delivery is reported only when the server confirmed
  it and there was no error; the error of the server, and nothing else, is returned.\<close>

theorem Do_audited:
  assumes "svc_sink svc = Some k" "sink_ok k" "in_int64 now"
    and "(if action = ''cancel'' then sg_Cancel sig pid (svc_db svc)
          else if action = ''terminate'' then sg_Terminate sig pid (svc_db svc)
          else (svc_db svc, False, None)) = (d, delivered, err)"
    and "e = \<lparr>ent_At = now, ent_Actor = actor, ent_Action = action, ent_PID = pid, ent_VictimQuery = fst (lookup pid),
          ent_Delivered = (delivered \<and> err = None), ent_Error = (case err of None \<Rightarrow> '''' | Some m \<Rightarrow> m)\<rparr>"
    and "line = (case err of None \<Rightarrow> SignalDone action pid actor delivered (fst (lookup pid)) now
          | Some m \<Rightarrow> SignalFailed action pid actor delivered (fst (lookup pid)) now m)"
  shows "\<exists>svc' k'.
    Do sig (Some lookup) (sink_record env) observe now action pid actor svc =
      Some (svc', \<lparr>res_Action = action, res_PID = pid, res_Delivered = (delivered \<and> err = None), res_At = now\<rparr>, err) \<and>
    svc_db svc' = d \<and> svc_sink svc' = Some k' \<and> sink_ok k' \<and>
    svc_obs svc' = map_option (observe action (delivered \<and> err = None)) (svc_obs svc) \<and>
    (sink_trail k' \<noteq> [] \<and> last (sink_trail k') = e \<and> suffix (sink_trail k') (sink_trail k @ [e]) \<and>
       (\<forall>env' es. sorted (map ent_At (sink_trail k')) \<and> sink_recent env' 1 k' = Some (Inr es) \<longrightarrow> es = [e]) \<and>
       svc_log svc' = svc_log svc @ [line] \<or>
     (\<exists>h rerr. k = SqliteSink h \<and> sink_trail k' = sink_trail k \<and> svc_log svc' = svc_log svc @ [SinkFailed rerr, line]))"
proof -
  have sent: "send_action sig action pid (svc_db svc) = (d, delivered, err)"
    using assms(4) unfolding send_action_def ActionCancel_def ActionTerminate_def .
  have e: "e = mk_entry now actor action pid (fst (lookup pid)) delivered err" by (simp add: assms(5) mk_entry_def)
  obtain rerr k' where r: "sink_record env e k = Some (rerr, k')" "sink_ok k'" using any_sink.rec_returns [OF assms(2)] by blast
  let ?lines = "case rerr of None \<Rightarrow> [] | Some x \<Rightarrow> [SinkFailed x]"
  let ?svc = "svc\<lparr>svc_db := d, svc_sink := Some k', svc_obs := map_option (observe action (ent_Delivered e)) (svc_obs svc),
    svc_log := svc_log svc @ ?lines @ [line]\<rparr>"
  have "write_sink (sink_record env) e (svc_sink svc) = Some (Some k', ?lines)"
    using r assms(1) by (auto simp: write_sink_def split: option.splits)
  then have D: "Do sig (Some lookup) (sink_record env) observe now action pid actor svc =
      Some (?svc, \<lparr>res_Action = action, res_PID = pid, res_Delivered = (delivered \<and> err = None), res_At = now\<rparr>, err)"
    by (simp add: Do_def sent e [symmetric] assms(6) Let_def)
  have "ent_Delivered e = (delivered \<and> err = None)" by (simp add: assms(5))
  moreover have "sink_trail k' \<noteq> [] \<and> last (sink_trail k') = e \<and> suffix (sink_trail k') (sink_trail k @ [e]) \<and>
      (\<forall>env' es. sorted (map ent_At (sink_trail k')) \<and> sink_recent env' 1 k' = Some (Inr es) \<longrightarrow> es = [e])" if "rerr = None"
  proof -
    have "in_int64 (ent_At e)" by (simp add: assms(3,5))
    from any_sink.rec_keeps [OF assms(2) this r(1) [unfolded that]]
    have keep: "sink_trail k' \<noteq> []" "suffix (sink_trail k') (sink_trail k @ [e])" by blast+
    then have last: "last (sink_trail k') = e" by (metis last_append last_snoc suffix_def)
    have "es = [e]" if "sorted (map ent_At (sink_trail k'))" "sink_recent env' 1 k' = Some (Inr es)" for env' es
      using any_sink.recent_newest [OF r(2) _ _ that] keep(1) last by (cases "rev (sink_trail k')") (auto simp: last_rev hd_rev [symmetric])
    with keep last show ?thesis by blast
  qed
  moreover have "(\<exists>h. k = SqliteSink h) \<and> sink_trail k' = sink_trail k" if "rerr = Some x" for x
  proof (cases k)
    case (MemorySink m)
    with r(1) that assms(2) show ?thesis by (auto simp: Record_eq)
  next
    case (SqliteSink h)
    with any_sink.rec_error [OF assms(2) r(1) [unfolded that]] show ?thesis by simp
  qed
  ultimately show ?thesis unfolding D using r(2) by (cases rerr) auto
qed

theorem Do_audited_witness:
  "\<exists>svc' k'.
    Do demo_signaler (Some (\<lambda>pid. (''q'', True))) (sink_record demo_sql) (\<lambda>a b c. c) 5 ''cancel'' 7 ''ann''
        (New_service () (Some (MemorySink (NewMemory 10))) :: (unit, sink, unit) service) =
      Some (svc', \<lparr>res_Action = ''cancel'', res_PID = 7, res_Delivered = True, res_At = 5\<rparr>, None) \<and>
    svc_sink svc' = Some k' \<and>
    last (sink_trail k') = \<lparr>ent_At = 5, ent_Actor = ''ann'', ent_Action = ''cancel'', ent_PID = 7, ent_VictimQuery = ''q'',
      ent_Delivered = True, ent_Error = ''''\<rparr>"
proof -
  let ?svc = "New_service () (Some (MemorySink (NewMemory 10))) :: (unit, sink, unit) service"
  have pre: "svc_sink ?svc = Some (MemorySink (NewMemory 10))" "sink_ok (MemorySink (NewMemory 10))" "in_int64 5"
    by (simp_all add: New_service_def NewMemory_wf in_int64_def)
  have sent: "(if ''cancel'' = ''cancel'' then sg_Cancel demo_signaler 7 (svc_db ?svc)
      else if ''cancel'' = ''terminate'' then sg_Terminate demo_signaler 7 (svc_db ?svc)
      else (svc_db ?svc, False, None)) = ((), True, None)" by (simp add: demo_signaler_def)
  from Do_audited [OF pre sent refl refl, of "\<lambda>pid. (''q'', True)" demo_sql "\<lambda>a b c. c" "''ann''"]
  show ?thesis by force
qed

section \<open>Start-up\<close>

text \<open>What \<open>run\<close> finds outside: files and environment, the driver, the database file, the
  embedded interface.\<close>

record 'd world =
  wd_readFile :: "string \<Rightarrow> string + string"
  wd_unmarshal :: "string \<Rightarrow> config \<Rightarrow> string + config"
  wd_getenv :: env
  wd_parseDSN :: "string \<Rightarrow> string option"
  wd_pool :: "string + pg_pool"
  wd_sql :: sql_env
  wd_sqlOpen :: "string \<Rightarrow> string option"
  wd_file :: "snap_row list \<times> int \<times> audit_row list \<times> int"
  wd_ui :: embedded
  wd_sha256 :: "string \<Rightarrow> string"
  wd_db :: 'd
  wd_version :: string

datatype start_error = LoadFailed config_error | ConnectFailed connect_error | OpenFailed open_error
  | UIFailed fs_error | IdentityFailed build_error

record 'd started =
  sd_cfg :: config
  sd_client :: client
  sd_notices :: "notice list"
  sd_identity :: identity
  sd_ui :: fs
  sd_app :: "(sqlite, 'd, sink) app"

definition open_history :: "'d world \<Rightarrow> config \<Rightarrow> open_error + sqlite option" where
  "open_history w cfg =
     (if pe_Enabled (cfg_Persist cfg)
      then (case Open (wd_sql w) (wd_sqlOpen w) (pe_Path (cfg_Persist cfg)) (pe_Retention (cfg_Persist cfg)) (Some []) (wd_file w) of
              Inl err \<Rightarrow> Inl err
            | Inr h \<Rightarrow> Inr (Some h))
      else Inr None)"

definition start_sink :: "sqlite option \<Rightarrow> sink" where
  "start_sink hist = (case hist of None \<Rightarrow> MemorySink (NewMemory 1000) | Some h \<Rightarrow> SqliteSink h)"

definition run_start :: "'d world \<Rightarrow> string \<Rightarrow> start_error + 'd started" where
  "run_start w configPath =
     (case Load (wd_readFile w) (wd_unmarshal w) (wd_getenv w) configPath of
        Inl err \<Rightarrow> Inl (LoadFailed err)
      | Inr cfg \<Rightarrow>
     (case Connect (wd_parseDSN w) (wd_pool w) (cfg_ClusterDSN cfg) (po_StatementTimeout (cfg_Poll cfg)) of
        Inl err \<Rightarrow> Inl (ConnectFailed err)
      | Inr client \<Rightarrow>
     (case open_history w cfg of
        Inl err \<Rightarrow> Inl (OpenFailed err)
      | Inr hist \<Rightarrow>
          let app = \<lparr>app_poller = start_poller cfg hist (Some []),
                     app_svc = SetMetrics (New_metrics (wd_version w)) (New_service (wd_db w) (Some (start_sink hist)))\<rparr>
          in (case DistFS (wd_ui w) of
                Inl err \<Rightarrow> Inl (UIFailed err)
              | Inr ui \<Rightarrow>
             (case buildIdentity (wd_sha256 w) (cfg_Auth cfg) of
                Inl err \<Rightarrow> Inl (IdentityFailed err)
              | Inr identity \<Rightarrow>
                  Inr \<lparr>sd_cfg = cfg, sd_client = client, sd_notices = (case wd_pool w of Inl _ \<Rightarrow> [] | Inr pool \<Rightarrow> preflight pool),
                       sd_identity = identity, sd_ui = ui, sd_app = app\<rparr>)))))"

section \<open>Identities of a valid configuration\<close>

lemma token_entries_ok:
  "list_all (\<lambda>p. valid_role (pc_Role p)) ps \<Longrightarrow>
   \<exists>es. token_entries ps out = Inr (out @ es) \<and> (\<forall>e \<in> set es. valid_role (tp_Role e))"
proof (induction ps arbitrary: out)
  case (Cons p ps)
  let ?e = "\<lparr>tp_Name = pc_Name p, tp_Role = pc_Role p, tp_Token = pc_Token p\<rparr>"
  from Cons.IH [of "out @ [?e]"] Cons.prems obtain es where
    "token_entries ps (out @ [?e]) = Inr (out @ [?e] @ es)" "\<forall>e \<in> set es. valid_role (tp_Role e)" by auto
  with Cons.prems show ?case by (intro exI [of _ "?e # es"]) (simp add: ParseRole_iff)
qed simp

lemma index_tokens_role:
  "fmlookup (index_tokens sha256 es m) h = Some p \<Longrightarrow> (\<exists>e \<in> set es. pr_Role p = tp_Role e) \<or> fmlookup m h = Some p"
proof (induction es arbitrary: m)
  case (Cons e es)
  show ?case
  proof (cases "tp_Token e = ''''")
    case True
    with Cons show ?thesis by auto
  next
    case False
    with Cons.prems Cons.IH [of "fmupd (hashToken sha256 (tp_Token e)) \<lparr>pr_Name = tp_Name e, pr_Role = tp_Role e\<rparr> m"]
    show ?thesis by (auto split: if_splits)
  qed
qed simp

lemma role_map_ok:
  "list_all (\<lambda>x. valid_role (rm_Role x)) xs \<Longrightarrow> (\<forall>g r. fmlookup m g = Some r \<longrightarrow> valid_role r) \<Longrightarrow>
   \<exists>m'. role_map xs m = Inr m' \<and> (\<forall>g r. fmlookup m' g = Some r \<longrightarrow> valid_role r) \<and>
     (xs \<noteq> [] \<or> fmdom m \<noteq> {||} \<longrightarrow> fmdom m' \<noteq> {||})"
proof (induction xs arbitrary: m)
  case (Cons x xs)
  let ?m = "fmupd (rm_Group x) (rm_Role x) m"
  have v: "valid_role (rm_Role x)" "list_all (\<lambda>x. valid_role (rm_Role x)) xs" using Cons.prems(1) by simp_all
  have "\<forall>g r. fmlookup ?m g = Some r \<longrightarrow> valid_role r" using Cons.prems(2) v(1) by auto
  from Cons.IH [OF v(2) this] v(1) show ?case by (auto simp: ParseRole_iff)
qed auto

lemma group_roles_values: "r \<in> set (group_roles m gs) \<Longrightarrow> \<exists>g. fmlookup m g = Some r"
  by (induction gs) (auto split: if_splits option.splits)

lemma Proxy_role_valid:
  assumes "Proxy_Authenticate cfg r = Some p" "\<forall>g rl. fmlookup (px_GroupToRole cfg) g = Some rl \<longrightarrow> valid_role rl"
    and "px_DefaultRole cfg \<noteq> '''' \<longrightarrow> valid_role (px_DefaultRole cfg)"
  shows "valid_role (pr_Role p)"
proof -
  obtain b ok where h: "highestRole cfg (Header_Get r (px_GroupsHeader cfg)) = (b, ok)" by fastforce
  note f = highest_loop_found [OF h [unfolded highestRole_def]]
  from assms(1) h have "if ok then pr_Role p = b else pr_Role p = px_DefaultRole cfg \<and> pr_Role p \<noteq> ''''"
    by (auto simp: Proxy_Authenticate_def Let_def split: if_splits)
  moreover have "valid_role b" if ok
  proof -
    from f that have "b \<in> set (group_roles (px_GroupToRole cfg) (Split (Header_Get r (px_GroupsHeader cfg)) (px_GroupsSep cfg)))"
      by simp
    from group_roles_values [OF this] show ?thesis using assms(2) by blast
  qed
  ultimately show ?thesis using assms(3) by (auto split: if_splits)
qed

lemma buildProxyIdentity_ok:
  assumes "proxy_auth_ok p" "pa_UserHeader p \<noteq> ''''" "pa_SecretHeader p \<noteq> ''''"
  shows "\<exists>cfg. buildProxyIdentity p = Inr cfg \<and> (\<forall>g rl. fmlookup (px_GroupToRole cfg) g = Some rl \<longrightarrow> valid_role rl) \<and>
    (px_DefaultRole cfg \<noteq> '''' \<longrightarrow> valid_role (px_DefaultRole cfg)) \<and> px_TrustMode cfg = pa_TrustMode p \<and>
    px_Secret cfg = pa_Secret p \<and> px_SecretHeader cfg = pa_SecretHeader p"
proof -
  from assms(1) have "list_all (\<lambda>x. valid_role (rm_Role x)) (pa_RoleMappings p)" by (auto simp: proxy_auth_ok_def list_all_iff)
  from role_map_ok [OF this, of fmempty] obtain m where m: "role_map (pa_RoleMappings p) fmempty = Inr m"
    "\<forall>g r. fmlookup m g = Some r \<longrightarrow> valid_role r" "pa_RoleMappings p \<noteq> [] \<longrightarrow> fmdom m \<noteq> {||}" by auto
  have d: "default_role (pa_DefaultRole p) = Inr (pa_DefaultRole p)"
    using assms(1) by (auto simp: default_role_def proxy_auth_ok_def ParseRole_iff)
  have ne: "map_len m = 0 \<longrightarrow> pa_DefaultRole p \<noteq> ''''"
    using m(3) assms(1) by (auto simp: proxy_auth_ok_def map_len_def)
  show ?thesis using assms m(1,2) d ne
    by (auto simp: buildProxyIdentity_def NewProxyIdentity_def proxy_auth_ok_def)
qed

lemma token_identity_valid:
  assumes "\<forall>e \<in> set es. valid_role (tp_Role e)" "Token_Authenticate sha256 (NewTokenIdentity sha256 es) r = Some p"
  shows "valid_role (pr_Role p)"
proof -
  have "fmlookup (index_tokens sha256 es fmempty) (hashToken sha256 (tokenFromRequest r)) = Some p"
    using assms(2) by (simp add: Token_Authenticate_def NewTokenIdentity_def Let_def split: if_splits)
  from index_tokens_role [OF this] assms(1) show ?thesis by auto
qed

section \<open>Masked all the way\<close>

definition masked_of :: "poll_input list \<Rightarrow> int \<Rightarrow> string \<Rightarrow> bool" where
  "masked_of raws pid q \<longleftrightarrow>
     (\<exists>i \<in> set raws. \<exists>ss ls s0. in_polled i = Inr (ss, ls) \<and> fmlookup ss pid = Some s0 \<and> q = Mask (sess_Query s0))"

definition masked_snapshot :: "poll_input list \<Rightarrow> snapshot \<Rightarrow> bool" where
  "masked_snapshot raws snap \<longleftrightarrow>
     (\<forall>pid s. fmlookup (snap_Sessions snap) pid = Some s \<longrightarrow> masked_of raws pid (sess_Query s))"

lemma built_masked:
  assumes "map_order ord" "map_order (pe_ordS env)" "map_order (pe_ordB env)" "i \<in> set raws"
    and "snap \<in> set (built env cluster (i\<lparr>in_polled := Source_Snapshot ord (in_polled i)\<rparr>))"
  shows "masked_snapshot raws snap"
proof (cases "in_polled i")
  case (Inl err)
  then show ?thesis using assms(5) by (simp add: built_def Source_Snapshot_def)
next
  case (Inr res)
  obtain ss ls where res: "res = (ss, ls)" by fastforce
  have "Source_Snapshot ord (in_polled i) = Inr (fmmap mask_session ss, ls)"
    using assms(1) Inr res by (simp add: Source_Snapshot_def mask_sessions_fmmap)
  then have snap: "snap = Build (pe_ordS env) (pe_ordB env) cluster (in_build i) (fmmap mask_session ss) ls"
    using assms(5) by (simp add: built_def)
  show ?thesis unfolding masked_snapshot_def
  proof (intro allI impI)
    fix pid s assume "fmlookup (snap_Sessions snap) pid = Some s"
    then obtain s1 where s1: "fmlookup (fmmap mask_session ss) pid = Some s1" "sess_Query s = sess_Query s1"
      unfolding snap Build_Sessions [OF assms(2,3)] by (cases "fmlookup (fmmap mask_session ss) pid") (auto simp del: fmlookup_map)
    from s1(1) obtain s0 where "fmlookup ss pid = Some s0" "s1 = mask_session s0" by auto
    with s1(2) assms(4) Inr res show "masked_of raws pid (sess_Query s)" unfolding masked_of_def by fastforce
  qed
qed

lemma lookup_masked:
  assumes "store_wf st" "\<forall>snap \<in> set (ring_list st). masked_snapshot raws snap"
  shows "fst (lookup_query st pid) = '''' \<or> masked_of raws pid (fst (lookup_query st pid))"
proof (cases "ring_list st = []")
  case True
  then show ?thesis using Latest_ring [of st] assms(1) by (simp add: lookup_query_def store_wf_def)
next
  case False
  then have "masked_snapshot raws (last (ring_list st))" using assms(2) by simp
  with False show ?thesis using Latest_ring [of st] assms(1)
    by (auto simp: lookup_query_def store_wf_def masked_snapshot_def split: option.splits)
qed

lemma start_poller_facts [simp]:
  "pl_interval (start_poller cfg hist log) = po_Interval (cfg_Poll cfg)" "poller_wf (start_poller cfg hist log)"
  "ring_list (pl_store (start_poller cfg hist log)) = []" "pl_cluster (start_poller cfg hist log) = cfg_ClusterName cfg"
  by (simp_all add: start_poller_def start_store_def SetMetrics_poller_def New_poller_def poller_wf_def New_wf
      New_ring_list Let_def split: option.splits)

text \<open>Every principal that a loaded configuration authenticates has one of the three roles.\<close>

lemma loaded_config_identifies:
  assumes "Load readFile unmarshal getenv path = Inr c"
  shows "\<exists>idn. buildIdentity sha256 (cfg_Auth c) = Inr idn \<and>
    (\<forall>r p. idn r = Some p \<longrightarrow> pr_Role p \<in> {RoleViewer, RoleOperator, RoleAdmin})"
proof -
  let ?au = "cfg_Auth c"
  from assms have v: "validate c = None" and c: "\<exists>c0. c = reapply_defaults (auth_defaults (apply_env getenv c0))"
    by (auto simp: Load_Inr)
  show ?thesis
  proof (cases "au_Mode ?au = ''proxy''")
    case True
    then have "proxy_auth_ok (au_Proxy ?au)" using v by (simp add: validate_None validateProxyAuth_None)
    moreover from c True have "pa_UserHeader (au_Proxy ?au) \<noteq> '''' \<and> pa_SecretHeader (au_Proxy ?au) \<noteq> ''''"
      using auth_env_secrets [of getenv] by (auto simp: Let_def)
    ultimately obtain px where px: "buildProxyIdentity (au_Proxy ?au) = Inr px"
      "\<forall>g rl. fmlookup (px_GroupToRole px) g = Some rl \<longrightarrow> valid_role rl"
      "px_DefaultRole px \<noteq> '''' \<longrightarrow> valid_role (px_DefaultRole px)"
      using buildProxyIdentity_ok [of "au_Proxy ?au"] by blast
    from px(1) True Proxy_role_valid [OF _ px(2,3)] show ?thesis
      unfolding buildIdentity_def Let_def valid_role_iff [symmetric] by simp
  next
    case False
    then have "list_all (\<lambda>p. valid_role (pc_Role p)) (au_Principals ?au)"
      using v by (auto simp: validate_None validateTokenAuth_None token_auth_ok_def list_all_iff split: if_splits)
    let ?first = "if au_Token ?au \<noteq> '''' then [\<lparr>tp_Name = ''default'', tp_Role = RoleAdmin, tp_Token = au_Token ?au\<rparr>] else []"
    from token_entries_ok [OF \<open>list_all _ _\<close>, of ?first] obtain es where
      es: "token_entries (au_Principals ?au) ?first = Inr (?first @ es)" "\<forall>e \<in> set es. valid_role (tp_Role e)" by blast
    then have "\<forall>e \<in> set (?first @ es). valid_role (tp_Role e)" by (auto simp: valid_role_def)
    from token_identity_valid [OF this, of sha256] es(1) False show ?thesis
      unfolding buildIdentity_def Let_def valid_role_iff [symmetric] by simp
  qed
qed

end
