(* ===== verification/Channels.thy ===== *)
theory Channels
  imports System
begin

text \<open>
  The snapshots waiting in the channels of the subscribers: what a publication, a poll, a
  subscription, a receive and a whole stream session add to them and take from them.
\<close>

section \<open>What the channels hold\<close>

definition chan_contents :: "(chan_ref, chan) fmap \<Rightarrow> snapshot set" where
  "chan_contents h = {x. \<exists>r c. fmlookup h r = Some c \<and> x \<in> set (ch_buf c)}"

definition buffered :: "'p store \<Rightarrow> snapshot set" where
  "buffered s = chan_contents (st_chans s)"

lemma chan_contents_upd: "chan_contents (fmupd r c h) \<subseteq> chan_contents h \<union> set (ch_buf c)"
  by (auto simp: chan_contents_def split: if_splits)

lemma chan_contents_buf: "fmlookup h r = Some c \<Longrightarrow> set (ch_buf c) \<subseteq> chan_contents h"
  by (auto simp: chan_contents_def)

lemma buffered_log [simp]: "buffered (log_warn msg s) = buffered s"
  by (simp add: buffered_def log_warn_def)

lemma chan_recv_buffered:
  assumes "chan_recv ch s = Some (s', x)"
  shows "x \<in> buffered s" "buffered s' \<subseteq> buffered s"
proof -
  from assms obtain c xs where c: "fmlookup (st_chans s) ch = Some c" "ch_buf c = x # xs"
    "s' = s\<lparr>st_chans := fmupd ch (c\<lparr>ch_buf := xs\<rparr>) (st_chans s)\<rparr>"
    by (auto simp: chan_recv_def split: option.splits list.splits)
  with chan_contents_buf [OF c(1)] chan_contents_upd [of ch "c\<lparr>ch_buf := xs\<rparr>" "st_chans s"]
  show "x \<in> buffered s" "buffered s' \<subseteq> buffered s" by (auto simp: buffered_def)
qed

lemma Subscribe_buffered: "Subscribe s = (s', sid, ch) \<Longrightarrow> buffered s' \<subseteq> buffered s"
  using chan_contents_upd [of "st_nextID s" "\<lparr>ch_buf = [], ch_closed = False\<rparr>" "st_chans s"]
  by (auto simp: Subscribe_def Let_def buffered_def)

lemma unsubscribe_buffered:
  assumes "store_wf s"
  shows "buffered (unsubscribe sid s) \<subseteq> buffered s"
proof (cases "fmlookup (st_subs s) sid")
  case (Some r)
  with assms obtain c where c: "fmlookup (st_chans s) r = Some c" unfolding store_wf_def hub_wf_def by blast
  with Some show ?thesis
    using chan_contents_upd [of r "c\<lparr>ch_closed := True\<rparr>" "st_chans s"] chan_contents_buf [OF c]
    by (auto simp: unsubscribe_def buffered_def)
qed (simp add: unsubscribe_def)

lemma put_sends_contents: "put_sends rs snap h = Some h' \<Longrightarrow> chan_contents h' \<subseteq> insert snap (chan_contents h)"
proof (induction rs arbitrary: h)
  case (Cons r rs)
  then obtain h1 where h1: "try_send r snap h = Some h1" "put_sends rs snap h1 = Some h'" by (auto simp: bind_eq_Some_conv)
  from h1(1) have "chan_contents h1 \<subseteq> insert snap (chan_contents h)"
    using chan_contents_upd [of r _ h] chan_contents_buf [of h r]
    by (fastforce simp: try_send_def bind_eq_Some_conv split: if_splits)
  with Cons.IH [OF h1(2)] show ?case by blast
qed auto

lemma Put_buffered:
  assumes "Put ops ord snap s = Some s'"
  shows "buffered s' \<subseteq> insert snap (buffered s)"
proof -
  from assms obtain s1 h where s1: "put_ring snap s = Some s1" "put_sends (put_capture ord s1) snap (st_chans (put_persist ops snap s1)) = Some h"
    "s' = (put_persist ops snap s1)\<lparr>st_chans := h\<rparr>"
    unfolding Put_def Let_def bind_eq_Some_conv by blast
  have "st_chans (put_persist ops snap s1) = st_chans s1"
    by (auto simp: put_persist_def log_warn_def split: option.splits prod.splits)
  moreover have "st_chans s1 = st_chans s" using put_ring_hub [OF s1(1)] by blast
  ultimately show ?thesis using put_sends_contents [OF s1(2)] s1(3) by (simp add: buffered_def)
qed

lemma one_poll_buffered:
  assumes "Run_loop env [i] backoff p = Some (p', ws, b)"
  shows "buffered (pl_store p') \<subseteq> buffered (pl_store p) \<union> set (built env (pl_cluster p) i)"
proof (cases "in_polled i")
  case (Inl err)
  with assms show ?thesis
    by (auto simp: pollOnce_def observe_poll_def log_poll_def setError_def Let_def split: if_splits)
next
  case (Inr res)
  with assms show ?thesis
    by (cases res) (auto simp: pollOnce_def built_def observe_poll_def setOK_def Let_def bind_eq_Some_conv
        dest!: Put_buffered split: if_splits)
qed

text \<open>A successful poll reaches every open stream: its channel was empty and now holds the new
  snapshot, or it still holds the one it has not taken yet.\<close>

lemma poll_reaches_streams:
  assumes "poller_wf p" "map_order (pe_ordC env)" "Run_loop env [i] backoff p = Some (p', ws, b)"
    and "built env (pl_cluster p) i = [snap]" "fmlookup (st_subs (pl_store p)) ch = Some ch"
    and "fmlookup (st_chans (pl_store p)) ch = Some c"
  shows "\<exists>st. chan_recv ch (pl_store p') = Some (st, case ch_buf c of [] \<Rightarrow> snap | x # _ \<Rightarrow> x)"
proof -
  obtain res where res: "in_polled i = Inr res" "snap = Build (pe_ordS env) (pe_ordB env) (pl_cluster p) (in_build i) (fst res) (snd res)"
    using assms(4) by (auto simp: built_def split: sum.splits prod.splits)
  from Put_ok [OF _ assms(2), of "pl_store p" "pe_ops env" snap] assms(1) obtain st where
    st: "Put (pe_ops env) (pe_ordC env) snap (pl_store p) = Some st" "\<forall>q. fmlookup (st_chans st) q =
      (if q \<in> map_keys (st_subs (pl_store p)) then map_option (deliver snap) (fmlookup (st_chans (pl_store p)) q)
       else fmlookup (st_chans (pl_store p)) q)"
    unfolding poller_wf_def by blast
  then have "pl_store p' = st" using assms(3) res
    by (cases res) (auto simp: pollOnce_def observe_poll_def setOK_def Let_def split: if_splits)
  moreover have "fmlookup (st_chans st) ch = Some (deliver snap c)" using st(2) assms(5,6) by (auto simp: fmlookup_dom_iff)
  ultimately show ?thesis by (cases "ch_buf c") (simp_all add: chan_recv_def deliver_def)
qed

lemma stream_loop_buffered:
  "published evs = [] \<Longrightarrow> store_wf s \<Longrightarrow> stream_loop ops ord ch evs s = Some (s', sent, stopped) \<Longrightarrow>
   store_wf s' \<and> buffered s' \<subseteq> buffered s \<and> set sent \<subseteq> buffered s"
proof (induction evs arbitrary: s sent)
  case (Cons e es)
  show ?case
  proof (cases e)
    case (Frame ok)
    show ?thesis
    proof (cases "chan_recv ch s")
      case None
      with Frame Cons show ?thesis by (auto split: option.splits if_splits)
    next
      case (Some x)
      obtain s1 snap where x: "x = (s1, snap)" by (cases x)
      note recv = chan_recv_buffered [OF Some [unfolded x]] chan_recv_wf [OF Cons.prems(2) Some [unfolded x]]
      from Frame Cons.prems Some x show ?thesis
        using Cons.IH [OF _ recv(3)] recv by (cases ok) (fastforce)+
    qed
  qed (use Cons in \<open>auto split: if_splits\<close>)
qed simp

lemma handleStream_buffered:
  assumes "handleStream ops ord acc [] first_ok evs r s = Some (s', frames, stopped)" "published evs = []" "store_wf s"
  shows "buffered s' \<subseteq> buffered s \<and> set frames \<subseteq> buffered s \<union> set (ring_list s)"
proof -
  obtain s0 sid ch where sub: "Subscribe s = (s0, sid, ch)" by (metis prod_cases3)
  have wf: "store_wf s0" using Subscribe_wf [OF assms(3)] sub by simp
  have b0: "buffered s0 \<subseteq> buffered s" "ring_list s0 = ring_list s"
    using Subscribe_buffered [OF sub] Subscribe_frame [OF sub] by auto
  show ?thesis
  proof (cases "acc \<and> CheckOrigin r")
    case False
    with assms(1) show ?thesis by (auto simp: handleStream_def split: if_splits)
  next
    case True
    from wf have "ring_wf s0" by (simp add: store_wf_def)
    obtain snap ok where l: "Latest s0 = Some (snap, ok)" "ok \<longrightarrow> snap \<in> set (ring_list s)"
      using Latest_ring [OF \<open>ring_wf s0\<close>] b0(2) by (cases "ring_list s0 = []") auto
    show ?thesis
    proof (cases "ok \<and> \<not> first_ok")
      case stop: True
      with assms(1) True l(1) sub have "s' = unsubscribe sid s0" "frames = []" by (auto simp: handleStream_def)
      with unsubscribe_buffered [OF wf, of sid] b0(1) show ?thesis by auto
    next
      case False
      with assms(1) True l(1) sub obtain s2 sent where L: "stream_loop ops ord ch evs s0 = Some (s2, sent, stopped)"
        "s' = (if stopped then unsubscribe sid s2 else s2)" "frames = (if ok then [snap] else []) @ sent"
        by (auto simp: handleStream_def)
      from stream_loop_buffered [OF assms(2) wf L(1)] have "store_wf s2" "buffered s2 \<subseteq> buffered s0" "set sent \<subseteq> buffered s0" by auto
      with unsubscribe_buffered [of s2 sid] b0(1) l(2) L(2,3) show ?thesis by (auto split: if_splits)
    qed
  qed
qed

section \<open>What requests do to the channels\<close>

lemma readers_buffered:
  "At ops t s = Some (s', x) \<Longrightarrow> buffered s' = buffered s"
  "History ops from to s = Some (s', y) \<Longrightarrow> buffered s' = buffered s"
  by (auto simp: At_def History_def split: option.splits sum.splits)

text \<open>The snapshots a request is shown as frames of a stream.\<close>

fun frames_of :: "endpoint \<Rightarrow> json response \<Rightarrow> snapshot list" where
  "frames_of Stream resp =
     (case resp_Body resp of JSON (JFrames fs) \<Rightarrow> (if resp_Status resp = 101 then fs else []) | _ \<Rightarrow> [])"
| "frames_of _ resp = []"

lemma store_handlers_buffered:
  "handleSnapshot dp r s = Some (s', resp) \<Longrightarrow> buffered (pl_store (app_poller s')) = buffered (pl_store (app_poller s))"
  "handleHistory dp r s = Some (s', resp) \<Longrightarrow> buffered (pl_store (app_poller s')) = buffered (pl_store (app_poller s))"
  using readers_buffered(1) [of "dp_ops dp" _ "pl_store (app_poller s)"] readers_buffered(2) [of "dp_ops dp" _ _ "pl_store (app_poller s)"]
  by (auto simp: handleSnapshot_def handleHistory_def set_store_def Let_def split: option.splits if_splits)

lemma handleStreamPage_buffered:
  assumes "handleStreamPage dp r s = Some (s', resp)" "dp_wsEarly dp = []" "published (dp_wsEvents dp) = []"
    and "\<And>x. dp_wsRejected dp = Some x \<Longrightarrow> resp_Status x \<noteq> 101" "store_wf (pl_store (app_poller s))"
  shows "buffered (pl_store (app_poller s')) \<subseteq> buffered (pl_store (app_poller s)) \<and>
    set (frames_of Stream resp) \<subseteq> buffered (pl_store (app_poller s)) \<union> set (ring_list (pl_store (app_poller s)))"
proof -
  from assms(1,2) obtain st frames stopped where h:
    "handleStream (dp_ops dp) (dp_ordC dp) (dp_wsRejected dp = None) [] (dp_wsFirst dp) (dp_wsEvents dp) r (pl_store (app_poller s)) =
       Some (st, frames, stopped)"
    "s' = set_store st s" "resp = (case dp_wsRejected dp of Some x \<Rightarrow> x
       | None \<Rightarrow> \<lparr>resp_Status = 101, resp_Header = [], resp_Body = JSON (JFrames frames)\<rparr>)"
    by (auto simp: handleStreamPage_def split: option.splits)
  have "set (frames_of Stream resp) \<subseteq> set frames"
    using assms(4) by (cases "dp_wsRejected dp") (auto simp: h(3) split: body.splits json.splits)
  with handleStream_buffered [OF h(1) assms(3,5)] h(2) show ?thesis by (auto simp: set_store_def)
qed

end
