(* ===== verification/Running.thy ===== *)
theory Running
  imports Channels
begin

text \<open>
  The program as it runs: from the state \<open>run\<close> sets up, polls, requests, pushes to open streams
  and the ends of streams follow each other in any order. Each of them is one step here;
  \<open>Concurrent\<close> takes the poll apart, whose \<open>Put\<close> sends outside the lock. \<open>running\<close> is the step relation; its rule induction carries the
  invariants of the whole program.
\<close>

section \<open>Steps\<close>

text \<open>What a request depends on belongs to the program that was started; faults of the database,
  the clock and the peer are free, and an upgrade the library rejects is not answered with
  status 101. Snapshots published while a stream is open are polls of their own here, and a
  stream that is still open when its request step ends goes on as steps of its own.\<close>

definition wired :: "identity \<Rightarrow> (sqlite, 'd, sink) deps \<Rightarrow> bool" where
  "wired idn dp \<longleftrightarrow>
     (\<exists>env. dp_ops dp = sqlite_ops env \<and> dp_rec dp = sink_record env \<and> dp_recent dp = sink_recent env) \<and>
     dp_identity dp = idn \<and> map_order (dp_ordC dp) \<and>
     (\<forall>resp. dp_wsRejected dp = Some resp \<longrightarrow> resp_Status resp \<noteq> 101) \<and>
     dp_wsEarly dp = [] \<and> published (dp_wsEvents dp) = []"

text \<open>A poll, a request with its response, a frame pushed to a stream that is open, the end of a
  stream.\<close>

datatype event = Polled poll_input | Served endpoint request "json response" | Pushed chan_ref snapshot | HungUp int

text \<open>The raw polls of a history, and the snapshots an event shows to a client of the stream.\<close>

definition polled :: "event list \<Rightarrow> poll_input list" where
  "polled evs = List.map_filter (\<lambda>e. case e of Polled raw \<Rightarrow> Some raw | _ \<Rightarrow> None) evs"

lemma polled_simps [simp]:
  "polled [] = []" "polled (evs @ [Polled raw]) = polled evs @ [raw]" "polled (evs @ [Served ep r resp]) = polled evs"
  "polled (evs @ [Pushed ch snap]) = polled evs" "polled (evs @ [HungUp sid]) = polled evs"
  "polled (Polled raw # evs) = raw # polled evs" "polled (Served ep r resp # evs) = polled evs"
  by (simp_all add: polled_def List.map_filter_def)

fun shown :: "event \<Rightarrow> snapshot list" where
  "shown (Served ep r resp) = frames_of ep resp"
| "shown (Pushed ch snap) = [snap]"
| "shown _ = []"

inductive running ::
  "sql_env \<Rightarrow> config \<Rightarrow> identity \<Rightarrow> (sqlite, 'd, sink) app \<Rightarrow> event list \<Rightarrow> (sqlite, 'd, sink) app \<Rightarrow> bool"
  for base cfg idn s0 where
  begins: "running base cfg idn s0 [] s0"
| polls: "running base cfg idn s0 evs s \<Longrightarrow> pe_ops env = sqlite_ops sql \<Longrightarrow> encode sql = encode base \<Longrightarrow>
    map_order (pe_ordS env) \<Longrightarrow> map_order (pe_ordB env) \<Longrightarrow> map_order (pe_ordC env) \<Longrightarrow> map_order ord \<Longrightarrow>
    Run_loop env [raw\<lparr>in_polled := poll_source cfg ord (in_polled raw)\<rparr>] backoff (app_poller s) = Some (p, ws, b) \<Longrightarrow>
    running base cfg idn s0 (evs @ [Polled raw]) (s\<lparr>app_poller := p\<rparr>)"
| serves: "running base cfg idn s0 evs s \<Longrightarrow> wired idn dp \<Longrightarrow> serve dp ep r s = Some (s', resp) \<Longrightarrow>
    running base cfg idn s0 (evs @ [Served ep r resp]) s'"
| pushes: "running base cfg idn s0 evs s \<Longrightarrow> chan_recv ch (pl_store (app_poller s)) = Some (st, snap) \<Longrightarrow>
    running base cfg idn s0 (evs @ [Pushed ch snap]) (set_store st s)"
| hangs_up: "running base cfg idn s0 evs s \<Longrightarrow>
    running base cfg idn s0 (evs @ [HungUp sid]) (set_store (unsubscribe sid (pl_store (app_poller s))) s)"

section \<open>One poll\<close>

lemma one_poll:
  assumes "poller_wf p" "map_order (pe_ordC env)"
  shows "\<exists>p' ws b. Run_loop env [i] backoff p = Some (p', ws, b) \<and> poller_wf p' \<and> pl_cluster p' = pl_cluster p \<and>
    ring_list (pl_store p') = last_n (ring_cap (pl_store p)) (ring_list (pl_store p) @ built env (pl_cluster p) i)"
proof (cases "in_polled i")
  case (Inl err)
  have "ring_list (pl_store p) = last_n (ring_cap (pl_store p)) (ring_list (pl_store p))"
    using assms(1) by (simp add: poller_wf_def store_wf_def ring_list_cap)
  then show ?thesis using assms(1) Inl
    by (simp add: pollOnce_def built_def observe_poll_def log_poll_def setError_def poller_wf_def Let_def) blast
next
  case (Inr res)
  obtain ss ls where res: "res = (ss, ls)" by (cases res)
  let ?snap = "Build (pe_ordS env) (pe_ordB env) (pl_cluster p) (in_build i) ss ls"
  obtain st where "Put (pe_ops env) (pe_ordC env) ?snap (pl_store p) = Some st" "store_wf st"
    "ring_list st = last_n (ring_cap (pl_store p)) (ring_list (pl_store p) @ [?snap])"
    using Put_ok [OF _ assms(2), of "pl_store p" "pe_ops env" ?snap] assms(1) unfolding poller_wf_def by blast
  then show ?thesis using Inr res
    by (simp add: pollOnce_def built_def observe_poll_def setOK_def poller_wf_def Let_def) blast
qed

lemma one_poll_result:
  assumes "poller_wf p" "map_order (pe_ordC env)" "Run_loop env [i] backoff p = Some (p', ws, b)"
  shows "poller_wf p'" "ring_list (pl_store p') = last_n (ring_cap (pl_store p)) (ring_list (pl_store p) @ built env (pl_cluster p) i)"
  using one_poll [OF assms(1,2), of i backoff] assms(3) by auto

section \<open>Requests leave the ring and the history alone\<close>

definition kept :: "sqlite store \<Rightarrow> snapshot list \<times> sqlite option" where
  "kept s = (ring_list s, st_persist s)"

lemma kept_log [simp]: "kept (log_warn msg s) = kept s"
  by (simp add: kept_def ring_list_def log_warn_def)

lemma At_kept: "At ops t s = Some (s', x) \<Longrightarrow> kept s' = kept s"
  by (auto simp: At_def split: option.splits sum.splits)

lemma History_kept: "History ops from to s = Some (s', x) \<Longrightarrow> kept s' = kept s"
  by (auto simp: History_def split: option.splits sum.splits)

lemma chan_recv_kept: "chan_recv ch s = Some (s', x) \<Longrightarrow> kept s' = kept s"
  by (auto simp: chan_recv_def kept_def ring_list_def split: option.splits list.splits)

lemma stream_loop_kept:
  "published evs = [] \<Longrightarrow> stream_loop ops ord ch evs s = Some (s', sent, stopped) \<Longrightarrow> kept s' = kept s"
proof (induction evs arbitrary: s sent)
  case (Cons e es)
  show ?case
  proof (cases e)
    case (Frame ok)
    with Cons show ?thesis
      by (cases "chan_recv ch s") (auto split: option.splits if_splits dest!: chan_recv_kept)
  qed (use Cons in \<open>auto split: if_splits\<close>)
qed simp

lemma unsubscribe_kept [simp]: "kept (unsubscribe sid s) = kept s"
  by (simp add: unsubscribe_def kept_def ring_list_def split: option.splits)

lemma handleStream_kept:
  assumes "handleStream ops ord acc [] first_ok evs r s = Some (s', res)" "published evs = []"
  shows "kept s' = kept s"
proof -
  obtain s0 sid ch where sub: "Subscribe s = (s0, sid, ch)" by (metis prod_cases3)
  have "kept s0 = kept s" using sub by (auto simp: Subscribe_def Let_def kept_def ring_list_def)
  with assms show ?thesis
    by (auto simp: handleStream_def sub split: if_splits option.splits dest!: stream_loop_kept [OF assms(2)])
qed

lemma store_handlers_kept:
  "handleSnapshot dp r s = Some (s', resp) \<Longrightarrow> kept (pl_store (app_poller s')) = kept (pl_store (app_poller s))"
  "handleHistory dp r s = Some (s', resp) \<Longrightarrow> kept (pl_store (app_poller s')) = kept (pl_store (app_poller s))"
  "handleStreamPage dp r s = Some (s', resp) \<Longrightarrow> dp_wsEarly dp = [] \<Longrightarrow> published (dp_wsEvents dp) = [] \<Longrightarrow>
    kept (pl_store (app_poller s')) = kept (pl_store (app_poller s))"
  "doSignal dp a r s = Some (s', resp) \<Longrightarrow> app_poller s' = app_poller s"
proof -
  show "kept (pl_store (app_poller s')) = kept (pl_store (app_poller s))" if "handleSnapshot dp r s = Some (s', resp)"
    using that At_kept [of "dp_ops dp" _ "pl_store (app_poller s)"]
    by (auto simp: handleSnapshot_def set_store_def Let_def split: option.splits if_splits)
  show "kept (pl_store (app_poller s')) = kept (pl_store (app_poller s))" if "handleHistory dp r s = Some (s', resp)"
    using that History_kept [of "dp_ops dp" _ _ "pl_store (app_poller s)"]
    by (auto simp: handleHistory_def set_store_def split: option.splits)
  show "kept (pl_store (app_poller s')) = kept (pl_store (app_poller s))"
    if "handleStreamPage dp r s = Some (s', resp)" "dp_wsEarly dp = []" "published (dp_wsEvents dp) = []"
    using that handleStream_kept [OF _ that(3), of "dp_ops dp" "dp_ordC dp" _ "dp_wsFirst dp" r "pl_store (app_poller s)"]
    by (auto simp: handleStreamPage_def set_store_def split: option.splits)
  show "app_poller s' = app_poller s" if "doSignal dp a r s = Some (s', resp)"
    using that by (auto simp: doSignal_def Let_def split: option.splits)
qed

lemma read_handlers_same:
  "handleHealthz r s = Some (s', resp) \<Longrightarrow> s' = s"
  "handleMetrics version page r s = Some (s', resp) \<Longrightarrow> s' = s"
  "handleMe r s = Some (s', resp) \<Longrightarrow> s' = s"
  "handleClusters r s = Some (s', resp) \<Longrightarrow> s' = s"
  "handleLocks dp r s = Some (s', resp) \<Longrightarrow> s' = s"
  "handleHotObjects dp r s = Some (s', resp) \<Longrightarrow> s' = s"
  "handleAudit dp r s = Some (s', resp) \<Longrightarrow> s' = s"
  "spaHandler dp r s = Some (s', resp) \<Longrightarrow> s' = s"
  by (auto simp: handleHealthz_def handleMetrics_def handleMe_def handleClusters_def handleLocks_def
      handleHotObjects_def handleAudit_def spaHandler_def Let_def split: option.splits sum.splits if_splits)

lemma action_chain_poller:
  fixes s :: "(sqlite, 'd, 'k) app"
  shows "Authenticate idn (RequireRole minr (requireSameOrigin (doSignal dp a))) r s = Some (s', resp) \<Longrightarrow> app_poller s' = app_poller s"
  by (auto dest!: Authenticate_Some RequireRole_Some requireSameOrigin_Some store_handlers_kept(4))

lemma serve_kept:
  assumes "serve dp ep r s = Some (s', resp)" "dp_wsEarly dp = []" "published (dp_wsEvents dp) = []"
  shows "kept (pl_store (app_poller s')) = kept (pl_store (app_poller s))"
proof (cases "ep \<in> {CancelSession, TerminateSession}")
  case True
  then have "app_poller s' = app_poller s"
    using assms(1) action_chain_poller [of _ _ dp _ r s s' resp] by (auto simp: handleCancel_def handleTerminate_def)
  then show ?thesis by simp
next
  case False
  then show ?thesis using assms
    by (cases ep) (auto split: option.splits dest!: Authenticate_Some RequireRole_Some read_handlers_same
        dest: store_handlers_kept(1-3))
qed

lemma serve_buffered:
  assumes "serve dp ep r s = Some (s', resp)" "wired idn dp" "store_wf (pl_store (app_poller s))"
  shows "buffered (pl_store (app_poller s')) \<subseteq> buffered (pl_store (app_poller s)) \<and>
    set (frames_of ep resp) \<subseteq> buffered (pl_store (app_poller s)) \<union> set (ring_list (pl_store (app_poller s)))"
proof (cases "ep = Stream")
  case True
  from assms(1) Authenticate_Some have "resp_Status resp \<noteq> 101 \<and> s' = s \<or> (\<exists>r'. handleStreamPage dp r' s = Some (s', resp))"
    unfolding True by (fastforce simp: http_Error_def)
  then show ?thesis using handleStreamPage_buffered [of dp _ s s' resp] assms(2,3)
    unfolding True wired_def by (auto split: body.splits json.splits)
next
  case False
  then have none: "frames_of ep resp = []" by (cases ep) simp_all
  have "buffered (pl_store (app_poller s')) = buffered (pl_store (app_poller s))"
  proof (cases "ep \<in> {CancelSession, TerminateSession}")
    case True
    then have "app_poller s' = app_poller s"
      using assms(1) action_chain_poller [of _ _ dp _ r s s' resp] by (auto simp: handleCancel_def handleTerminate_def)
    then show ?thesis by simp
  next
    case False
    then show ?thesis using assms(1) \<open>ep \<noteq> Stream\<close>
      by (cases ep) (auto split: option.splits dest!: Authenticate_Some RequireRole_Some read_handlers_same
          dest: store_handlers_buffered)
  qed
  with none show ?thesis by simp
qed

section \<open>What a step may write\<close>

lemma put_persist_saves: "st_persist (put_persist ops snap s) = map_option (\<lambda>p. fst (p_Save ops p snap)) (st_persist s)"
  by (auto simp: put_persist_def log_warn_def split: option.splits prod.splits)

lemma Put_persist:
  assumes "Put ops ord snap s = Some s'"
  shows "st_persist s' = map_option (\<lambda>p. fst (p_Save ops p snap)) (st_persist s)"
proof -
  from assms obtain s1 h where "put_ring snap s = Some s1" "s' = (put_persist ops snap s1)\<lparr>st_chans := h\<rparr>"
    unfolding Put_def Let_def bind_eq_Some_conv by blast
  then show ?thesis using put_ring_hub(4) [of snap s s1] by (simp add: put_persist_saves del: put_ring_hub)
qed

lemma Save_rows:
  "row \<in> set (sq_snapshots (fst (Save env h snap))) \<Longrightarrow> row \<in> set (sq_snapshots h) \<or> encode env snap = Inr (sr_data row)"
  by (auto simp: Save_def maybePrune_def insert_snapshot_def Let_def split: sum.splits option.splits if_splits)

lemma one_poll_persist:
  assumes "Run_loop env [i] backoff p = Some (p', ws, b)"
  shows "st_persist (pl_store p') = fold (\<lambda>snap. map_option (\<lambda>h. fst (p_Save (pe_ops env) h snap)))
    (built env (pl_cluster p) i) (st_persist (pl_store p))"
proof (cases "in_polled i")
  case (Inl err)
  with assms show ?thesis
    by (auto simp: pollOnce_def built_def observe_poll_def log_poll_def setError_def Let_def split: if_splits)
next
  case (Inr res)
  with assms show ?thesis
    by (cases res) (auto simp: pollOnce_def built_def observe_poll_def setOK_def Let_def bind_eq_Some_conv
        dest!: Put_persist split: if_splits)
qed

text \<open>An entry the trail gains is the one that was recorded; only its time may have been cut to
  64 bits by the database.\<close>

lemma sink_record_trail:
  assumes "sink_ok k" "sink_record env e k = Some (err, k')" "x \<in> set (sink_trail k')"
  shows "x \<in> set (sink_trail k) \<or> x\<lparr>ent_At := ent_At e\<rparr> = e"
proof (cases k)
  case (MemorySink m)
  with assms have "k' = MemorySink (m\<lparr>mem_entries := last_n (nat (mem_cap m)) (mem_entries m @ [e])\<rparr>)"
    by (auto simp: Record_eq)
  with assms(3) MemorySink show ?thesis using set_last_n_subset [of "nat (mem_cap m)" "mem_entries m @ [e]"] by auto
next
  case (SqliteSink h)
  with assms(2,3) show ?thesis
    by (auto simp: Record_sqlite_def sqlite_trail_def entry_of_row_def boolToInt_def split: option.splits)
qed

lemma Do_trail_entries:
  assumes "Do sig (Some lk) (sink_record env) observe now action pid actor svc = Some (svc', res, err)"
    and "svc_sink svc = Some k" "sink_ok k" "svc_sink svc' = Some k'" "x \<in> set (sink_trail k')"
  shows "x \<in> set (sink_trail k) \<or>
    x\<lparr>ent_At := now\<rparr> = mk_entry now actor action pid (fst (lk pid)) (res_Delivered res) err"
proof -
  obtain d delivered serr where s: "send_action sig action pid (svc_db svc) = (d, delivered, serr)" by (metis prod_cases3)
  let ?e = "mk_entry now actor action pid (fst (lk pid)) delivered serr"
  obtain rerr k1 where r: "sink_record env ?e k = Some (rerr, k1)" using any_sink.rec_returns [OF assms(3)] by blast
  with assms(1,2,4) s have k: "k' = k1" "err = serr" "res_Delivered res = (if serr = None then delivered else False)"
    by (cases rerr; force simp: Do_def write_sink_def Let_def)+
  then have "?e = mk_entry now actor action pid (fst (lk pid)) (res_Delivered res) err" by (simp add: mk_entry_def)
  with sink_record_trail [OF assms(3) r] assms(5) k(1) show ?thesis by (simp add: mk_entry_def)
qed

section \<open>The started program\<close>

text \<open>AUTOINCREMENT: the ids in the audit table of the file grow and its counter bounds them.\<close>

definition audit_file_ok :: "'d world \<Rightarrow> bool" where
  "audit_file_ok w \<longleftrightarrow>
     (case wd_file w of (snaps, n, audit, k) \<Rightarrow> sorted_wrt (<) (map ar_id audit) \<and> (\<forall>r \<in> set audit. ar_id r \<le> k))"

lemma run_start_Inr:
  assumes "run_start w path = Inr sd"
  shows "\<exists>hist. Load (wd_readFile w) (wd_unmarshal w) (wd_getenv w) path = Inr (sd_cfg sd) \<and>
    open_history w (sd_cfg sd) = Inr hist \<and> buildIdentity (wd_sha256 w) (cfg_Auth (sd_cfg sd)) = Inr (sd_identity sd) \<and>
    sd_app sd = \<lparr>app_poller = start_poller (sd_cfg sd) hist (Some []),
      app_svc = SetMetrics (New_metrics (wd_version w)) (New_service (wd_db w) (Some (start_sink hist)))\<rparr>"
  using assms by (auto simp: run_start_def Let_def split: sum.splits option.splits)

lemma open_history_audit:
  assumes "open_history w cfg = Inr (Some h)" "audit_file_ok w"
  shows "audit_wf h"
  using assms by (auto simp: open_history_def Open_def audit_file_ok_def audit_wf_def split: if_splits sum.splits option.splits)

lemma started_ok:
  assumes "run_start w path = Inr sd" "audit_file_ok w"
  shows "app_ok sink_ok (sd_app sd)" "ring_list (pl_store (app_poller (sd_app sd))) = []"
proof -
  from run_start_Inr [OF assms(1)] obtain hist where h: "open_history w (sd_cfg sd) = Inr hist"
    "sd_app sd = \<lparr>app_poller = start_poller (sd_cfg sd) hist (Some []),
      app_svc = SetMetrics (New_metrics (wd_version w)) (New_service (wd_db w) (Some (start_sink hist)))\<rparr>" by blast
  have "sink_ok (start_sink hist)"
    using h(1) open_history_audit [OF _ assms(2)] by (cases hist) (simp_all add: start_sink_def memory_wf_def NewMemory_def)
  with h(2) show "app_ok sink_ok (sd_app sd)" "ring_list (pl_store (app_poller (sd_app sd))) = []"
    by (simp_all add: app_ok_def SetMetrics_def New_service_def)
qed

lemma wired_sink:
  "wired idn dp \<Longrightarrow> audit_sink sink_ok (\<lambda>e. in_int64 (ent_At e)) 1000 sink_trail (dp_rec dp) (dp_recent dp)"
  unfolding wired_def using any_sink.audit_sink_axioms by metis

lemma running_ok:
  assumes "running base cfg idn s0 evs s" "app_ok sink_ok s0"
  shows "app_ok sink_ok s"
  using assms
proof (induction rule: running.induct)
  case (polls evs s env sql ord raw backoff p ws b)
  then have "poller_wf (app_poller s)" by (simp add: app_ok_def)
  from one_poll_result(1) [OF this polls.hyps(6,8)] have "poller_wf p" .
  with polls show ?case by (simp add: app_ok_def)
next
  case (serves evs s dp ep r s' resp)
  from serves have "map_order (dp_ordC dp)" by (simp add: wired_def)
  from serve_ok [OF wired_sink [OF serves.hyps(2)] this, of s ep r] serves show ?case by simp
next
  case (pushes evs s ch st snap)
  then have "store_wf st" using chan_recv_wf [OF _ pushes.hyps(2)] by (simp add: app_ok_def poller_wf_def)
  with pushes show ?case by (simp add: app_ok_def poller_wf_def set_store_def)
next
  case (hangs_up evs s sid)
  then show ?case using unsubscribe_wf [of "pl_store (app_poller s)" sid] by (simp add: app_ok_def poller_wf_def set_store_def)
qed simp

section \<open>No unmasked text\<close>

definition store_masked :: "sql_env \<Rightarrow> poll_input list \<Rightarrow> snap_row set \<Rightarrow> sqlite store \<Rightarrow> bool" where
  "store_masked base raws old st \<longleftrightarrow>
     (\<forall>snap \<in> set (ring_list st) \<union> buffered st. masked_snapshot raws snap) \<and>
     (\<forall>h. st_persist st = Some h \<longrightarrow> (\<forall>row \<in> set (sq_snapshots h).
        row \<in> old \<or> (\<exists>snap. encode base snap = Inr (sr_data row) \<and> masked_snapshot raws snap)))"

definition trail_masked :: "poll_input list \<Rightarrow> entry set \<Rightarrow> sink option \<Rightarrow> bool" where
  "trail_masked raws old sink \<longleftrightarrow>
     (\<forall>k. sink = Some k \<longrightarrow> (\<forall>e \<in> set (sink_trail k).
        e \<in> old \<or> ent_VictimQuery e = '''' \<or> masked_of raws (ent_PID e) (ent_VictimQuery e)))"

lemma masked_mono:
  "masked_of raws pid q \<Longrightarrow> masked_of (raws @ xs) pid q"
  "masked_snapshot raws snap \<Longrightarrow> masked_snapshot (raws @ xs) snap"
  "store_masked base raws old st \<Longrightarrow> store_masked base (raws @ xs) old st"
  "trail_masked raws olde sink \<Longrightarrow> trail_masked (raws @ xs) olde sink"
proof -
  show m: "masked_of (raws @ xs) pid q" if "masked_of raws pid q" for pid q using that unfolding masked_of_def by auto
  then show ms: "masked_snapshot (raws @ xs) snap" if "masked_snapshot raws snap" for snap
    using that unfolding masked_snapshot_def by blast
  show "store_masked base (raws @ xs) old st" if "store_masked base raws old st"
    using that ms unfolding store_masked_def by blast
  show "trail_masked (raws @ xs) olde sink" if "trail_masked raws olde sink"
    using that m unfolding trail_masked_def by blast
qed

lemma poll_masked:
  assumes "store_masked base raws old (pl_store p)" "poller_wf p" "raw \<in> set raws" "cfg_Redaction cfg"
    and "pe_ops env = sqlite_ops sql" "encode sql = encode base"
    and "map_order (pe_ordS env)" "map_order (pe_ordB env)" "map_order (pe_ordC env)" "map_order ord"
    and "Run_loop env [raw\<lparr>in_polled := poll_source cfg ord (in_polled raw)\<rparr>] backoff p = Some (p', ws, b)"
  shows "store_masked base raws old (pl_store p')"
proof -
  let ?i = "raw\<lparr>in_polled := poll_source cfg ord (in_polled raw)\<rparr>"
  let ?new = "built env (pl_cluster p) ?i"
  have new: "masked_snapshot raws snap" if "snap \<in> set ?new" for snap
    using built_masked [OF assms(10,7,8,3), of snap "pl_cluster p"] that assms(4) by (simp add: poll_source_def)
  have "length ?new \<le> 1" by (simp add: built_def split: sum.splits prod.splits)
  then consider (none) "?new = []" | (one) snap where "?new = [snap]" by (cases ?new) auto
  then have rows: "\<exists>snap. encode base snap = Inr (sr_data row) \<and> masked_snapshot raws snap"
    if "st_persist (pl_store p') = Some h'" "row \<in> set (sq_snapshots h')" "row \<notin> old" for h' row
  proof cases
    case none
    have "st_persist (pl_store p') = st_persist (pl_store p)" using one_poll_persist [OF assms(11)] unfolding none by simp
    with that assms(1) show ?thesis unfolding store_masked_def by auto
  next
    case (one snap)
    have "st_persist (pl_store p') = map_option (\<lambda>h. fst (Save sql h snap)) (st_persist (pl_store p))"
      using one_poll_persist [OF assms(11)] unfolding one by (simp add: assms(5) sqlite_ops_def)
    with that(1) obtain h where h: "st_persist (pl_store p) = Some h" "h' = fst (Save sql h snap)" by auto
    from Save_rows [of row sql h snap] that(2) h(2) have "row \<in> set (sq_snapshots h) \<or> encode base snap = Inr (sr_data row)"
      by (simp add: assms(6))
    with assms(1) h(1) that(3) new [of snap] one show ?thesis by (auto simp: store_masked_def)
  qed
  have "set (ring_list (pl_store p')) \<subseteq> set (ring_list (pl_store p)) \<union> set ?new"
    unfolding one_poll_result(2) [OF assms(2,9,11)] using set_last_n_subset by fastforce
  with one_poll_buffered [OF assms(11)] assms(1) new rows show ?thesis unfolding store_masked_def by blast
qed

lemma serve_masked:
  assumes "wired idn dp" "serve dp ep r s = Some (s', resp)" "app_ok sink_ok s"
    and "store_masked base raws old (pl_store (app_poller s))" "trail_masked raws olde (svc_sink (app_svc s))"
  shows "store_masked base raws old (pl_store (app_poller s')) \<and> trail_masked raws olde (svc_sink (app_svc s'))"
proof -
  from assms(1) obtain env where d: "dp_rec dp = sink_record env" "dp_wsEarly dp = []" "published (dp_wsEvents dp) = []"
    by (auto simp: wired_def)
  have "kept (pl_store (app_poller s')) = kept (pl_store (app_poller s))" by (rule serve_kept [OF assms(2) d(2,3)])
  moreover have "buffered (pl_store (app_poller s')) \<subseteq> buffered (pl_store (app_poller s))"
    using serve_buffered [OF assms(2,1)] assms(3) by (simp add: app_ok_def poller_wf_def)
  ultimately have "store_masked base raws old (pl_store (app_poller s'))" using assms(4) by (auto simp: store_masked_def kept_def)
  moreover have "trail_masked raws olde (svc_sink (app_svc s'))"
  proof (cases "app_svc s' = app_svc s")
    case True
    with assms(5) show ?thesis by simp
  next
    case False
    obtain action actor pid res err where
      D: "Do (dp_sig dp) (Some (lookup_query (pl_store (app_poller s)))) (sink_record env) ObserveAction (dp_now dp)
        action pid actor (app_svc s) = Some (app_svc s', res, err)"
      using serve_signals [OF assms(2) False] unfolding d(1) by blast
    obtain k where k: "svc_sink (app_svc s) = Some k" "sink_ok k" using assms(3) by (auto simp: app_ok_def)
    have "fst (lookup_query (pl_store (app_poller s)) pid) = '''' \<or>
        masked_of raws pid (fst (lookup_query (pl_store (app_poller s)) pid))"
      using lookup_masked [of "pl_store (app_poller s)" raws pid] assms(3,4) by (simp add: app_ok_def poller_wf_def store_masked_def)
    moreover have "ent_PID x = pid \<and> ent_VictimQuery x = fst (lookup_query (pl_store (app_poller s)) pid)"
      if "x\<lparr>ent_At := dp_now dp\<rparr> = mk_entry (dp_now dp) actor action pid (fst (lookup_query (pl_store (app_poller s)) pid)) (res_Delivered res) err" for x
      using arg_cong [OF that, of ent_PID] arg_cong [OF that, of ent_VictimQuery] by (simp add: mk_entry_def)
    ultimately show ?thesis using Do_trail_entries [OF D k] assms(5) k(1) unfolding trail_masked_def by metis
  qed
  ultimately show ?thesis by simp
qed

lemma running_masked:
  assumes "running base cfg idn s0 evs s" "cfg_Redaction cfg" "app_ok sink_ok s0"
    and "store_masked base [] old (pl_store (app_poller s0))" "trail_masked [] olde (svc_sink (app_svc s0))"
  shows "store_masked base (polled evs) old (pl_store (app_poller s)) \<and> trail_masked (polled evs) olde (svc_sink (app_svc s))"
  using assms
proof (induction rule: running.induct)
  case (polls evs s env sql ord raw backoff p ws b)
  have ok: "poller_wf (app_poller s)" using running_ok [OF polls.hyps(1) polls.prems(2)] by (simp add: app_ok_def)
  from polls have "store_masked base (polled evs @ [raw]) old (pl_store (app_poller s))"
    "trail_masked (polled evs @ [raw]) olde (svc_sink (app_svc s))"
    using masked_mono(3,4) by blast+
  with poll_masked [OF this(1) ok _ polls.prems(1) polls.hyps(2-8)] show ?case by simp
next
  case (serves evs s dp ep r s' resp)
  with running_ok [OF serves.hyps(1)] serve_masked [OF serves.hyps(2,3)] show ?case unfolding polled_simps by blast
next
  case (pushes evs s ch st snap)
  with chan_recv_kept [OF pushes.hyps(2)] chan_recv_buffered(2) [OF pushes.hyps(2)] show ?case
    by (auto simp: store_masked_def kept_def set_store_def)
next
  case (hangs_up evs s sid)
  have "store_wf (pl_store (app_poller s))" using running_ok [OF hangs_up.hyps(1) hangs_up.prems(2)] by (simp add: app_ok_def poller_wf_def)
  with hangs_up unsubscribe_buffered [of "pl_store (app_poller s)" sid] unsubscribe_kept [of sid "pl_store (app_poller s)"] show ?case
    by (auto simp: store_masked_def kept_def set_store_def)
qed simp

text \<open>What the clients of the stream are shown is masked too.\<close>

lemma running_shown:
  assumes "running base cfg idn s0 evs s" "cfg_Redaction cfg" "app_ok sink_ok s0"
    and "store_masked base [] old (pl_store (app_poller s0))" "trail_masked [] olde (svc_sink (app_svc s0))"
    and "e \<in> set evs" "x \<in> set (shown e)"
  shows "masked_snapshot (polled evs) x"
  using assms
proof (induction rule: running.induct)
  case (polls evs s env sql ord raw backoff p ws b)
  then show ?case using masked_mono(2) by auto
next
  case (serves evs s dp ep r s' resp)
  have "store_masked base (polled evs) old (pl_store (app_poller s))"
    using running_masked [OF serves.hyps(1) serves.prems(1-4)] by simp
  moreover have "store_wf (pl_store (app_poller s))"
    using running_ok [OF serves.hyps(1) serves.prems(2)] by (simp add: app_ok_def poller_wf_def)
  ultimately have "masked_snapshot (polled evs) y" if "y \<in> set (frames_of ep resp)" for y
    using serve_buffered [OF serves.hyps(3,2)] that unfolding store_masked_def by blast
  with serves show ?case by auto
next
  case (pushes evs s ch st snap)
  have "masked_snapshot (polled evs) snap"
    using running_masked [OF pushes.hyps(1) pushes.prems(1-4)] chan_recv_buffered(1) [OF pushes.hyps(2)]
    unfolding store_masked_def by blast
  with pushes show ?case by auto
qed auto

lemma started_masked:
  assumes "run_start w path = Inr sd" "audit_file_ok w" "wd_file w = (rows, n, audit, m)"
  shows "store_masked base [] (set rows) (pl_store (app_poller (sd_app sd)))"
    "trail_masked [] (set (map entry_of_row audit)) (svc_sink (app_svc (sd_app sd)))"
proof -
  from run_start_Inr [OF assms(1)] obtain hist where h: "open_history w (sd_cfg sd) = Inr hist"
    "sd_app sd = \<lparr>app_poller = start_poller (sd_cfg sd) hist (Some []),
      app_svc = SetMetrics (New_metrics (wd_version w)) (New_service (wd_db w) (Some (start_sink hist)))\<rparr>" by blast
  have tables: "sq_snapshots x = rows \<and> sq_audit x = audit" if "hist = Some x" for x
    using h(1) that assms(3) by (auto simp: open_history_def Open_def split: if_splits sum.splits option.splits)
  have "st_persist (pl_store (app_poller (sd_app sd))) = hist" "buffered (pl_store (app_poller (sd_app sd))) = {}"
    by (simp_all add: buffered_def chan_contents_def h(2) start_poller_def start_store_def SetMetrics_poller_def New_poller_def New_def SetPersister_def Let_def
        split: option.splits)
  with tables show "store_masked base [] (set rows) (pl_store (app_poller (sd_app sd)))"
    using started_ok(2) [OF assms(1,2)] by (simp add: store_masked_def)
  have "set (sink_trail (start_sink hist)) \<subseteq> set (map entry_of_row audit)"
    using tables by (cases hist) (auto simp: start_sink_def NewMemory_def sqlite_trail_def)
  then show "trail_masked [] (set (map entry_of_row audit)) (svc_sink (app_svc (sd_app sd)))"
    by (auto simp: trail_masked_def h(2) SetMetrics_def New_service_def)
qed

end
