(* ===== verification/Concurrent.thy ===== *)
theory Concurrent
  imports Hub Running
begin

text \<open>
  The whole program with the poll taken apart. \<open>Put\<close> (\<open>store.go\<close>) writes the ring and copies the
  table of the subscribers under its lock, and saves and sends outside of it; here requests,
  pushes and the ends of streams also run between these parts, as they do in the program, where
  each belongs to another goroutine. A state is the program, the \<open>Put\<close> that is in flight with
  the poll it belongs to, and the panic that has stopped it, if one has. The parameter \<open>serial\<close>
  of the step relation says whether a stream may end while a \<open>Put\<close> has still to send to it.
\<close>

section \<open>Steps\<close>

datatype crash = ClosedSend chan_ref | RingIndex | HandlerPanic endpoint

record 'd conc =
  cn_app :: "(sqlite, 'd, sink) app"
  cn_put :: "(poll_input \<times> put_phase) option"
  cn_crash :: "crash option"

definition idle :: "(sqlite, 'd, sink) app \<Rightarrow> 'd conc" where
  "idle s = \<lparr>cn_app = s, cn_put = None, cn_crash = None\<rparr>"

definition cn_store :: "'d conc \<Rightarrow> sqlite store" where
  "cn_store c = pl_store (app_poller (cn_app c))"

definition with_store :: "sqlite store \<Rightarrow> 'd conc \<Rightarrow> 'd conc" where
  "with_store st c = c\<lparr>cn_app := set_store st (cn_app c)\<rparr>"

definition with_poller :: "sqlite poller \<Rightarrow> 'd conc \<Rightarrow> 'd conc" where
  "with_poller p c = c\<lparr>cn_app := (cn_app c)\<lparr>app_poller := p\<rparr>\<rparr>"

fun refs_of :: "put_phase \<Rightarrow> chan_ref list" where
  "refs_of (Persisting snap refs) = refs"
| "refs_of (Sending snap refs) = refs"

definition unsent :: "'d conc \<Rightarrow> chan_ref list" where
  "unsent c = (case cn_put c of None \<Rightarrow> [] | Some (i, phase) \<Rightarrow> refs_of phase)"

text \<open>The rest of a \<open>Put\<close> and of its poll, outside the lock: the database, one send after the
  other, the status and the observer.\<close>

inductive put_step :: "'d conc \<Rightarrow> 'd conc \<Rightarrow> bool" where
  put_saved: "cn_crash c = None \<Longrightarrow> cn_put c = Some (i, Persisting snap refs) \<Longrightarrow>
    put_step c (with_store (put_persist (sqlite_ops sql) snap (cn_store c)) c\<lparr>cn_put := Some (i, Sending snap refs)\<rparr>)"
| put_sent: "cn_crash c = None \<Longrightarrow> cn_put c = Some (i, Sending snap (ch # refs)) \<Longrightarrow>
    try_send ch snap (st_chans (cn_store c)) = Some chans \<Longrightarrow>
    put_step c (with_store ((cn_store c)\<lparr>st_chans := chans\<rparr>) c\<lparr>cn_put := Some (i, Sending snap refs)\<rparr>)"
| put_crashed: "cn_crash c = None \<Longrightarrow> cn_put c = Some (i, Sending snap (ch # refs)) \<Longrightarrow>
    try_send ch snap (st_chans (cn_store c)) = None \<Longrightarrow> put_step c (c\<lparr>cn_crash := Some (ClosedSend ch)\<rparr>)"
| poll_done: "cn_crash c = None \<Longrightarrow> cn_put c = Some (i, Sending snap []) \<Longrightarrow>
    put_step c (with_poller (observe_poll i None (setOK (in_ok i) (app_poller (cn_app c)))) c\<lparr>cn_put := None\<rparr>)"

text \<open>The steps of the program. A stream subscribes in the step of its request; \<open>subscribes\<close> is one
  that has not come further yet.\<close>

inductive conc_step :: "bool \<Rightarrow> identity \<Rightarrow> 'd conc \<Rightarrow> 'd conc \<Rightarrow> bool" for serial idn where
  poll_failed: "cn_crash c = None \<Longrightarrow> cn_put c = None \<Longrightarrow> in_polled i = Inl err \<Longrightarrow>
    Run_loop env [i] backoff (app_poller (cn_app c)) = Some (p, ws, b) \<Longrightarrow> conc_step serial idn c (with_poller p c)"
| put_locked: "cn_crash c = None \<Longrightarrow> cn_put c = None \<Longrightarrow> in_polled i = Inr (sessions, labels) \<Longrightarrow>
    map_order ordS \<Longrightarrow> map_order ordB \<Longrightarrow> map_order ordC \<Longrightarrow>
    snap = Build ordS ordB (pl_cluster (app_poller (cn_app c))) (in_build i) sessions labels \<Longrightarrow>
    put_ring snap (cn_store c) = Some st \<Longrightarrow>
    conc_step serial idn c (with_store st c\<lparr>cn_put := Some (i, Persisting snap (put_capture ordC st))\<rparr>)"
| put_indexed: "cn_crash c = None \<Longrightarrow> cn_put c = None \<Longrightarrow> put_ring snap (cn_store c) = None \<Longrightarrow>
    conc_step serial idn c (c\<lparr>cn_crash := Some RingIndex\<rparr>)"
| puts: "put_step c c' \<Longrightarrow> conc_step serial idn c c'"
| serves: "cn_crash c = None \<Longrightarrow> wired idn dp \<Longrightarrow> serve dp ep r (cn_app c) = Some (s, resp) \<Longrightarrow>
    conc_step serial idn c (c\<lparr>cn_app := s\<rparr>)"
| serve_crashed: "cn_crash c = None \<Longrightarrow> wired idn dp \<Longrightarrow> serve dp ep r (cn_app c) = None \<Longrightarrow>
    conc_step serial idn c (c\<lparr>cn_crash := Some (HandlerPanic ep)\<rparr>)"
| subscribes: "cn_crash c = None \<Longrightarrow> conc_step serial idn c (with_store (fst (Subscribe (cn_store c))) c)"
| pushes: "cn_crash c = None \<Longrightarrow> chan_recv ch (cn_store c) = Some (st, snap) \<Longrightarrow> conc_step serial idn c (with_store st c)"
| hangs_up: "cn_crash c = None \<Longrightarrow>
    (serial \<longrightarrow> (\<forall>ch. fmlookup (st_subs (cn_store c)) sid = Some ch \<longrightarrow> ch \<notin> set (unsent c))) \<Longrightarrow>
    conc_step serial idn c (with_store (unsubscribe sid (cn_store c)) c)"

inductive conc_reach :: "bool \<Rightarrow> identity \<Rightarrow> (sqlite, 'd, sink) app \<Rightarrow> 'd conc \<Rightarrow> bool" for serial idn s0 where
  begins: "conc_reach serial idn s0 (idle s0)"
| goes_on: "conc_reach serial idn s0 c \<Longrightarrow> conc_step serial idn c c' \<Longrightarrow> conc_reach serial idn s0 c'"

lemmas cn_defs = cn_store_def with_store_def with_poller_def unsent_def set_store_def

lemma cn_simps [simp]:
  "cn_store (with_store st c) = st" "cn_put (with_store st c) = cn_put c" "cn_crash (with_store st c) = cn_crash c"
  "cn_put (with_poller p c) = cn_put c" "cn_crash (with_poller p c) = cn_crash c" "cn_store (with_poller p c) = pl_store p"
  "cn_store (c\<lparr>cn_put := ph\<rparr>) = cn_store c" "cn_store (c\<lparr>cn_crash := x\<rparr>) = cn_store c"
  "unsent (with_store st c) = unsent c" "unsent (with_poller p c) = unsent c" "unsent (c\<lparr>cn_crash := x\<rparr>) = unsent c"
  "unsent (c\<lparr>cn_put := None\<rparr>) = []" "unsent (c\<lparr>cn_put := Some (i, phase)\<rparr>) = refs_of phase" "unsent (c\<lparr>cn_app := s\<rparr>) = unsent c"
  "unsent (idle s) = []" "cn_crash (idle s) = None" "cn_put (idle s) = None" "cn_app (idle s) = s"
  by (simp_all add: cn_defs idle_def)

section \<open>A request never unsubscribes another stream\<close>

lemma unsubscribe_keys: "map_keys (st_subs (unsubscribe sid s)) \<subseteq> map_keys (st_subs s)"
  by (auto simp: unsubscribe_def split: option.splits)

lemma readers_subs:
  "At ops t s = Some (s', x) \<Longrightarrow> st_subs s' = st_subs s"
  "History ops from to s = Some (s', y) \<Longrightarrow> st_subs s' = st_subs s"
  by (auto simp: At_def History_def log_warn_def split: option.splits sum.splits)

lemma handleStream_subs:
  assumes "handleStream ops ord acc early first_ok evs r s = Some (s', res)" "map_order ord" "store_wf s"
  shows "map_keys (st_subs s) \<subseteq> map_keys (st_subs s')"
proof -
  obtain s0 sid ch where sub: "Subscribe s = (s0, sid, ch)" by (metis prod_cases3)
  obtain s1 s2 sent stopped where run: "run_puts (Put ops ord) early s0 = Some s1" "stream_loop ops ord ch evs s1 = Some (s2, sent, stopped)"
    "st_subs (unsubscribe sid s1) = st_subs s" "st_subs (unsubscribe sid s2) = st_subs s"
    using session_runs [OF assms(2,3) sub, of ops early evs] by blast
  with assms(1) show ?thesis using unsubscribe_keys [of sid s2]
    by (auto simp: handleStream_def sub split: if_splits option.splits)
qed

lemma serve_subs:
  assumes "serve dp ep r s = Some (s', resp)" "wired idn dp" "store_wf (pl_store (app_poller s))"
  shows "map_keys (st_subs (pl_store (app_poller s))) \<subseteq> map_keys (st_subs (pl_store (app_poller s')))"
proof -
  have ord: "map_order (dp_ordC dp)" using assms(2) by (simp add: wired_def)
  have snap: "map_keys (st_subs (pl_store (app_poller s))) \<subseteq> map_keys (st_subs (pl_store (app_poller s')))"
    if "handleSnapshot dp r' s = Some (s', resp')" for r' resp'
    using that readers_subs(1) [of "dp_ops dp" _ "pl_store (app_poller s)"]
    by (auto simp: handleSnapshot_def set_store_def Let_def split: option.splits if_splits)
  have hist: "map_keys (st_subs (pl_store (app_poller s))) \<subseteq> map_keys (st_subs (pl_store (app_poller s')))"
    if "handleHistory dp r' s = Some (s', resp')" for r' resp'
    using that readers_subs(2) [of "dp_ops dp" _ _ "pl_store (app_poller s)"]
    by (auto simp: handleHistory_def set_store_def split: option.splits)
  have stream: "map_keys (st_subs (pl_store (app_poller s))) \<subseteq> map_keys (st_subs (pl_store (app_poller s')))"
    if "handleStreamPage dp r' s = Some (s', resp')" for r' resp'
  proof -
    from that obtain st res where "handleStream (dp_ops dp) (dp_ordC dp) (dp_wsRejected dp = None) (dp_wsEarly dp) (dp_wsFirst dp)
        (dp_wsEvents dp) r' (pl_store (app_poller s)) = Some (st, res)" "s' = set_store st s"
      by (auto simp: handleStreamPage_def split: option.splits)
    with handleStream_subs [OF _ ord assms(3)] show ?thesis by (simp add: set_store_def)
  qed
  show ?thesis
  proof (cases "ep \<in> {CancelSession, TerminateSession}")
    case True
    then have "app_poller s' = app_poller s"
      using assms(1) action_chain_poller [of _ _ dp _ r s s' resp] by (auto simp: handleCancel_def handleTerminate_def)
    then show ?thesis by simp
  next
    case False
    then show ?thesis using assms(1)
      by (cases ep) (force split: option.splits dest!: Authenticate_Some RequireRole_Some dest: read_handlers_same snap hist stream)+
  qed
qed

section \<open>Invariants\<close>

definition conc_inv :: "'d conc \<Rightarrow> bool" where
  "conc_inv c \<longleftrightarrow> app_ok sink_ok (cn_app c) \<and>
     (\<forall>x. cn_crash c = Some x \<longrightarrow> (\<exists>ch. x = ClosedSend ch \<and> fmlookup (st_subs (cn_store c)) ch = None))"

definition conc_serial :: "'d conc \<Rightarrow> bool" where
  "conc_serial c \<longleftrightarrow> cn_crash c = None \<and> set (unsent c) \<subseteq> map_keys (st_subs (cn_store c))"

lemma conc_inv_store: "conc_inv c \<Longrightarrow> store_wf (cn_store c)"
  by (simp add: conc_inv_def app_ok_def poller_wf_def cn_store_def)

lemma app_ok_store: "app_ok sink_ok (cn_app c) \<Longrightarrow> store_wf st \<Longrightarrow> app_ok sink_ok (cn_app (with_store st c))"
  by (simp add: with_store_def app_ok_set_store)

lemma app_ok_poller: "app_ok sink_ok (cn_app c) \<Longrightarrow> poller_wf p \<Longrightarrow> app_ok sink_ok (cn_app (with_poller p c))"
  by (simp add: with_poller_def app_ok_def)

text \<open>A subscribed stream has an open channel.\<close>

lemma subscribed_send:
  assumes "store_wf s" "ch \<in> map_keys (st_subs s)"
  shows "\<exists>chans. try_send ch snap (st_chans s) = Some chans"
proof -
  from assms obtain c where "fmlookup (st_chans s) ch = Some c" "\<not> ch_closed c"
    by (force simp: store_wf_def hub_wf_def)
  then show ?thesis by (simp add: try_send_def)
qed

lemma try_send_wf:
  assumes "store_wf s" "try_send ch snap (st_chans s) = Some chans"
  shows "store_wf (s\<lparr>st_chans := chans\<rparr>)"
proof -
  obtain c where "fmlookup (st_chans s) ch = Some c"
    "\<forall>q. fmlookup chans q = (if q = ch then Some (deliver snap c) else fmlookup (st_chans s) q)"
    using try_send_cases [OF assms(2)] by blast
  with assms(1) show ?thesis using hub_wf_deliver [of s "s\<lparr>st_chans := chans\<rparr>" "{ch}" snap]
    by (auto simp: store_wf_def ring_wf_def)
qed

lemma put_persist_wf: "store_wf s \<Longrightarrow> store_wf (put_persist ops snap s)"
  by (rule store_wf_cong [of s]) simp_all

lemma put_step_inv:
  assumes "put_step c c'" "conc_inv c"
  shows "conc_inv c'"
  using assms(1)
proof (cases rule: put_step.cases)
  case (put_saved i snap refs sql)
  with assms(2) conc_inv_store [OF assms(2)] show ?thesis
    by (simp add: conc_inv_def app_ok_store put_persist_wf)
next
  case (put_sent i snap ch refs chans)
  with assms(2) try_send_wf [OF conc_inv_store [OF assms(2)] put_sent(4)] show ?thesis
    by (simp add: conc_inv_def app_ok_store)
next
  case (put_crashed i snap ch refs)
  have "fmlookup (st_subs (cn_store c)) ch = None"
    using subscribed_send [OF conc_inv_store [OF assms(2)], of ch snap] put_crashed(4) by (auto intro: fmdom_notD)
  with put_crashed assms(2) show ?thesis by (simp add: conc_inv_def)
next
  case (poll_done i snap)
  with assms(2) show ?thesis
    by (simp add: conc_inv_def app_ok_poller) (simp add: app_ok_def poller_wf_def observe_poll_def setOK_def with_poller_def)
qed

lemma put_step_serial:
  assumes "put_step c c'" "conc_inv c" "conc_serial c"
  shows "conc_serial c'"
  using assms(1)
proof (cases rule: put_step.cases)
  case (put_saved i snap refs sql)
  with assms(3) show ?thesis by (simp add: conc_serial_def unsent_def)
next
  case (put_sent i snap ch refs chans)
  with assms(3) show ?thesis by (simp add: conc_serial_def unsent_def)
next
  case (put_crashed i snap ch refs)
  then have "ch \<in> map_keys (st_subs (cn_store c))" using assms(3) by (simp add: conc_serial_def unsent_def)
  with subscribed_send [OF conc_inv_store [OF assms(2)], of ch snap] put_crashed(4) show ?thesis by simp
next
  case (poll_done i snap)
  with assms(3) show ?thesis by (simp add: conc_serial_def)
qed

lemma conc_step_inv:
  assumes "conc_step serial idn c c'" "conc_inv c"
  shows "conc_inv c'"
  using assms(1)
proof (cases rule: conc_step.cases)
  case (poll_failed i err env backoff p ws b)
  then have "poller_wf p" using assms(2)
    by (auto simp: conc_inv_def app_ok_def pollOnce_def log_poll_def setError_def observe_poll_def poller_wf_def Let_def split: if_splits)
  with poll_failed assms(2) show ?thesis by (simp add: conc_inv_def app_ok_poller)
next
  case (put_locked i sessions labels ordS ordB ordC snap st)
  with assms(2) put_ring_store_wf [OF conc_inv_store [OF assms(2)]] show ?thesis by (simp add: conc_inv_def app_ok_store)
next
  case put_indexed
  with conc_inv_store [OF assms(2)] show ?thesis by (simp add: store_wf_def put_ring_ok)
next
  case puts
  then show ?thesis using put_step_inv assms(2) by blast
next
  case (serves dp ep r s resp)
  from serves have "map_order (dp_ordC dp)" by (simp add: wired_def)
  from serve_ok [OF wired_sink [OF serves(3)] this, of "cn_app c" ep r] serves assms(2) show ?thesis by (simp add: conc_inv_def)
next
  case (serve_crashed dp ep r)
  from serve_crashed have "map_order (dp_ordC dp)" by (simp add: wired_def)
  from serve_ok [OF wired_sink [OF serve_crashed(3)] this, of "cn_app c" ep r] serve_crashed assms(2) show ?thesis
    by (simp add: conc_inv_def returns_ok_def)
next
  case subscribes
  with assms(2) Subscribe_wf [OF conc_inv_store [OF assms(2)]] show ?thesis by (simp add: conc_inv_def app_ok_store)
next
  case (pushes ch st snap)
  with assms(2) chan_recv_wf [OF conc_inv_store [OF assms(2)]] show ?thesis by (simp add: conc_inv_def app_ok_store)
next
  case (hangs_up sid)
  with assms(2) unsubscribe_wf [OF conc_inv_store [OF assms(2)]] show ?thesis by (simp add: conc_inv_def app_ok_store)
qed

lemma chan_recv_subs: "chan_recv ch s = Some (s', x) \<Longrightarrow> st_subs s' = st_subs s"
  by (auto simp: chan_recv_def split: option.splits list.splits)

lemma conc_step_serial:
  assumes "conc_step True idn c c'" "conc_inv c" "conc_serial c"
  shows "conc_serial c'"
  using assms(1)
proof (cases rule: conc_step.cases)
  case (poll_failed i err env backoff p ws b)
  then have "st_subs (pl_store p) = st_subs (cn_store c)"
    by (auto simp: cn_store_def pollOnce_def log_poll_def setError_def observe_poll_def Let_def split: if_splits)
  with poll_failed assms(3) show ?thesis by (simp add: conc_serial_def)
next
  case (put_locked i sessions labels ordS ordB ordC snap st)
  with assms(3) put_capture_wf(2) [OF put_ring_store_wf [OF conc_inv_store [OF assms(2)] put_locked(9)]] show ?thesis
    by (simp add: conc_serial_def)
next
  case put_indexed
  with conc_inv_store [OF assms(2)] show ?thesis by (simp add: store_wf_def put_ring_ok)
next
  case puts
  then show ?thesis using put_step_serial assms(2,3) by blast
next
  case (serves dp ep r s resp)
  with serve_subs [OF serves(4,3)] assms(3) conc_inv_store [OF assms(2)] show ?thesis
    by (auto simp: conc_serial_def cn_store_def)
next
  case (serve_crashed dp ep r)
  from serve_crashed have "map_order (dp_ordC dp)" by (simp add: wired_def)
  from serve_ok [OF wired_sink [OF serve_crashed(3)] this, of "cn_app c" ep r] serve_crashed assms(2) show ?thesis
    by (simp add: conc_inv_def returns_ok_def)
next
  case subscribes
  with assms(3) show ?thesis by (auto simp: conc_serial_def Subscribe_def Let_def)
next
  case (pushes ch st snap)
  with assms(3) show ?thesis by (simp add: conc_serial_def chan_recv_subs)
next
  case (hangs_up sid)
  have "fmlookup (st_subs (cn_store c)) sid = Some ch \<Longrightarrow> ch = sid" for ch
    using conc_inv_store [OF assms(2)] by (auto simp: store_wf_def hub_wf_def)
  then have "sid \<notin> set (unsent c)" using hangs_up(3) assms(3) by (fastforce simp: conc_serial_def fmlookup_dom_iff)
  moreover have "map_keys (st_subs (cn_store c)) - {sid} \<subseteq> map_keys (st_subs (unsubscribe sid (cn_store c)))"
    by (auto simp: unsubscribe_def split: option.splits)
  ultimately show ?thesis using hangs_up assms(3) by (auto simp: conc_serial_def)
qed

lemma conc_reach_inv: "conc_reach serial idn s0 c \<Longrightarrow> app_ok sink_ok s0 \<Longrightarrow> conc_inv c"
  by (induction rule: conc_reach.induct) (simp add: conc_inv_def, blast intro: conc_step_inv)

lemma conc_reach_serial:
  assumes "conc_reach True idn s0 c" "app_ok sink_ok s0"
  shows "conc_serial c"
  using assms
proof (induction rule: conc_reach.induct)
  case begins
  show ?case by (simp add: conc_serial_def)
next
  case (goes_on c c')
  then show ?case using conc_step_serial conc_reach_inv by blast
qed

section \<open>A poll completes\<close>

text \<open>What the program is when the sends of a \<open>Put\<close> have left the channels as \<open>chans\<close>.\<close>

definition finished :: "poll_input \<Rightarrow> (chan_ref, chan) fmap \<Rightarrow> 'd conc \<Rightarrow> 'd conc" where
  "finished i chans c = with_poller (observe_poll i None (setOK (in_ok i)
     ((app_poller (cn_app c))\<lparr>pl_store := (cn_store c)\<lparr>st_chans := chans\<rparr>\<rparr>))) (c\<lparr>cn_put := None\<rparr>)"

lemma sends_run:
  "cn_crash c = None \<Longrightarrow> cn_put c = Some (i, Sending snap refs) \<Longrightarrow> put_sends refs snap (st_chans (cn_store c)) = Some chans \<Longrightarrow>
   rtranclp put_step c (finished i chans c)"
proof (induction refs arbitrary: c)
  case Nil
  have "finished i chans c = with_poller (observe_poll i None (setOK (in_ok i) (app_poller (cn_app c)))) c\<lparr>cn_put := None\<rparr>"
  proof -
    have "chans = st_chans (cn_store c)" using Nil(3) by simp
    then show ?thesis by (cases c) (simp add: finished_def cn_defs)
  qed
  with poll_done [OF Nil(1,2)] show ?case by auto
next
  case (Cons ch refs)
  then obtain h where h: "try_send ch snap (st_chans (cn_store c)) = Some h" "put_sends refs snap h = Some chans"
    by (auto simp: bind_eq_Some_conv)
  let ?c = "with_store ((cn_store c)\<lparr>st_chans := h\<rparr>) c\<lparr>cn_put := Some (i, Sending snap refs)\<rparr>"
  have "put_step c ?c" by (rule put_sent [OF Cons.prems(1,2) h(1)])
  moreover have "rtranclp put_step ?c (finished i chans ?c)" using Cons.IH [of ?c] Cons.prems(1) h(2) by simp
  moreover have "finished i chans ?c = finished i chans c" by (simp add: finished_def cn_defs)
  ultimately show ?case by (metis converse_rtranclp_into_rtranclp)
qed

lemma put_sends_total:
  "store_wf s \<Longrightarrow> set refs \<subseteq> map_keys (st_subs s) \<Longrightarrow> \<exists>chans. put_sends refs snap (st_chans s) = Some chans"
proof (induction refs arbitrary: s)
  case (Cons ch refs)
  then obtain h where h: "try_send ch snap (st_chans s) = Some h" using subscribed_send by force
  from Cons.IH [of "s\<lparr>st_chans := h\<rparr>"] try_send_wf [OF Cons.prems(1) h] Cons.prems(2) h show ?case by simp
qed simp

lemma sends_finish:
  assumes "cn_put c = Some (i, Sending snap refs)" "conc_inv c" "conc_serial c"
  shows "\<exists>c'. rtranclp put_step c c' \<and> cn_put c' = None \<and> cn_crash c' = None"
proof -
  have alive: "cn_crash c = None" and refs: "set refs \<subseteq> map_keys (st_subs (cn_store c))"
    using assms(1,3) by (simp_all add: conc_serial_def unsent_def)
  from put_sends_total [OF conc_inv_store [OF assms(2)] refs] obtain chans
    where "put_sends refs snap (st_chans (cn_store c)) = Some chans" by blast
  from sends_run [OF alive assms(1) this] alive show ?thesis
    by (intro exI [of _ "finished i chans c"]) (simp add: finished_def with_poller_def)
qed

lemma put_finishes:
  assumes "conc_inv c" "conc_serial c"
  shows "\<exists>c'. rtranclp put_step c c' \<and> cn_put c' = None \<and> cn_crash c' = None"
proof -
  have alive: "cn_crash c = None" using assms(2) by (simp add: conc_serial_def)
  consider "cn_put c = None" | i snap refs where "cn_put c = Some (i, Sending snap refs)"
    | i snap refs where "cn_put c = Some (i, Persisting snap refs)"
    by (metis option.exhaust prod.exhaust put_phase.exhaust)
  then show ?thesis
  proof cases
    case 1
    with alive show ?thesis by blast
  next
    case 2
    then show ?thesis using sends_finish assms by blast
  next
    case (3 i snap refs)
    note step = put_saved [OF alive 3, of undefined]
    from sends_finish [OF _ put_step_inv [OF step assms(1)] put_step_serial [OF step assms]]
    show ?thesis using converse_rtranclp_into_rtranclp [of put_step, OF step] by fastforce
  qed
qed

text \<open>The steps of a poll that nothing comes between are the poll of \<open>Run_loop\<close>.\<close>

lemma puts_star: "rtranclp put_step c c' \<Longrightarrow> rtranclp (conc_step serial idn) c c'"
  by (rule mono_rtranclp [rule_format]) (auto intro: conc_step.puts)

lemma poll_in_steps:
  assumes "cn_crash c = None" "cn_put c = None" "pe_ops env = sqlite_ops sql" "map_order (pe_ordS env)" "map_order (pe_ordB env)"
    "map_order (pe_ordC env)" "Run_loop env [i] backoff (app_poller (cn_app c)) = Some (p, ws, b)"
  shows "rtranclp (conc_step serial idn) c (with_poller p c)"
proof (cases "in_polled i")
  case (Inl err)
  from conc_step.poll_failed [OF assms(1,2) this assms(7)] show ?thesis by blast
next
  case (Inr res)
  obtain ss ls where res: "in_polled i = Inr (ss, ls)" using Inr by (cases res) auto
  let ?snap = "Build (pe_ordS env) (pe_ordB env) (pl_cluster (app_poller (cn_app c))) (in_build i) ss ls"
  obtain s1 chans where put: "put_ring ?snap (cn_store c) = Some s1"
    "put_sends (put_capture (pe_ordC env) s1) ?snap (st_chans (put_persist (pe_ops env) ?snap s1)) = Some chans"
    "p = observe_poll i None (setOK (in_ok i)
       ((app_poller (cn_app c))\<lparr>pl_store := (put_persist (pe_ops env) ?snap s1)\<lparr>st_chans := chans\<rparr>\<rparr>))"
    using assms(7) res by (auto simp: pollOnce_def Put_def Let_def bind_eq_Some_conv cn_store_def split: if_splits)
  let ?refs = "put_capture (pe_ordC env) s1"
  let ?c1 = "with_store s1 c\<lparr>cn_put := Some (i, Persisting ?snap ?refs)\<rparr>"
  let ?c2 = "with_store (put_persist (sqlite_ops sql) ?snap (cn_store ?c1)) ?c1\<lparr>cn_put := Some (i, Sending ?snap ?refs)\<rparr>"
  have "conc_step serial idn c ?c1" by (rule conc_step.put_locked [OF assms(1,2) res assms(4-6) refl put(1)])
  moreover have "put_step ?c1 ?c2" by (rule put_saved) (simp_all add: assms(1))
  moreover have "rtranclp put_step ?c2 (finished i chans ?c2)" by (rule sends_run) (use assms(1,3) put(2) in simp_all)
  moreover have "finished i chans ?c2 = with_poller p c" using assms(2,3) put(3) by (simp add: finished_def cn_defs)
  ultimately have "rtranclp (conc_step serial idn) ?c1 (with_poller p c)" "conc_step serial idn c ?c1"
    using puts_star [of ?c1 "with_poller p c" serial idn] converse_rtranclp_into_rtranclp [of put_step ?c1 ?c2 "with_poller p c"] by simp_all
  then show ?thesis by (simp add: converse_rtranclp_into_rtranclp)
qed

lemma conc_reach_star: "conc_reach serial idn s0 c \<Longrightarrow> rtranclp (conc_step serial idn) c c' \<Longrightarrow> conc_reach serial idn s0 c'"
  by (rotate_tac, induction rule: rtranclp.induct) (auto intro: conc_reach.goes_on)

text \<open>So every history of \<open>running\<close> is a history of these steps too, in which no \<open>Put\<close> was interrupted.\<close>

lemma running_interleaved: "running base cfg idn s0 evs s \<Longrightarrow> conc_reach serial idn s0 (idle s)"
proof (induction rule: running.induct)
  case begins
  show ?case by (rule conc_reach.begins)
next
  case (polls evs s env sql ord raw backoff p ws b)
  have "rtranclp (conc_step serial idn) (idle s) (with_poller p (idle s))"
    by (rule poll_in_steps) (use polls.hyps in simp_all)
  moreover have "with_poller p (idle s) = idle (s\<lparr>app_poller := p\<rparr>)" by (simp add: with_poller_def idle_def)
  ultimately show ?case using conc_reach_star [OF polls.IH] by metis
next
  case (serves evs s dp ep r s' resp)
  have "conc_step serial idn (idle s) ((idle s)\<lparr>cn_app := s'\<rparr>)"
    by (rule conc_step.serves [OF _ serves.hyps(2)]) (use serves.hyps(3) in simp_all)
  with conc_reach.goes_on [OF serves.IH] show ?case by (auto simp: idle_def)
next
  case (pushes evs s ch st snap)
  have "conc_step serial idn (idle s) (with_store st (idle s))"
    by (rule conc_step.pushes) (use pushes.hyps(2) in \<open>simp_all add: cn_store_def\<close>)
  with conc_reach.goes_on [OF pushes.IH] show ?case by (auto simp: idle_def with_store_def)
next
  case (hangs_up evs s sid)
  have "conc_step serial idn (idle s) (with_store (unsubscribe sid (cn_store (idle s))) (idle s))"
    by (rule conc_step.hangs_up) simp_all
  with conc_reach.goes_on [OF hangs_up.IH] show ?case by (auto simp: idle_def with_store_def cn_store_def)
qed

section \<open>A stream that ends during a \<open>Put\<close>\<close>

text \<open>A stream has subscribed and a \<open>Put\<close> has copied the table: it has still to send to it.\<close>

lemma put_in_flight:
  assumes "app_ok sink_ok s0"
  shows "\<exists>c i snap ch refs. conc_reach serial idn s0 c \<and> cn_crash c = None \<and> cn_put c = Some (i, Persisting snap (ch # refs)) \<and>
    fmlookup (st_subs (cn_store c)) ch = Some ch"
proof -
  let ?s = "fst (Subscribe (pl_store (app_poller s0)))" and ?c1 = "with_store (fst (Subscribe (pl_store (app_poller s0)))) (idle s0)"
  have wf: "store_wf ?s" using assms Subscribe_wf [of "pl_store (app_poller s0)"] by (simp add: app_ok_def poller_wf_def)
  have r1: "conc_reach serial idn s0 ?c1"
    using conc_reach.goes_on [OF conc_reach.begins conc_step.subscribes [of "idle s0"]] by (simp add: cn_store_def)
  obtain i :: poll_input where i: "in_polled i = Inr (fmempty, fmempty)" by (metis poll_input.select_convs(1))
  define snap where "snap = Build key_order key_order (pl_cluster (app_poller (cn_app ?c1))) (in_build i) fmempty fmempty"
  obtain st where st: "put_ring snap ?s = Some st" using wf put_ring_ok by (auto simp: store_wf_def)
  have wf': "store_wf st" by (rule put_ring_store_wf [OF wf st])
  have "st_nextID (pl_store (app_poller s0)) \<in> map_keys (st_subs st)"
    using put_ring_hub(1) [OF st] by (simp add: Subscribe_def Let_def)
  then obtain ch refs where refs: "put_capture key_order st = ch # refs"
    using put_capture_wf(2) [OF wf' key_order.map_order_axioms] by (cases "put_capture key_order st") auto
  then have "ch \<in> map_keys (st_subs st)" using put_capture_wf(2) [OF wf' key_order.map_order_axioms] by auto
  then have sub: "fmlookup (st_subs st) ch = Some ch" using wf' by (force simp: store_wf_def hub_wf_def)
  let ?c2 = "with_store st ?c1\<lparr>cn_put := Some (i, Persisting snap (ch # refs))\<rparr>"
  have "conc_step serial idn ?c1 ?c2"
    using conc_step.put_locked [of ?c1 i fmempty fmempty key_order key_order key_order snap st serial idn] i st refs
    by (simp add: snap_def key_order.map_order_axioms)
  from conc_reach.goes_on [OF r1 this] sub show ?thesis
    by (intro exI [of _ ?c2] exI [of _ i] exI [of _ snap] exI [of _ ch] exI [of _ refs]) simp
qed

text \<open>When that stream may end now, every started program has a history in which the poller panics.\<close>

lemma stream_end_panics:
  assumes "app_ok sink_ok s0"
  shows "\<exists>c ch. conc_reach False idn s0 c \<and> cn_crash c = Some (ClosedSend ch)"
proof -
  from put_in_flight [OF assms, of False idn] obtain c i snap ch refs where c: "conc_reach False idn s0 c" "cn_crash c = None"
    "cn_put c = Some (i, Persisting snap (ch # refs))" "fmlookup (st_subs (cn_store c)) ch = Some ch" by blast
  let ?c3 = "with_store (unsubscribe ch (cn_store c)) c"
  have "conc_step False idn c ?c3" using conc_step.hangs_up [of c False ch idn] c(2) by simp
  note r3 = conc_reach.goes_on [OF c(1) this]
  let ?c4 = "with_store (put_persist (sqlite_ops undefined) snap (cn_store ?c3)) ?c3\<lparr>cn_put := Some (i, Sending snap (ch # refs))\<rparr>"
  have "conc_step False idn ?c3 ?c4" by (rule conc_step.puts, rule put_saved) (simp_all add: c(2,3))
  note r4 = conc_reach.goes_on [OF r3 this]
  have "try_send ch snap (st_chans (cn_store ?c4)) = None" using c(4) by (simp add: unsubscribe_def try_send_def)
  then have "conc_step False idn ?c4 (?c4\<lparr>cn_crash := Some (ClosedSend ch)\<rparr>)"
    by (intro conc_step.puts put_crashed [of _ i snap ch refs]) (simp_all add: c(2))
  from conc_reach.goes_on [OF r4 this] show ?thesis
    by (intro exI [of _ "?c4\<lparr>cn_crash := Some (ClosedSend ch)\<rparr>"] exI [of _ ch] conjI) simp_all
qed

end
