(* ===== verification/Mask_Idem.thy ===== *)
theory Mask_Idem
  imports Mask_Spec
begin

text \<open>
  Masking is idempotent on ASCII texts: each piece the lexer writes is read back as itself in
  front of the rest of the output (\<open>relex_step\<close>), so a second pass changes nothing. The
  restriction to ASCII comes from the dollar case, where the offset of the closing tag is
  counted in bytes. The last section has the texts on which part of a literal survives.
\<close>

section \<open>Idempotence\<close>

text \<open>The first rune of the output is the first rune of the text or a question mark.\<close>

lemma lex_step_out: "cs \<noteq> [] \<Longrightarrow> fst (lex_step p cs) \<noteq> [] \<and> hd (fst (lex_step p cs)) \<in> {hd cs, r_qmark}"
  by (cases cs) (auto simp: lex_step.simps lex_dollar_def Let_def split: option.splits)

lemma lex_head: "cs \<noteq> [] \<Longrightarrow> lex p cs \<noteq> [] \<and> hd (lex p cs) \<in> {hd cs, r_qmark}"
  using lex_step_out [of cs p] by (subst (1 2) lex.simps) auto

lemma lex_head_neq: "a \<noteq> r_qmark \<Longrightarrow> ds \<noteq> [] \<longrightarrow> hd ds \<noteq> a \<Longrightarrow> lex p ds \<noteq> [] \<Longrightarrow> hd (lex p ds) \<noteq> a"
  using lex_head [of ds p] by (cases "ds = []") auto

lemma block_len_end: "drop (block_len cs + 2) cs \<noteq> [] \<Longrightarrow> last (take (block_len cs + 2) cs) = r_slash"
  by (induction cs rule: block_len.induct) (auto split: if_splits)

lemma string_len_end: "drop (string_len cs) cs \<noteq> [] \<Longrightarrow> last (take (string_len cs) cs) = r_quote"
proof (induction cs rule: string_len.induct)
  case (3 c d cs)
  have "0 < string_len (d # cs)" by (cases cs) auto
  with 3 show ?case by (cases "string_len cs = 0") (auto split: if_splits)
qed auto

lemma num_len_next: "drop (num_len p cs) cs \<noteq> [] \<Longrightarrow> \<not> isDigit (hd (drop (num_len p cs) cs))"
  by (induction p cs rule: num_len.induct) (auto simp: num_char_def isDigit_def)

lemma ident_len_relex:
  "drop (ident_len ds) ds = [] \<and> X = [] \<or> drop (ident_len ds) ds \<noteq> [] \<Longrightarrow>
   ident_len (take (ident_len ds) ds @ X) = ident_len ds \<and>
   take (ident_len ds) (take (ident_len ds) ds @ X) = take (ident_len ds) ds"
  by (induction ds) auto

definition agree :: "rune option \<Rightarrow> rune option \<Rightarrow> rune list \<Rightarrow> bool" where
  "agree p p' cs \<longleftrightarrow> (cs \<noteq> [] \<and> isDigit (hd cs) \<longrightarrow> prev_word p = prev_word p')"

text \<open>The piece one step writes is read back as itself in front of the rest of the output.\<close>

definition relex_ok :: "rune option \<Rightarrow> rune option \<Rightarrow> rune list \<Rightarrow> bool" where
  "relex_ok p p' cs \<longleftrightarrow>
     (\<exists>out k. lex_step p cs = (out, k) \<and>
        lex_step p' (out @ lex (Some (last (take k cs))) (drop k cs)) = (out, length out) \<and>
        agree (Some (last (take k cs))) (Some (last out)) (drop k cs))"

lemma relex_okI:
  assumes "lex_step p cs = (out, k)"
    and "lex_step p' (out @ lex (Some (last (take k cs))) (drop k cs)) = (out, length out)"
    and "agree (Some (last (take k cs))) (Some (last out)) (drop k cs)"
  shows "relex_ok p p' cs"
  using assms unfolding relex_ok_def by blast

lemma not_isDigit_qmark [simp]: "\<not> isDigit r_qmark"
  by (simp add: isDigit_def)

lemma lex_step_qmark: "lex_step p (r_qmark # X) = ([r_qmark], 1)"
  by (simp add: lex_step.simps isDigit_def)

lemma relex_line:
  assumes "c = r_minus" "ds \<noteq> []" "hd ds = r_minus"
  shows "relex_ok p p' (c # ds)"
proof -
  let ?t = "takeWhile (\<lambda>c. c \<noteq> r_newline) (c # ds)" and ?r = "dropWhile (\<lambda>c. c \<noteq> r_newline) (c # ds)"
  have r: "?r = [] \<or> hd ?r = r_newline" using hd_dropWhile [of "\<lambda>c. c \<noteq> r_newline" "c # ds"] by blast
  then have X: "lex q ?r = [] \<or> hd (lex q ?r) = r_newline" for q
  proof (cases "?r = []")
    case False
    then obtain xs where "?r = r_newline # xs" using r by (cases ?r) auto
    then show ?thesis using lex_token [of q "[r_newline]" xs "[r_newline]"]
      by (simp add: lex_step.simps isDigit_def)
  qed simp
  have "takeWhile (\<lambda>c. c \<noteq> r_newline) ([r_minus, r_minus, r_qmark] @ lex q ?r) = [r_minus, r_minus, r_qmark]" for q
    by (rule takeWhile_prefix_all) (use X in auto)
  with assms show ?thesis
    by (intro relex_okI [where k = "length ?t"])
      (use r in \<open>auto simp: lex_step.simps agree_def isDigit_def dropWhile_eq_drop [symmetric]
        simp del: takeWhile.simps dropWhile.simps\<close>)
qed

lemma relex_block:
  assumes "c = r_slash" "ds \<noteq> []" "hd ds = r_star"
  shows "relex_ok p p' (c # ds)"
proof -
  obtain es where ds: "ds = r_star # es" using assms(2,3) by (cases ds) auto
  let ?k = "min (block_len es + 4) (Suc (length ds))"
  have "last (take ?k (c # ds)) = r_slash" if "drop ?k (c # ds) \<noteq> []"
  proof -
    have "drop (block_len es + 2) es \<noteq> []" using that by (simp add: ds)
    then have "last (take (block_len es + 2) es) = r_slash" "take (block_len es + 2) es \<noteq> []"
      using block_len_end by auto
    moreover from that have "?k = block_len es + 4" by (simp add: ds)
    moreover have "take (block_len es + 4) (c # ds) = c # r_star # take (block_len es + 2) es"
      by (simp add: ds eval_nat_numeral)
    ultimately show ?thesis by simp
  qed
  then show ?thesis
    by (intro relex_okI [where k = ?k]) (auto simp: ds assms(1) lex_step.simps agree_def)
qed

lemma relex_string:
  assumes "c = r_quote"
  shows "relex_ok p p' (c # ds)"
proof -
  have "0 < string_len ds" if "ds \<noteq> []" using that by (cases ds rule: string_len.cases) auto
  then have "last (take (Suc (string_len ds)) (c # ds)) = r_quote" if "drop (string_len ds) ds \<noteq> []"
    using that string_len_end [OF that] by (cases ds) auto
  then show ?thesis
    by (intro relex_okI [where k = "Suc (string_len ds)" and out = "[r_qmark]"])
      (auto simp: assms lex_step.simps agree_def lex_step_qmark prev_word_def isWord_def isDigit_def)
qed

lemma relex_ident:
  assumes "c = r_dquote"
  shows "relex_ok p p' (c # ds)"
proof -
  have "ident_len (take (ident_len ds) ds @ lex q (drop (ident_len ds) ds)) = ident_len ds \<and>
     take (ident_len ds) (take (ident_len ds) ds @ lex q (drop (ident_len ds) ds)) = take (ident_len ds) ds" for q
    by (rule ident_len_relex) (metis lex_Nil)
  moreover have "ident_len ds \<le> length ds" by (induction ds) auto
  ultimately show ?thesis
    by (intro relex_okI [where k = "Suc (ident_len ds)" and out = "c # take (ident_len ds) ds"])
      (auto simp: assms lex_step.simps agree_def)
qed

lemma relex_number:
  assumes "isDigit c" "\<not> prev_word p"
  shows "relex_ok p p' (c # ds)"
  using isWord_plain [OF isDigit_isWord [OF assms(1)]] num_len_next [of p "c # ds"] assms
  by (intro relex_okI [where k = "num_len p (c # ds)" and out = "[r_qmark]"])
    (auto simp: lex_step.simps agree_def lex_step_qmark simp del: num_len.simps)

lemma relex_plain:
  assumes "c \<noteq> r_quote" "c \<noteq> r_dollar" "c \<noteq> r_dquote"
    and "\<not> (c = r_minus \<and> ds \<noteq> [] \<and> hd ds = r_minus)" "\<not> (c = r_slash \<and> ds \<noteq> [] \<and> hd ds = r_star)"
    and "isDigit c \<longrightarrow> prev_word p" "agree p p' (c # ds)"
  shows "relex_ok p p' (c # ds)"
proof -
  let ?X = "lex (Some c) ds"
  have first: "lex_step p (c # ds) = ([c], 1)"
    unfolding lex_step.simps using assms(1-6) by argo
  have "\<not> (c = r_minus \<and> ?X \<noteq> [] \<and> hd ?X = r_minus)" "\<not> (c = r_slash \<and> ?X \<noteq> [] \<and> hd ?X = r_star)"
    using assms(4,5) lex_head_neq [of r_minus ds "Some c"] lex_head_neq [of r_star ds "Some c"] by auto
  moreover have "isDigit c \<longrightarrow> prev_word p'" using assms(6,7) by (simp add: agree_def)
  ultimately have "lex_step p' (c # ?X) = ([c], 1)"
    unfolding lex_step.simps using assms(1-3) by argo
  with first show ?thesis by (intro relex_okI [where k = 1 and out = "[c]"]) (simp_all add: agree_def)
qed

lemma tag_end:
  assumes "\<forall>c \<in> set body. c < 128" "list_all isWord w"
    and "str_index (string_of body) (string_of (dollar_tag w)) = Some k"
  shows "last (take (k + length (dollar_tag w)) body) = r_dollar"
proof -
  have "\<forall>c \<in> set body \<union> set (dollar_tag w). c < 128"
    using assms(1,2) by (auto simp: dollar_tag_def list_all_iff isWord_ascii)
  then have "str_index body (dollar_tag w) = Some k" using assms(3) by (simp only: str_index_ascii)
  then have "take (length (dollar_tag w)) (drop k body) = dollar_tag w" by (simp add: str_index_Some)
  then have "take (k + length (dollar_tag w)) body = take k body @ dollar_tag w" by (simp add: take_add)
  then show ?thesis by (simp add: dollar_tag_def)
qed


lemma relex_quoted:
  assumes "\<forall>c \<in> set ds. c < 128" "drop (length (tag_run ds)) ds = r_dollar # body"
  shows "relex_ok p p' (r_dollar # ds)"
proof -
  let ?w = "tag_run ds"
  have ds: "ds = ?w @ r_dollar # body"
    using assms(2) by (metis append_take_drop_id tag_run_def takeWhile_eq_take)
  have w: "list_all isWord ?w" using set_takeWhileD by (fastforce simp: list_all_iff tag_run_def)
  have len: "length ?w < length ds" using assms(2) by (metis drop_all list.distinct(1) not_le_imp_less)
  show ?thesis
  proof (cases "str_index (string_of body) (string_of (dollar_tag ?w))")
    case None
    then have "lex_step p (r_dollar # ds) = ([r_qmark], Suc (length ds))"
      using assms(2) len by (simp add: lex_step.simps lex_dollar_def dollar_tag_def Let_def)
    then show ?thesis by (rule relex_okI) (simp_all add: lex_step_qmark agree_def)
  next
    case (Some e)
    let ?k = "length ?w + 2 + e + (length ?w + 2)"
    from Some have "lex_step p (r_dollar # ds) = ([r_qmark], ?k)"
      using assms(2) len by (simp add: lex_step.simps lex_dollar_def dollar_tag_def Let_def)
    moreover have "last (take ?k (r_dollar # ds)) = r_dollar"
    proof -
      let ?pre = "r_dollar # ?w @ [r_dollar]" and ?n = "e + length (dollar_tag ?w)"
      have k: "?k = length ?pre + ?n" by (simp add: dollar_tag_def)
      have "r_dollar # ds = ?pre @ body" using ds by simp
      then have "take ?k (r_dollar # ds) = take (length ?pre + ?n) (?pre @ body)" unfolding k by (rule arg_cong)
      also have "\<dots> = ?pre @ take ?n body" by (simp add: take_add)
      finally have split: "take ?k (r_dollar # ds) = ?pre @ take ?n body" .
      have "set body \<subseteq> set ds" by (subst ds) auto
      then have "last (take ?n body) = r_dollar" using tag_end [OF _ w Some] assms(1) by blast
      then show ?thesis unfolding split by (simp only: last_append split: if_split) simp
    qed
    ultimately show ?thesis
      by (intro relex_okI [where out = "[r_qmark]" and k = ?k])
        (simp_all add: lex_step_qmark agree_def prev_word_def isWord_def isDigit_def)
  qed
qed


text \<open>A dollar, digits \<open>d\<close>, further tag runes \<open>v\<close> and no closing dollar: a parameter.\<close>

definition param_parts :: "rune list \<Rightarrow> rune list \<Rightarrow> rune list \<Rightarrow> bool" where
  "param_parts d v more \<longleftrightarrow>
     list_all isDigit d \<and> list_all isWord v \<and> (v \<noteq> [] \<longrightarrow> \<not> isDigit (hd v)) \<and>
     (more \<noteq> [] \<longrightarrow> \<not> isWord (hd more) \<and> hd more \<noteq> r_dollar)"

lemma lex_step_param:
  assumes "param_parts d v more"
  shows "lex_step p (r_dollar # d @ v @ more) = (r_dollar # d, Suc (length d))"
proof -
  have d: "\<forall>c \<in> set d. isDigit c" and v: "\<forall>c \<in> set v. isWord c"
    and more: "more = [] \<or> \<not> isWord (hd more) \<and> hd more \<noteq> r_dollar"
    and v_hd: "v \<noteq> [] \<longrightarrow> \<not> isDigit (hd v)"
    using assms by (auto simp: param_parts_def list_all_iff)
  have dv: "\<forall>c \<in> set (d @ v). c \<noteq> r_dollar \<and> isWord c"
    using d v isDigit_isWord isWord_plain by (metis Un_iff set_append)
  have tag: "tag_run (d @ v @ more) = d @ v"
    unfolding tag_run_def using takeWhile_prefix_all [OF dv, of more] more by auto
  have run: "takeWhile isDigit (d @ v @ more) = d"
    by (rule takeWhile_prefix_all [OF d]) (use more v_hd isDigit_isWord in \<open>cases v; auto\<close>)
  show ?thesis using more by (auto simp: lex_step.simps lex_dollar_def Let_def tag run)
qed

lemma relex_param_parts:
  assumes "param_parts d v more"
  shows "relex_ok p p' (r_dollar # d @ v @ more)"
proof -
  let ?q = "Some (last (r_dollar # d))" and ?q' = "if v = [] then Some (last (r_dollar # d)) else Some (last v)"
  have X: "lex ?q (v @ more) = v @ lex ?q' more"
    using assms lex_words [of v ?q more] by (auto simp: param_parts_def)
  have "param_parts d v (lex ?q' more)"
  proof (cases "more = []")
    case False
    moreover have "\<not> isWord r_qmark" by (simp add: isWord_def)
    ultimately show ?thesis using assms lex_head [OF False, of ?q'] unfolding param_parts_def by auto
  qed (use assms in \<open>simp add: param_parts_def\<close>)
  from lex_step_param [OF this, of p']
  have "lex_step p' ((r_dollar # d) @ lex ?q (v @ more)) = (r_dollar # d, length (r_dollar # d))"
    unfolding X by simp
  moreover have "take (Suc (length d)) (r_dollar # d @ v @ more) = r_dollar # d" by simp
  moreover have "drop (Suc (length d)) (r_dollar # d @ v @ more) = v @ more" by simp
  ultimately show ?thesis using lex_step_param [OF assms, of p]
    by (intro relex_okI [where out = "r_dollar # d" and k = "Suc (length d)"]) (simp_all only: agree_def simp_thms)
qed

lemma relex_param:
  assumes "drop (length (tag_run ds)) ds = [] \<or> hd (drop (length (tag_run ds)) ds) \<noteq> r_dollar"
  shows "relex_ok p p' (r_dollar # ds)"
proof -
  let ?w = "tag_run ds" and ?more = "drop (length (tag_run ds)) ds"
  let ?d = "takeWhile isDigit ?w" and ?v = "dropWhile isDigit ?w"
  have more: "?more = dropWhile (\<lambda>c. c \<noteq> r_dollar \<and> isWord c) ds" by (simp add: tag_run_def dropWhile_eq_drop)
  have "ds = ?w @ ?more" unfolding more by (simp add: tag_run_def)
  then have ds: "ds = ?d @ ?v @ ?more" by (metis append_assoc takeWhile_dropWhile_id)
  have "param_parts ?d ?v ?more"
    using assms hd_dropWhile [of isDigit ?w] hd_dropWhile [of "\<lambda>c. c \<noteq> r_dollar \<and> isWord c" ds]
    unfolding more
    by (auto simp: param_parts_def list_all_iff tag_run_def dest!: set_takeWhileD set_dropWhileD)
  then show ?thesis by (subst ds) (rule relex_param_parts)
qed

lemma relex_step:
  assumes "\<forall>c \<in> set cs. c < 128" "cs \<noteq> []" "agree p p' cs"
  shows "relex_ok p p' cs"
proof -
  obtain c ds where cs: "cs = c # ds" using assms(2) by (cases cs) auto
  have dollar: "relex_ok p p' (r_dollar # ds)"
  proof (cases "drop (length (tag_run ds)) ds")
    case (Cons x body)
    then show ?thesis using assms(1) cs relex_quoted [of ds body] relex_param [of ds]
      by (cases "x = r_dollar") simp_all
  qed (simp add: relex_param)
  show ?thesis
    using dollar relex_line [of c ds] relex_block [of c ds] relex_string [of c] relex_ident [of c]
      relex_number [of c p] relex_plain [of c ds p p'] assms(3)
    unfolding cs by blast
qed

lemma lex_lex:
  "\<forall>c \<in> set cs. c < 128 \<Longrightarrow> agree p p' cs \<Longrightarrow> lex p' (lex p cs) = lex p cs"
proof (induction p cs arbitrary: p' rule: lex.induct)
  case (1 p cs)
  show ?case
  proof (cases "cs = []")
    case False
    obtain out k where step: "lex_step p cs = (out, k)" by fastforce
    let ?q = "Some (last (take k cs))" and ?rest = "drop k cs"
    from relex_step [OF 1(2) False 1(3)] step
    have again: "lex_step p' (out @ lex ?q ?rest) = (out, length out)" and agr: "agree ?q (Some (last out)) ?rest"
      by (auto simp: relex_ok_def)
    have out: "out \<noteq> []" using lex_step_out [OF False, of p] step by simp
    have "lex p cs = out @ lex ?q ?rest" using False step by (subst lex.simps) simp
    moreover have "lex p' (out @ lex ?q ?rest) = out @ lex (Some (last out)) (lex ?q ?rest)"
      using again out by (rule lex_token)
    moreover have "lex (Some (last out)) (lex ?q ?rest) = lex ?q ?rest"
      using 1(1) [OF False] 1(2) agr step by (auto dest: in_set_dropD)
    ultimately show ?thesis by simp
  qed simp
qed

lemma lex_step_set: "set (fst (lex_step p cs)) \<subseteq> set cs \<union> {r_minus, r_qmark, r_slash, r_star}"
  by (cases cs) (auto simp: lex_step.simps lex_dollar_def Let_def split: option.splits
      dest: set_takeWhileD in_set_takeD)

lemma lex_set: "set (lex p cs) \<subseteq> set cs \<union> {r_minus, r_qmark, r_slash, r_star}"
proof (induction p cs rule: lex.induct)
  case (1 p cs)
  show ?case
  proof (cases "cs = []")
    case False
    from 1 [OF False] lex_step_set [of p cs] False show ?thesis
      by (subst lex.simps) (auto dest: in_set_dropD)
  qed simp
qed

text \<open>C38: Masking an ASCII text twice gives what masking it once gives, so a text that passes
  the masking source again, or that was masked before it was stored, is not changed.\<close>

theorem Mask_idempotent:
  assumes "ascii q"
  shows "Mask (Mask q) = Mask q"
proof -
  let ?r = "map byte_val q"
  have ascii: "\<forall>c \<in> set ?r. c < 128" using assms by (simp add: ascii_def)
  then have "\<forall>c \<in> set (lex None ?r). c < 128" using lex_set [of None ?r] by auto
  then have "\<forall>c \<in> set (lex None ?r). valid_rune c" by (auto simp: valid_rune_def)
  moreover have "lex None (lex None ?r) = lex None ?r" using ascii by (rule lex_lex) (simp add: agree_def)
  ultimately show ?thesis using assms by (simp add: Mask_lex runes_of_ascii)
qed

theorem Mask_idempotent_witness:
  "ascii ''SELECT 1 -- x'' \<and> Mask (Mask ''SELECT 1 -- x'') = Mask ''SELECT 1 -- x''"
  using Mask_idempotent [of "''SELECT 1 -- x''"] by (simp add: ascii_def)

section \<open>Literals that survive\<close>

lemma lex_plain:
  assumes "\<not> isWord c" "c \<notin> {r_minus, r_slash, r_quote, r_dollar, r_dquote}"
  shows "lex p (c # cs) = c # lex (Some c) cs"
proof -
  have "\<not> isDigit c" using assms(1) isDigit_isWord by blast
  then show ?thesis using lex_token [of p "[c]" cs "[c]"] assms(2) by (simp add: lex_step.simps)
qed

lemma lex_last_quote: "lex q [r_quote] = [r_qmark]"
  using lex_token [of q "[r_quote]" "[]" "[r_qmark]"] by (simp add: lex_step.simps)

lemma Mask_valid: "\<forall>r \<in> set rs. valid_rune r \<Longrightarrow> Mask (string_of rs) = string_of (lex None rs)"
  by (simp add: Mask_lex)

lemma words_valid: "list_all isWord w \<Longrightarrow> \<forall>r \<in> set w. valid_rune r"
  by (auto simp: list_all_iff isWord_def valid_rune_def)

lemma demo_word:
  "list_all isWord [115, 51]" "[115, 51] \<noteq> ([] :: rune list)" "\<not> isDigit (hd [115, 51])"
  by (simp_all add: isWord_def isDigit_def)

text \<open>In the escape string literal \<open>E'\' w'\<close> the backslash quotes the second quote, so
  \<open>w\<close> is inside the literal; the lexer ends the literal there and \<open>w\<close>, a word without
  leading digit, stays in the text.\<close>

theorem Mask_escape_string_leaks:
  assumes "list_all isWord w" "w \<noteq> []" "\<not> isDigit (hd w)"
  shows "Mask (string_of ([69, r_quote, 92, r_quote, 32] @ w @ [r_quote])) =
      string_of ([69, r_qmark, 32] @ w @ [r_qmark])"
proof -
  have E: "lex None (69 # cs) = 69 # lex (Some 69) cs" for cs
    by (rule lex_word_rune) (simp_all add: isWord_def isDigit_def)
  have str: "lex (Some 69) ([r_quote, 92, r_quote] @ (32 # cs)) = [r_qmark] @ lex (Some r_quote) (32 # cs)" for cs
    using lex_token [of "Some 69" "[r_quote, 92, r_quote]" "32 # cs" "[r_qmark]"]
    by (simp add: lex_step.simps)
  have "lex None (69 # [r_quote, 92, r_quote] @ 32 # w @ [r_quote]) = [69, r_qmark, 32] @ w @ [r_qmark]"
    unfolding E str using assms by (simp add: lex_plain isWord_def [of 32] lex_words lex_last_quote)
  moreover have "\<forall>r \<in> set ([69, r_quote, 92, r_quote, 32] @ w @ [r_quote]). valid_rune r"
    using words_valid [OF assms(1)] by (auto simp: valid_rune_def)
  ultimately show ?thesis by (simp only: Mask_valid) simp
qed

theorem Mask_escape_string_leaks_witness:
  "list_all isWord [115, 51] \<and>
   Mask (string_of ([69, r_quote, 92, r_quote, 32] @ [115, 51] @ [r_quote])) =
      string_of ([69, r_qmark, 32] @ [115, 51] @ [r_qmark])"
  using demo_word(1) Mask_escape_string_leaks [OF demo_word] by blast

text \<open>PostgreSQL nests block comments; the lexer ends \<open>/*/**/ w */\<close> at the first
  \<open>*/\<close>, and the word \<open>w\<close> of the outer comment stays in the text.\<close>

theorem Mask_nested_comment_leaks:
  assumes "list_all isWord w" "w \<noteq> []" "\<not> isDigit (hd w)"
  shows "Mask (string_of ([r_slash, r_star, r_slash, r_star, r_star, r_slash, 32] @ w @ [r_star, r_slash])) =
      string_of ([r_slash, r_star, r_qmark, r_star, r_slash, 32] @ w @ [r_star, r_slash])"
proof -
  have com: "lex None ([r_slash, r_star, r_slash, r_star, r_star, r_slash] @ 32 # cs) =
      [r_slash, r_star, r_qmark, r_star, r_slash] @ lex (Some r_slash) (32 # cs)" for cs
    using lex_token [of None "[r_slash, r_star, r_slash, r_star, r_star, r_slash]" "32 # cs"
        "[r_slash, r_star, r_qmark, r_star, r_slash]"]
    by (simp add: lex_step.simps)
  have slash: "lex q [r_slash] = [r_slash]" for q
    using lex_token [of q "[r_slash]" "[]" "[r_slash]"] by (simp add: lex_step.simps isDigit_def)
  have "lex None ([r_slash, r_star, r_slash, r_star, r_star, r_slash] @ 32 # w @ [r_star, r_slash]) =
      [r_slash, r_star, r_qmark, r_star, r_slash, 32] @ w @ [r_star, r_slash]"
    unfolding com using assms by (simp add: lex_plain isWord_def [of 32] isWord_def [of r_star] lex_words slash)
  moreover have "\<forall>r \<in> set ([r_slash, r_star, r_slash, r_star, r_star, r_slash, 32] @ w @ [r_star, r_slash]). valid_rune r"
    using words_valid [OF assms(1)] by (auto simp: valid_rune_def)
  ultimately show ?thesis by (simp only: Mask_valid) simp
qed

theorem Mask_nested_comment_leaks_witness:
  "list_all isWord [115, 51] \<and>
   Mask (string_of ([r_slash, r_star, r_slash, r_star, r_star, r_slash, 32] @ [115, 51] @ [r_star, r_slash])) =
      string_of ([r_slash, r_star, r_qmark, r_star, r_slash, 32] @ [115, 51] @ [r_star, r_slash])"
  using demo_word(1) Mask_nested_comment_leaks [OF demo_word] by blast

text \<open>After the dollar-quoted string \<open>$$\<close>, two runes of two bytes each, \<open>$$\<close> the lexer goes
  on two runes too far, because it adds a byte offset to a rune index: it skips the comma and
  the opening quote of the next literal, whose body \<open>w\<close> stays in the text.\<close>

theorem Mask_dollar_offset_leaks:
  assumes "list_all isWord w" "w \<noteq> []" "\<not> isDigit (hd w)"
  shows "Mask (string_of ([r_dollar, r_dollar, 233, 233, r_dollar, r_dollar, 44, r_quote] @ w @ [r_quote])) =
      string_of ([r_qmark] @ w @ [r_qmark])"
proof -
  let ?pre = "[r_dollar, r_dollar, 233, 233, r_dollar, r_dollar, 44, r_quote]"
  have "str_index (string_of [233, 233, r_dollar, r_dollar, 44, r_quote]) (string_of [r_dollar, r_dollar]) = Some 4"
    by code_simp
  from str_index_append [OF this]
  have idx: "str_index (string_of ([233, 233, r_dollar, r_dollar, 44, r_quote] @ cs)) (string_of [r_dollar, r_dollar])
      = Some 4" for cs unfolding string_of_append by blast
  have "lex_step None (?pre @ cs) = ([r_qmark], length ?pre)" for cs
    using idx [of cs] by (simp add: lex_step.simps lex_dollar_def tag_run_def Let_def)
  then have "lex None (?pre @ cs) = [r_qmark] @ lex (Some r_quote) cs" for cs
    using lex_token [of None ?pre cs "[r_qmark]"] by simp
  then have "lex None (?pre @ w @ [r_quote]) = [r_qmark] @ w @ [r_qmark]"
    using assms by (simp add: lex_words lex_last_quote)
  moreover have "\<forall>r \<in> set (?pre @ w @ [r_quote]). valid_rune r"
    using words_valid [OF assms(1)] by (auto simp: valid_rune_def)
  ultimately show ?thesis by (simp only: Mask_valid)
qed

theorem Mask_dollar_offset_leaks_witness:
  "list_all isWord [115, 51] \<and>
   Mask (string_of ([r_dollar, r_dollar, 233, 233, r_dollar, r_dollar, 44, r_quote] @ [115, 51] @ [r_quote])) =
      string_of ([r_qmark] @ [115, 51] @ [r_qmark])"
  using demo_word(1) Mask_dollar_offset_leaks [OF demo_word] by blast

text \<open>Numeric literals in the forms PostgreSQL knows since version 16 are masked only up to the
  first character that is not decimal: the digits of a hexadecimal literal and those after an
  underscore stay in the text.\<close>

theorem Mask_number_forms_leak:
  "Mask ''0xC0FFEE'' = ''?xC0FFEE''" "Mask ''4_111_111'' = ''?_111_111''"
  by code_simp+

end
