(* ===== verification/Sql_Order.thy ===== *)
theory Sql_Order
  imports Prelude
begin

text \<open>
  \<open>ORDER BY\<close>: the rows of a result come in an order the engine is free to choose (the argument
  \<open>scan\<close> of a query, any rearrangement) and are then sorted; rows that compare as equal may thus
  come in any order. How the server compares texts is its collation, of which a client may rely
  on being a total order (locale \<open>collation\<close>); the bytewise one is an instance.
\<close>

definition row_order :: "('r list \<Rightarrow> 'r list) \<Rightarrow> bool" where
  "row_order scan \<longleftrightarrow> (\<forall>rows. mset (scan rows) = mset rows)"

primrec place_by :: "('r \<Rightarrow> 'r \<Rightarrow> bool) \<Rightarrow> 'r \<Rightarrow> 'r list \<Rightarrow> 'r list" where
  "place_by le r [] = [r]"
| "place_by le r (q # qs) = (if le r q then r # q # qs else q # place_by le r qs)"

definition order_by :: "('r \<Rightarrow> 'r \<Rightarrow> bool) \<Rightarrow> 'r list \<Rightarrow> 'r list" where
  "order_by le rows = foldr (place_by le) rows []"

lemma order_by_simps [simp]: "order_by le [] = []" "order_by le (r # rows) = place_by le r (order_by le rows)"
  by (simp_all add: order_by_def)

lemma mset_place_by [simp]: "mset (place_by le r rows) = add_mset r (mset rows)"
  by (induction rows) auto

lemma mset_order_by [simp]: "mset (order_by le rows) = mset rows"
  by (induction rows) auto

lemma mset_ordered: "row_order scan \<Longrightarrow> mset (order_by le (scan rows)) = mset rows"
  by (simp add: row_order_def)

lemma sorted_order_by:
  assumes "\<And>a b. le a b \<or> le b a" "\<And>a b c. le a b \<Longrightarrow> le b c \<Longrightarrow> le a c"
  shows "sorted_wrt le (order_by le rows)"
proof -
  have set: "set (place_by le r xs) = insert r (set xs)" for r xs by (induction xs) auto
  have "sorted_wrt le (place_by le r xs)" if "sorted_wrt le xs" for r xs
    using that
  proof (induction xs)
    case (Cons q qs)
    show ?case
    proof (cases "le r q")
      case True
      with Cons.prems assms(2) [OF True] show ?thesis by auto
    next
      case False
      with assms(1) [of r q] Cons show ?thesis by (auto simp: set)
    qed
  qed simp
  then show ?thesis by (induction rows) simp_all
qed

lemma row_order_id [simp]: "row_order (\<lambda>rows. rows)" "row_order rev"
  by (simp_all add: row_order_def)

section \<open>Collations\<close>

locale collation =
  fixes le :: "string \<Rightarrow> string \<Rightarrow> bool"
  assumes le_total: "le a b \<or> le b a"
    and le_trans: "le a b \<Longrightarrow> le b c \<Longrightarrow> le a c"
    and le_antisym: "le a b \<Longrightarrow> le b a \<Longrightarrow> a = b"

text \<open>The collation \<open>C\<close> compares bytes.\<close>

definition bytes_le :: "string \<Rightarrow> string \<Rightarrow> bool" where
  "bytes_le a b = lexordp_eq (map of_char a :: nat list) (map of_char b)"

interpretation bytes: collation bytes_le
proof
  fix a b c :: string
  show "bytes_le a b \<or> bytes_le b a" by (simp add: bytes_le_def lexordp_eq_linear)
  show "bytes_le a c" if "bytes_le a b" "bytes_le b c" using that lexordp_eq_trans unfolding bytes_le_def by blast
  show "a = b" if "bytes_le a b" "bytes_le b a"
  proof -
    from that have "map of_char a = (map of_char b :: nat list)" unfolding bytes_le_def by (rule lexordp_eq_antisym)
    then show ?thesis by (simp add: inj_map_eq_map inj_def)
  qed
qed

end
