(* ===== verification/Views.thy ===== *)
theory Views
  imports Pg Sql_Order
begin

text \<open>
  The meaning of the SQL statements of \<open>internal/pg/queries.go\<close> on the system views they read:
  \<open>pg_stat_activity\<close> and \<open>pg_locks\<close> are lists of rows, \<open>pg_blocking_pids\<close>, the catalog
  lookup behind \<open>regclass\<close> and \<open>pg_backend_pid()\<close> belong to the server and are fields of
  \<open>cluster_views\<close>. With them \<open>Client_Snapshot\<close> is shown to report exactly the client backends
  of the cluster, who blocks them, since when they wait, and on what.
\<close>

section \<open>System views\<close>

record activity =
  ac_pid :: int
  ac_usename :: "string option"
  ac_application_name :: "string option"
  ac_client_addr :: "string option"
  ac_state :: "string option"
  ac_wait_event_type :: "string option"
  ac_wait_event :: "string option"
  ac_backend_type :: "string option"
  ac_xact_start :: "time option"
  ac_query_start :: "time option"
  ac_query :: "string option"

text \<open>A lock of a prepared transaction has no process.\<close>

record pg_lock =
  lc_locktype :: string
  lc_database :: "int option"
  lc_relation :: "int option"
  lc_page :: "int option"
  lc_tuple :: "int option"
  lc_virtualxid :: "string option"
  lc_transactionid :: "int option"
  lc_classid :: "int option"
  lc_objid :: "int option"
  lc_objsubid :: "int option"
  lc_pid :: "int option"
  lc_mode :: string
  lc_granted :: bool
  lc_waitstart :: "time option"

record cluster_views =
  cv_activity :: "activity list"
  cv_locks :: "pg_lock list"
  cv_blocking :: "int \<Rightarrow> 32 word list"
  cv_regclass :: "int \<Rightarrow> string"
  cv_me :: int

section \<open>Queries\<close>

text \<open>The subquery for the earliest wait: \<open>min\<close> ignores nulls and is null on no rows.\<close>

definition wait_start :: "cluster_views \<Rightarrow> int \<Rightarrow> time option" where
  "wait_start v pid =
     (case List.map_filter lc_waitstart (filter (\<lambda>l. lc_pid l = Some pid \<and> \<not> lc_granted l) (cv_locks v)) of
        [] \<Rightarrow> None
      | t # ts \<Rightarrow> Some (fold min ts t))"

definition client_backend :: "cluster_views \<Rightarrow> activity \<Rightarrow> bool" where
  "client_backend v a \<longleftrightarrow> ac_backend_type a = Some ''client backend'' \<and> ac_pid a \<noteq> cv_me v"

definition activity_row :: "session_query \<Rightarrow> cluster_views \<Rightarrow> activity \<Rightarrow> session_row" where
  "activity_row q v a =
     \<lparr>rw_PID = ac_pid a, rw_usename = ac_usename a, rw_appName = ac_application_name a, rw_clientAddr = ac_client_addr a,
      rw_state = ac_state a, rw_wet = ac_wait_event_type a, rw_we = ac_wait_event a, rw_backend = ac_backend_type a,
      rw_xactStart = ac_xact_start a, rw_queryStart = ac_query_start a,
      rw_waitStart = (case q of snapshotSQL \<Rightarrow> wait_start v (ac_pid a) | snapshotSQLNoWaitstart \<Rightarrow> None),
      rw_query = ac_query a, rw_blockedBy = cv_blocking v (ac_pid a)\<rparr>"

definition session_rows :: "session_query \<Rightarrow> cluster_views \<Rightarrow> session_row list" where
  "session_rows q v = map (activity_row q v) (filter (client_backend v) (cv_activity v))"

text \<open>The self join of \<open>edgeLabelsSQL\<close>: \<open>IS NOT DISTINCT FROM\<close> compares null with null as
  equal, \<open><>\<close> on a null process id does not hold.\<close>

definition same_object :: "pg_lock \<Rightarrow> pg_lock \<Rightarrow> bool" where
  "same_object w b \<longleftrightarrow>
     lc_locktype w = lc_locktype b \<and> lc_database w = lc_database b \<and> lc_relation w = lc_relation b \<and>
     lc_page w = lc_page b \<and> lc_tuple w = lc_tuple b \<and> lc_virtualxid w = lc_virtualxid b \<and>
     lc_transactionid w = lc_transactionid b \<and> lc_classid w = lc_classid b \<and> lc_objid w = lc_objid b \<and>
     lc_objsubid w = lc_objsubid b"

definition join_row :: "cluster_views \<Rightarrow> pg_lock \<Rightarrow> pg_lock \<Rightarrow> label_row option" where
  "join_row v w b =
     (case (lc_pid w, lc_pid b) of
        (Some p, Some q) \<Rightarrow>
          if same_object w b \<and> p \<noteq> q \<and> \<not> lc_granted w \<and> lc_granted b
          then Some \<lparr>lr_waiter = p, lr_blocker = q, lr_lockType = lc_locktype w, lr_wMode = lc_mode w,
                     lr_bMode = lc_mode b, lr_relation = map_option (cv_regclass v) (lc_relation w)\<rparr>
          else None
      | _ \<Rightarrow> None)"

definition edgeLabelsSQL :: "cluster_views \<Rightarrow> label_row list" where
  "edgeLabelsSQL v = List.map_filter (\<lambda>(w, b). join_row v w b) [(w, b). w \<leftarrow> cv_locks v, b \<leftarrow> cv_locks v]"

text \<open>\<open>locksSQL\<close>: \<open>ORDER BY object, l.granted DESC, l.mode\<close>, where true is greater than false and
  texts compare by the collation \<open>le\<close> of the server.\<close>

definition locks_order :: "(string \<Rightarrow> string \<Rightarrow> bool) \<Rightarrow> lock_row \<Rightarrow> lock_row \<Rightarrow> bool" where
  "locks_order le a b \<longleftrightarrow>
     (if lk_Object a \<noteq> lk_Object b then le (lk_Object a) (lk_Object b)
      else if lk_Granted a \<noteq> lk_Granted b then lk_Granted a
      else le (lk_Mode a) (lk_Mode b))"

definition locksSQL ::
  "(string \<Rightarrow> string \<Rightarrow> bool) \<Rightarrow> (lock_row list \<Rightarrow> lock_row list) \<Rightarrow> cluster_views \<Rightarrow> lock_row list" where
  "locksSQL le scan v = order_by (locks_order le) (scan (List.map_filter
     (\<lambda>l. case lc_pid l of
            None \<Rightarrow> None
          | Some p \<Rightarrow>
              if p \<noteq> cv_me v
              then Some \<lparr>lk_LockType = lc_locktype l,
                         lk_Object = (case lc_relation l of Some oid \<Rightarrow> cv_regclass v oid | None \<Rightarrow> lc_locktype l),
                         lk_Mode = lc_mode l, lk_Granted = lc_granted l, lk_PID = p\<rparr>
              else None) (cv_locks v)))"

text \<open>\<open>hotObjectsSQL\<close>: group by the name of the relation, keep the groups with a waiter;
  \<open>ORDER BY waiters DESC, holders DESC\<close>.\<close>

definition lock_object :: "cluster_views \<Rightarrow> pg_lock \<Rightarrow> string option" where
  "lock_object v l = map_option (cv_regclass v) (lc_relation l)"

definition hot_count :: "cluster_views \<Rightarrow> string \<Rightarrow> hot_object" where
  "hot_count v object =
     (let own = filter (\<lambda>l. lock_object v l = Some object) (cv_locks v)
      in \<lparr>ho_Object = object, ho_Waiters = int (length (filter (\<lambda>l. \<not> lc_granted l) own)),
          ho_Holders = int (length (filter lc_granted own))\<rparr>)"

definition hot_order :: "hot_object \<Rightarrow> hot_object \<Rightarrow> bool" where
  "hot_order a b \<longleftrightarrow> (if ho_Waiters a \<noteq> ho_Waiters b then ho_Waiters b < ho_Waiters a else ho_Holders b \<le> ho_Holders a)"

definition hotObjectsSQL :: "(hot_object list \<Rightarrow> hot_object list) \<Rightarrow> cluster_views \<Rightarrow> hot_object list" where
  "hotObjectsSQL scan v =
     order_by hot_order (scan (filter (\<lambda>h. ho_Waiters h > 0)
       (map (hot_count v) (remdups (List.map_filter (lock_object v) (cv_locks v))))))"

text \<open>A query without an error returns the rows of its meaning, in an order of the server's
  choice, each of which scans.\<close>

definition answers :: "'r rows \<Rightarrow> 'r list \<Rightarrow> bool" where
  "answers q rows \<longleftrightarrow> (\<exists>out. q = Inr (map Inr out, None) \<and> mset out = mset rows)"

section \<open>What the client reports\<close>

lemma map_filter_set: "x \<in> set (List.map_filter f xs) \<longleftrightarrow> (\<exists>y \<in> set xs. f y = Some x)"
  by (force simp: List.map_filter_def)

lemma last_row_None: "last_row key val rows k = None \<longleftrightarrow> (\<forall>r \<in> set rows. key r \<noteq> k)"
  by (auto simp: last_row_def Let_def filter_empty_conv)

lemma last_row_Some: "last_row key val rows k = Some x \<Longrightarrow> \<exists>r \<in> set rows. key r = k \<and> x = val r"
proof -
  let ?own = "filter (\<lambda>r. key r = k) rows"
  assume "last_row key val rows k = Some x"
  then have "?own \<noteq> []" "x = val (last ?own)" by (auto simp: last_row_def Let_def split: if_splits)
  with last_in_set [of ?own] show ?thesis by auto
qed

lemma last_row_distinct:
  assumes "distinct (map key rows)" "r \<in> set rows"
  shows "last_row key val rows (key r) = Some (val r)"
proof -
  obtain x where x: "last_row key val rows (key r) = Some x"
    using assms(2) last_row_None [of key val rows "key r"] by (cases "last_row key val rows (key r)") auto
  from last_row_Some [OF x] obtain q where "q \<in> set rows" "key q = key r" "x = val q" by blast
  with assms x show ?thesis by (metis (no_types, lifting) distinct_map inj_onD)
qed

lemma scan_session_rows_total: "\<exists>m'. scan_session_rows (map Inr rows) m = Inr m'"
  by (induction rows arbitrary: m) simp_all

lemma scan_label_rows_total: "\<exists>m'. scan_label_rows (map Inr rows) m = Inr m'"
  by (induction rows arbitrary: m) simp_all

text \<open>Two queries that both succeed make a snapshot that succeeds.\<close>

lemma Client_Snapshot_total:
  assumes "pool_sessions pool (if cl_versionNum c \<ge> 140000 then snapshotSQL else snapshotSQLNoWaitstart) = Inr (map Inr srows, None)"
    and "pool_labels pool = Inr (map Inr lrows, None)"
  shows "\<exists>ss ls. Client_Snapshot pool c = Inr (ss, ls)"
  using assms scan_session_rows_total [of srows fmempty] scan_label_rows_total [of lrows fmempty]
  by (auto simp: Client_Snapshot_def querySessions_def queryEdgeLabels_def run_query_def hasWaitstart_def split: if_splits)

lemma wait_start_Min:
  "wait_start v pid =
     (let ts = {t. \<exists>l \<in> set (cv_locks v). lc_pid l = Some pid \<and> \<not> lc_granted l \<and> lc_waitstart l = Some t}
      in if ts = {} then None else Some (Min ts))"
proof -
  let ?xs = "List.map_filter lc_waitstart (filter (\<lambda>l. lc_pid l = Some pid \<and> \<not> lc_granted l) (cv_locks v))"
  have ts: "{t. \<exists>l \<in> set (cv_locks v). lc_pid l = Some pid \<and> \<not> lc_granted l \<and> lc_waitstart l = Some t} = set ?xs"
    by (auto simp: map_filter_set)
  show ?thesis unfolding ts by (cases ?xs) (auto simp: wait_start_def Let_def Min.set_eq_fold simp del: list.set)
qed

lemma edgeLabelsSQL_set: "r \<in> set (edgeLabelsSQL v) \<longleftrightarrow> (\<exists>w \<in> set (cv_locks v). \<exists>b \<in> set (cv_locks v). join_row v w b = Some r)"
  by (force simp: edgeLabelsSQL_def map_filter_set)

text \<open>\<open>contends v p q l\<close>: process p waits for a lock that process q holds on the same object,
  and l describes the two.\<close>

definition contends :: "cluster_views \<Rightarrow> int \<Rightarrow> int \<Rightarrow> lock_label \<Rightarrow> bool" where
  "contends v p q l \<longleftrightarrow>
     (\<exists>w \<in> set (cv_locks v). \<exists>b \<in> set (cv_locks v).
        lc_pid w = Some p \<and> lc_pid b = Some q \<and> p \<noteq> q \<and> same_object w b \<and> \<not> lc_granted w \<and> lc_granted b \<and>
        l = \<lparr>lbl_LockType = lc_locktype w,
             lbl_Relation = (case lc_relation w of None \<Rightarrow> '''' | Some oid \<Rightarrow> cv_regclass v oid),
             lbl_WaiterMode = lc_mode w, lbl_BlockerMode = lc_mode b\<rparr>)"

lemma join_row_Some:
  "join_row v w b = Some r \<longleftrightarrow>
     (\<exists>p q. lc_pid w = Some p \<and> lc_pid b = Some q \<and> same_object w b \<and> p \<noteq> q \<and> \<not> lc_granted w \<and> lc_granted b \<and>
        r = \<lparr>lr_waiter = p, lr_blocker = q, lr_lockType = lc_locktype w, lr_wMode = lc_mode w,
             lr_bMode = lc_mode b, lr_relation = map_option (cv_regclass v) (lc_relation w)\<rparr>)"
  by (auto simp: join_row_def split: option.splits)

lemma edgeLabelsSQL_contends:
  "(\<exists>r \<in> set (edgeLabelsSQL v). lr_waiter r = p \<and> lr_blocker r = q \<and> l = label_of_row r) \<longleftrightarrow> contends v p q l"
proof -
  have d: "deref (map_option (cv_regclass v) x) = (case x of None \<Rightarrow> '''' | Some oid \<Rightarrow> cv_regclass v oid)" for x
    by (simp add: deref_def split: option.splits)
  let ?row = "\<lambda>w b. \<lparr>lr_waiter = p, lr_blocker = q, lr_lockType = lc_locktype w, lr_wMode = lc_mode w,
    lr_bMode = lc_mode b, lr_relation = map_option (cv_regclass v) (lc_relation w)\<rparr>"
  show ?thesis
  proof
    assume "contends v p q l"
    then obtain w b where wb: "w \<in> set (cv_locks v)" "b \<in> set (cv_locks v)" "join_row v w b = Some (?row w b)"
      "l = label_of_row (?row w b)"
      unfolding contends_def join_row_Some label_of_row_def by (auto simp: d)
    then have "?row w b \<in> set (edgeLabelsSQL v)" unfolding edgeLabelsSQL_set by blast
    with wb(4) show "\<exists>r \<in> set (edgeLabelsSQL v). lr_waiter r = p \<and> lr_blocker r = q \<and> l = label_of_row r"
      by (intro bexI [of _ "?row w b"]) simp_all
  next
    assume "\<exists>r \<in> set (edgeLabelsSQL v). lr_waiter r = p \<and> lr_blocker r = q \<and> l = label_of_row r"
    then obtain r w b where r: "lr_waiter r = p" "lr_blocker r = q" "l = label_of_row r" "join_row v w b = Some r"
      and wb: "w \<in> set (cv_locks v)" "b \<in> set (cv_locks v)" using edgeLabelsSQL_set by metis
    show "contends v p q l" unfolding contends_def
      by (rule bexI [OF _ wb(1)], rule bexI [OF _ wb(2)]) (use r in \<open>auto simp: join_row_Some label_of_row_def d\<close>)
  qed
qed

text \<open>What the client reports of a backend.\<close>

definition backend_session :: "client \<Rightarrow> cluster_views \<Rightarrow> activity \<Rightarrow> session" where
  "backend_session c v a =
     \<lparr>sess_PID = ac_pid a, sess_User = deref (ac_usename a), sess_AppName = deref (ac_application_name a),
      sess_ClientAddr = deref (ac_client_addr a), sess_State = deref (ac_state a),
      sess_WaitEventType = deref (ac_wait_event_type a), sess_WaitEvent = deref (ac_wait_event a),
      sess_BackendType = ''client backend'', sess_XactStart = derefTime (ac_xact_start a),
      sess_QueryStart = derefTime (ac_query_start a),
      sess_WaitStart = (if cl_versionNum c \<ge> 140000 then derefTime (wait_start v (ac_pid a)) else zero_time),
      sess_Query = deref (ac_query a), sess_BlockedBy = map sint (cv_blocking v (ac_pid a)), sess_IsRoot = False\<rparr>"

lemma session_of_activity_row:
  "client_backend v a \<Longrightarrow>
     session_of_row (activity_row (if cl_versionNum c \<ge> 140000 then snapshotSQL else snapshotSQLNoWaitstart) v a) =
     backend_session c v a"
  by (auto simp: session_of_row_def activity_row_def backend_session_def client_backend_def toIntSlice_def
      deref_def derefTime_def)

lemma sessions_of_views:
  assumes "mset srows = mset (session_rows q v)" "distinct (map ac_pid (cv_activity v))"
  shows "last_row rw_PID f srows pid = Some x \<longleftrightarrow>
    (\<exists>a \<in> set (cv_activity v). client_backend v a \<and> ac_pid a = pid \<and> x = f (activity_row q v a))"
proof -
  have rows: "set srows = activity_row q v ` {a \<in> set (cv_activity v). client_backend v a}"
    using mset_eq_setD [OF assms(1)] by (auto simp: session_rows_def)
  have "distinct (map rw_PID (session_rows q v))"
    using assms(2) by (auto simp: session_rows_def comp_def activity_row_def intro: distinct_map_filter)
  then have dist: "distinct (map rw_PID srows)"
    using assms(1) by (metis mset_eq_imp_distinct_iff mset_map)
  show ?thesis
  proof
    assume "last_row rw_PID f srows pid = Some x"
    from last_row_Some [OF this] rows
    show "\<exists>a \<in> set (cv_activity v). client_backend v a \<and> ac_pid a = pid \<and> x = f (activity_row q v a)"
      by (auto simp: activity_row_def)
  next
    assume "\<exists>a \<in> set (cv_activity v). client_backend v a \<and> ac_pid a = pid \<and> x = f (activity_row q v a)"
    then obtain a where a: "a \<in> set (cv_activity v)" "client_backend v a" "ac_pid a = pid" "x = f (activity_row q v a)" by blast
    then have "activity_row q v a \<in> set srows" "rw_PID (activity_row q v a) = pid"
      using rows by (auto simp: activity_row_def)
    with last_row_distinct [OF dist this(1)] a(4) show "last_row rw_PID f srows pid = Some x" by simp
  qed
qed

text \<open>When both queries succeed, whatever the order of their rows and even if the cluster moved
  on between them, the snapshot succeeds and is exact: its sessions are precisely the client
  backends other than pglockr's own, each with the processes \<open>pg_blocking_pids\<close> names, the
  start of its earliest wait where the server has it, and nulls read as zero values; a pair of
  processes has a label precisely if one waits for a lock on an object the other holds, and
  the label describes such a pair of locks.\<close>

lemma Client_Snapshot_reads_cluster:
  assumes "answers (pool_sessions pool q) (session_rows q v)" "answers (pool_labels pool) (edgeLabelsSQL v')"
    and "q = (if cl_versionNum c \<ge> 140000 then snapshotSQL else snapshotSQLNoWaitstart)"
    and "distinct (map ac_pid (cv_activity v))"
  shows "\<exists>ss ls. Client_Snapshot pool c = Inr (ss, ls) \<and>
    (\<forall>pid s. fmlookup ss pid = Some s \<longleftrightarrow>
       (\<exists>a \<in> set (cv_activity v). client_backend v a \<and> ac_pid a = pid \<and> s = backend_session c v a)) \<and>
    (\<forall>w b l. fmlookup ls (EdgeKey w b) = Some l \<longrightarrow> contends v' w b l) \<and>
    (\<forall>w b l. contends v' w b l \<longrightarrow> fmlookup ls (EdgeKey w b) \<noteq> None)"
proof -
  let ?key = "\<lambda>r. EdgeKey (lr_waiter r) (lr_blocker r)"
  obtain srows0 lrows0 where "pool_sessions pool q = Inr (map Inr srows0, None)" "pool_labels pool = Inr (map Inr lrows0, None)"
    "mset srows0 = mset (session_rows q v)" "mset lrows0 = mset (edgeLabelsSQL v')"
    using assms(1,2) by (auto simp: answers_def)
  moreover from this(1,2) assms(3) obtain ss ls where snap: "Client_Snapshot pool c = Inr (ss, ls)"
    using Client_Snapshot_total by blast
  ultimately obtain srows lrows where rows: "mset srows = mset (session_rows q v)" "mset lrows = mset (edgeLabelsSQL v')"
    "\<forall>pid. fmlookup ss pid = last_row rw_PID session_of_row srows pid"
    "\<forall>k. fmlookup ls k = last_row ?key label_of_row lrows k"
    using Client_Snapshot_rows [OF snap] assms(3) by (auto simp: inj_map_eq_map)
  have "fmlookup ss pid = Some s \<longleftrightarrow>
      (\<exists>a \<in> set (cv_activity v). client_backend v a \<and> ac_pid a = pid \<and> s = backend_session c v a)" for pid s
    using sessions_of_views [OF rows(1) assms(4), of session_of_row pid s] session_of_activity_row [of v _ c] rows(3) assms(3) by auto
  moreover have "contends v' w b l" if "fmlookup ls (EdgeKey w b) = Some l" for w b l
    using that last_row_Some [of ?key label_of_row lrows "EdgeKey w b" l] rows(4) mset_eq_setD [OF rows(2)]
      edgeLabelsSQL_contends [of v' w b l] by auto
  moreover have "fmlookup ls (EdgeKey w b) \<noteq> None" if "contends v' w b l" for w b l
    using that last_row_None [of ?key label_of_row lrows "EdgeKey w b"] rows(4) mset_eq_setD [OF rows(2)]
      edgeLabelsSQL_contends [of v' w b l] by auto
  ultimately show ?thesis using snap by blast
qed


text \<open>Two backends on one relation: the second waits for the first.\<close>

definition demo_activity :: "int \<Rightarrow> activity" where
  "demo_activity pid = \<lparr>ac_pid = pid, ac_usename = Some ''u'', ac_application_name = None, ac_client_addr = None,
     ac_state = Some ''active'', ac_wait_event_type = None, ac_wait_event = None, ac_backend_type = Some ''client backend'',
     ac_xact_start = Some 1, ac_query_start = Some 2, ac_query = Some ''select 1''\<rparr>"

definition demo_lock :: "int \<Rightarrow> string \<Rightarrow> bool \<Rightarrow> time option \<Rightarrow> pg_lock" where
  "demo_lock pid mode granted since = \<lparr>lc_locktype = ''relation'', lc_database = Some 5, lc_relation = Some 77, lc_page = None,
     lc_tuple = None, lc_virtualxid = None, lc_transactionid = None, lc_classid = None, lc_objid = None, lc_objsubid = None,
     lc_pid = Some pid, lc_mode = mode, lc_granted = granted, lc_waitstart = since\<rparr>"

definition demo_views :: cluster_views where
  "demo_views = \<lparr>cv_activity = [demo_activity 10, demo_activity 20, demo_activity 99],
     cv_locks = [demo_lock 10 ''AccessExclusiveLock'' True None, demo_lock 20 ''AccessShareLock'' False (Some 40),
                 demo_lock 20 ''RowShareLock'' False (Some 30)],
     cv_blocking = (\<lambda>pid. if pid = 20 then [10] else []), cv_regclass = (\<lambda>oid. ''accounts''), cv_me = 99\<rparr>"

definition views_pool :: "cluster_views \<Rightarrow> pg_pool" where
  "views_pool v = \<lparr>pool_version = Inr ''160004'', pool_sessions = (\<lambda>q. Inr (map Inr (session_rows q v), None)),
     pool_labels = Inr (map Inr (edgeLabelsSQL v), None), pool_locks = Inr (map Inr (locksSQL bytes_le rev v), None),
     pool_hot = Inr (map Inr (hotObjectsSQL rev v), None), pool_caps = Inr (''pglockr_ro'', False, True, True)\<rparr>"

lemma views_pool_answers [simp]:
  "answers (pool_sessions (views_pool v) q) (session_rows q v)" "answers (pool_labels (views_pool v)) (edgeLabelsSQL v)"
  by (simp_all add: answers_def views_pool_def)

lemma demo_views_facts:
  "distinct (map ac_pid (cv_activity demo_views))" "wait_start demo_views 20 = Some 30"
  "{a \<in> set (cv_activity demo_views). client_backend demo_views a} = {demo_activity 10, demo_activity 20}"
  by (auto simp: demo_views_def demo_activity_def wait_start_def demo_lock_def client_backend_def map_filter_simps)

lemma Client_Snapshot_demo:
  "\<exists>ss ls s. Client_Snapshot (views_pool demo_views) \<lparr>cl_statementTimeout = 1, cl_versionNum = 160004\<rparr> = Inr (ss, ls) \<and>
     fmlookup ss 20 = Some s \<and> sess_BlockedBy s = [10] \<and> sess_WaitStart s = 30 \<and> fmlookup ss 99 = None"
proof -
  let ?c = "\<lparr>cl_statementTimeout = 1, cl_versionNum = 160004\<rparr>"
  from Client_Snapshot_reads_cluster [OF views_pool_answers _ demo_views_facts(1), where c = ?c and q = snapshotSQL] obtain ss ls where s:
    "Client_Snapshot (views_pool demo_views) ?c = Inr (ss, ls)"
    "\<forall>pid s. fmlookup ss pid = Some s \<longleftrightarrow>
       (\<exists>a \<in> set (cv_activity demo_views). client_backend demo_views a \<and> ac_pid a = pid \<and> s = backend_session ?c demo_views a)"
    by auto
  have "fmlookup ss 20 = Some (backend_session ?c demo_views (demo_activity 20))"
    using s(2) by (auto simp: demo_views_def demo_activity_def client_backend_def)
  moreover have "fmlookup ss 99 = None"
  proof (rule ccontr)
    assume "fmlookup ss 99 \<noteq> None"
    then obtain s where "fmlookup ss 99 = Some s" by blast
    with s(2) show False by (auto simp: demo_views_def client_backend_def)
  qed
  ultimately show ?thesis
    using s(1) demo_views_facts(2) by (auto simp: backend_session_def demo_activity_def demo_views_def derefTime_def)
qed

section \<open>The inspector\<close>

lemma scan_list_eq: "scan_list (map Inr rows) out = Inr (out @ rows)"
  by (induction rows arbitrary: out) simp_all

lemma hotObjectsSQL_mset:
  "row_order scan \<Longrightarrow> mset (hotObjectsSQL scan v) =
     mset (filter (\<lambda>h. ho_Waiters h > 0) (map (hot_count v) (remdups (List.map_filter (lock_object v) (cv_locks v)))))"
  unfolding hotObjectsSQL_def by (rule mset_ordered)

lemma hotObjectsSQL_set:
  assumes "row_order scan"
  shows "h \<in> set (hotObjectsSQL scan v) \<longleftrightarrow>
     (\<exists>object. h = hot_count v object \<and> (\<exists>l \<in> set (cv_locks v). lock_object v l = Some object \<and> \<not> lc_granted l))"
  using mset_eq_setD [OF hotObjectsSQL_mset [OF assms, of v]]
  by (auto simp: map_filter_set hot_count_def Let_def image_iff filter_empty_conv)

lemma hotObjectsSQL_distinct:
  assumes "row_order scan"
  shows "distinct (map ho_Object (hotObjectsSQL scan v))"
proof -
  let ?f = "\<lambda>objs. filter (\<lambda>h. ho_Waiters h > 0) (map (hot_count v) objs)"
  have "map ho_Object (?f objs) = filter (\<lambda>obj. ho_Waiters (hot_count v obj) > 0) objs" for objs
    by (induction objs) (auto simp: hot_count_def Let_def)
  then have "distinct (map ho_Object (?f (remdups (List.map_filter (lock_object v) (cv_locks v)))))" by simp
  with hotObjectsSQL_mset [OF assms, of v] show ?thesis by (metis mset_eq_imp_distinct_iff mset_map)
qed

lemma hotObjectsSQL_sorted: "sorted_wrt hot_order (hotObjectsSQL scan v)"
  unfolding hotObjectsSQL_def by (rule sorted_order_by) (auto simp: hot_order_def split: if_splits)

lemma one_lock_each:
  assumes "distinct (map f xs)"
  shows "length (filter P xs) = card (f ` {x \<in> set xs. P x})"
  using distinct_card [of "map f (filter P xs)"] distinct_map_filter [OF assms, of P] by simp


section \<open>From the views to the wait-for forest\<close>

definition backend_pids :: "cluster_views \<Rightarrow> int set" where
  "backend_pids v = {ac_pid a | a. a \<in> set (cv_activity v) \<and> client_backend v a}"

definition blocked_by :: "cluster_views \<Rightarrow> int \<Rightarrow> int \<Rightarrow> bool" where
  "blocked_by v w b \<longleftrightarrow> w \<in> backend_pids v \<and> b \<in> sint ` set (cv_blocking v w)"

lemma reported_sessions:
  assumes "\<forall>pid s. fmlookup ss pid = Some s \<longleftrightarrow>
      (\<exists>a \<in> set (cv_activity v). client_backend v a \<and> ac_pid a = pid \<and> s = backend_session c v a)"
  shows "map_keys ss = backend_pids v" "waits_for ss w b \<longleftrightarrow> blocked_by v w b"
    "p \<in> backend_pids v \<Longrightarrow> blockers_of ss p = map sint (cv_blocking v p)"
proof -
  show keys: "map_keys ss = backend_pids v"
    using assms unfolding backend_pids_def by (fastforce simp: fmlookup_dom_iff)
  show bl: "blockers_of ss p = map sint (cv_blocking v p)" if "p \<in> backend_pids v" for p
  proof -
    from that obtain a where "a \<in> set (cv_activity v)" "client_backend v a" "ac_pid a = p" by (auto simp: backend_pids_def)
    with assms have "fmlookup ss p = Some (backend_session c v a)" by blast
    then show ?thesis using \<open>ac_pid a = p\<close> by (simp add: blockers_of_def backend_session_def)
  qed
  show "waits_for ss w b \<longleftrightarrow> blocked_by v w b"
    using bl [of w] waits_for_keys [of ss w b] keys by (auto simp: blocked_by_def waits_for_def)
qed

lemma edge_label_cases:
  "mk_edge ls w b = e \<Longrightarrow>
     (fmlookup ls (EdgeKey w b) = None \<and> edge_LockType e = '''' \<and> edge_Relation e = '''' \<and> edge_WaiterMode e = '''' \<and> edge_BlockerMode e = '''') \<or>
     fmlookup ls (EdgeKey w b) = Some \<lparr>lbl_LockType = edge_LockType e, lbl_Relation = edge_Relation e,
       lbl_WaiterMode = edge_WaiterMode e, lbl_BlockerMode = edge_BlockerMode e\<rparr>"
  by (auto simp: mk_edge_def split: option.splits)


lemma demo_blocking: "backend_pids demo_views = {10, 20}" "blocked_by demo_views w b \<longleftrightarrow> w = 20 \<and> b = 10"
proof -
  have "backend_pids demo_views = ac_pid ` {a \<in> set (cv_activity demo_views). client_backend demo_views a}"
    by (auto simp: backend_pids_def)
  then show pids: "backend_pids demo_views = {10, 20}" by (simp only: demo_views_facts(3)) (simp add: demo_activity_def)
  show "blocked_by demo_views w b \<longleftrightarrow> w = 20 \<and> b = 10" unfolding blocked_by_def pids by (auto simp: demo_views_def)
qed


text \<open>C39: The list of hot objects has exactly the relations with a waiting lock, each once, with the
  numbers of locks that wait and that are held on it; where no backend has two locks on the
  relation these are the numbers of backends, of which the comment on the query speaks (it
  counts a backend with two locks twice). The query ranks them: most waiters first and among
  those most holders first, whatever order the server gives to ties.\<close>

theorem HotObjects_ranks:
  assumes "row_order scan" "pool_hot pool = Inr (map Inr (hotObjectsSQL scan v), None)"
  shows "\<exists>out. HotObjects pool = Inr out \<and> distinct (map ho_Object out) \<and>
    ho_Object ` set out = {cv_regclass v oid | oid. \<exists>l \<in> set (cv_locks v). lc_relation l = Some oid \<and> \<not> lc_granted l} \<and>
    (\<forall>h \<in> set out. let own = filter (\<lambda>l. lock_object v l = Some (ho_Object h)) (cv_locks v)
       in ho_Waiters h = int (length (filter (\<lambda>l. \<not> lc_granted l) own)) \<and> ho_Holders h = int (length (filter lc_granted own)) \<and>
          (distinct (map lc_pid own) \<longrightarrow>
             ho_Waiters h = int (card {lc_pid l | l. l \<in> set own \<and> \<not> lc_granted l}) \<and>
             ho_Holders h = int (card {lc_pid l | l. l \<in> set own \<and> lc_granted l}))) \<and>
    (\<forall>i j. i < j \<and> j < length out \<longrightarrow> ho_Waiters (out ! j) < ho_Waiters (out ! i) \<or>
       ho_Waiters (out ! j) = ho_Waiters (out ! i) \<and> ho_Holders (out ! j) \<le> ho_Holders (out ! i))"
proof -
  let ?out = "hotObjectsSQL scan v"
  note rows = hotObjectsSQL_set [OF assms(1), of _ v]
  have name: "ho_Object (hot_count v object) = object" for object by (simp add: hot_count_def Let_def)
  have out: "HotObjects pool = Inr ?out" using assms(2) scan_list_eq [of ?out "[]"] by (simp add: HotObjects_def run_query_def)
  have "ho_Object ` set ?out = {object. \<exists>l \<in> set (cv_locks v). lock_object v l = Some object \<and> \<not> lc_granted l}"
  proof (intro set_eqI iffI)
    fix object assume "object \<in> {object. \<exists>l \<in> set (cv_locks v). lock_object v l = Some object \<and> \<not> lc_granted l}"
    then show "object \<in> ho_Object ` set ?out" using rows name by (intro image_eqI [of _ _ "hot_count v object"]) auto
  next
    fix object assume "object \<in> ho_Object ` set ?out"
    then obtain h where "h \<in> set ?out" "object = ho_Object h" by blast
    with rows [of h] name show "object \<in> {object. \<exists>l \<in> set (cv_locks v). lock_object v l = Some object \<and> \<not> lc_granted l}"
      by fastforce
  qed
  then have objects: "ho_Object ` set ?out = {cv_regclass v oid | oid. \<exists>l \<in> set (cv_locks v). lc_relation l = Some oid \<and> \<not> lc_granted l}"
    by (auto simp: lock_object_def)
  have backends: "length (filter P own) = card {lc_pid l | l. l \<in> set own \<and> P l}" if "distinct (map lc_pid own)" for P own
    using one_lock_each [OF that, of P] by (simp add: image_def setcompr_eq_image Bex_def)
  have numbers: "\<forall>h \<in> set ?out. let own = filter (\<lambda>l. lock_object v l = Some (ho_Object h)) (cv_locks v)
       in ho_Waiters h = int (length (filter (\<lambda>l. \<not> lc_granted l) own)) \<and> ho_Holders h = int (length (filter lc_granted own)) \<and>
          (distinct (map lc_pid own) \<longrightarrow>
             ho_Waiters h = int (card {lc_pid l | l. l \<in> set own \<and> \<not> lc_granted l}) \<and>
             ho_Holders h = int (card {lc_pid l | l. l \<in> set own \<and> lc_granted l}))"
  proof
    fix h assume "h \<in> set ?out"
    define own where "own = filter (\<lambda>l. lock_object v l = Some (ho_Object h)) (cv_locks v)"
    have "ho_Waiters h = int (length (filter (\<lambda>l. \<not> lc_granted l) own))" "ho_Holders h = int (length (filter lc_granted own))"
      using \<open>h \<in> set ?out\<close> rows [of h] name by (auto simp: hot_count_def Let_def own_def)
    then show "let own = filter (\<lambda>l. lock_object v l = Some (ho_Object h)) (cv_locks v)
       in ho_Waiters h = int (length (filter (\<lambda>l. \<not> lc_granted l) own)) \<and> ho_Holders h = int (length (filter lc_granted own)) \<and>
          (distinct (map lc_pid own) \<longrightarrow>
             ho_Waiters h = int (card {lc_pid l | l. l \<in> set own \<and> \<not> lc_granted l}) \<and>
             ho_Holders h = int (card {lc_pid l | l. l \<in> set own \<and> lc_granted l}))" unfolding Let_def own_def [symmetric] using backends [of own] by simp
  qed
  have ranks: "ho_Waiters (?out ! j) < ho_Waiters (?out ! i) \<or>
      ho_Waiters (?out ! j) = ho_Waiters (?out ! i) \<and> ho_Holders (?out ! j) \<le> ho_Holders (?out ! i)" if "i < j" "j < length ?out" for i j
    using sorted_wrt_nth_less [OF hotObjectsSQL_sorted that] by (auto simp: hot_order_def split: if_splits)
  show ?thesis
    by (rule exI [of _ ?out]) (use out objects numbers ranks hotObjectsSQL_distinct [OF assms(1), of v] in blast)
qed

theorem HotObjects_ranks_witness:
  "\<exists>out. HotObjects (views_pool demo_views) = Inr out \<and> ho_Object ` set out = {''accounts''} \<and> (\<forall>h \<in> set out. ho_Waiters h = 2 \<and> ho_Holders h = 1)"
proof -
  have "pool_hot (views_pool demo_views) = Inr (map Inr (hotObjectsSQL rev demo_views), None)" by (simp add: views_pool_def)
  from HotObjects_ranks [OF row_order_id(2) this] obtain out where out: "HotObjects (views_pool demo_views) = Inr out"
    "ho_Object ` set out = {cv_regclass demo_views oid | oid. \<exists>l \<in> set (cv_locks demo_views). lc_relation l = Some oid \<and> \<not> lc_granted l}"
    "\<forall>h \<in> set out. let own = filter (\<lambda>l. lock_object demo_views l = Some (ho_Object h)) (cv_locks demo_views)
       in ho_Waiters h = int (length (filter (\<lambda>l. \<not> lc_granted l) own)) \<and> ho_Holders h = int (length (filter lc_granted own))"
    unfolding Let_def by blast
  have objects: "ho_Object ` set out = {''accounts''}" unfolding out(2) by (auto simp: demo_views_def demo_lock_def)
  then have "ho_Object h = ''accounts''" if "h \<in> set out" for h using that by auto
  with out(3) have "\<forall>h \<in> set out. ho_Waiters h = 2 \<and> ho_Holders h = 1"
    by (simp add: Let_def demo_views_def demo_lock_def lock_object_def)
  with out(1) objects show ?thesis by blast
qed

end
