(* ===== verification/Inspector.thy ===== *)
theory Inspector
  imports Views
begin

text \<open>
  The lock inspector: the rows of \<open>locksSQL\<close> in the order of its ORDER BY, under every collation
  (locale \<open>collation\<close>), and what \<open>hotObjectsSQL\<close> counts.
\<close>

section \<open>The order of the locks\<close>

context collation
begin

lemma locks_sorted: "sorted_wrt (locks_order le) (locksSQL le scan v)"
  unfolding locksSQL_def
proof (rule sorted_order_by)
  fix a b c
  show "locks_order le a b \<or> locks_order le b a" using le_total by (auto simp: locks_order_def)
  show "locks_order le a c" if "locks_order le a b" "locks_order le b c"
    using that le_trans le_antisym unfolding locks_order_def by (smt (verit, del_insts))
qed

lemma in_order:
  assumes "sorted_wrt (locks_order le) out" "i < j" "j < length out"
  shows "le (lk_Object (out ! i)) (lk_Object (out ! j))"
    "lk_Object (out ! i) = lk_Object (out ! j) \<Longrightarrow> lk_Granted (out ! j) \<Longrightarrow> lk_Granted (out ! i)"
    "lk_Object (out ! i) = lk_Object (out ! j) \<Longrightarrow> lk_Granted (out ! i) = lk_Granted (out ! j) \<Longrightarrow> le (lk_Mode (out ! i)) (lk_Mode (out ! j))"
  using sorted_wrt_nth_less [OF assms] le_total [of "lk_Object (out ! i)" "lk_Object (out ! i)"]
  by (auto simp: locks_order_def split: if_splits)

lemma locks_grouped:
  assumes "sorted_wrt (locks_order le) out" "i < j" "j < k" "k < length out" "lk_Object (out ! i) = lk_Object (out ! k)"
  shows "lk_Object (out ! j) = lk_Object (out ! i)"
  using in_order(1) [OF assms(1,2)] in_order(1) [OF assms(1,3)] assms(3-5) le_antisym by fastforce

end

lemma map_map_filter: "map f (List.map_filter g xs) = List.map_filter (\<lambda>x. map_option f (g x)) xs"
  by (induction xs) (auto simp: List.map_filter_simps split: option.splits)

lemma map_filter_filter: "map f (filter P xs) = List.map_filter (\<lambda>x. if P x then Some (f x) else None) xs"
  by (induction xs) (auto simp: List.map_filter_simps)

text \<open>C40: The lock inspector, under whatever collation of the server: it lists every lock of a process
  other than pglockr's own, once, with its kind, its mode, whether it is granted, its process
  and the name of its relation or else its kind; the objects come in the order of the
  collation, so the locks of one object stand together; among them the granted ones come before
  those that wait, and each of the two by mode.\<close>

theorem Locks_grouped:
  assumes "collation le" "row_order scan" "pool_locks pool = Inr (map Inr (locksSQL le scan v), None)"
  shows "\<exists>out. Locks pool = Inr out \<and>
    mset (map (\<lambda>r. (lk_LockType r, lk_Object r, lk_Mode r, lk_Granted r, Some (lk_PID r))) out) =
    mset (map (\<lambda>l. (lc_locktype l, case lc_relation l of Some oid \<Rightarrow> cv_regclass v oid | None \<Rightarrow> lc_locktype l,
                    lc_mode l, lc_granted l, lc_pid l))
      (filter (\<lambda>l. lc_pid l \<noteq> None \<and> lc_pid l \<noteq> Some (cv_me v)) (cv_locks v))) \<and>
    (\<forall>i j. i < j \<and> j < length out \<longrightarrow> le (lk_Object (out ! i)) (lk_Object (out ! j)) \<and>
       (lk_Object (out ! i) = lk_Object (out ! j) \<longrightarrow>
          (lk_Granted (out ! j) \<longrightarrow> lk_Granted (out ! i)) \<and>
          (lk_Granted (out ! i) = lk_Granted (out ! j) \<longrightarrow> le (lk_Mode (out ! i)) (lk_Mode (out ! j))))) \<and>
    (\<forall>i j k. i < j \<and> j < k \<and> k < length out \<and> lk_Object (out ! i) = lk_Object (out ! k) \<longrightarrow>
       lk_Object (out ! j) = lk_Object (out ! i))"
proof -
  let ?out = "locksSQL le scan v"
  have out: "Locks pool = Inr ?out" using assms(3) scan_list_eq [of ?out "[]"] by (simp add: Locks_def run_query_def)
  have rows: "mset (map (\<lambda>r. (lk_LockType r, lk_Object r, lk_Mode r, lk_Granted r, Some (lk_PID r))) ?out) =
    mset (map (\<lambda>l. (lc_locktype l, case lc_relation l of Some oid \<Rightarrow> cv_regclass v oid | None \<Rightarrow> lc_locktype l,
                    lc_mode l, lc_granted l, lc_pid l))
      (filter (\<lambda>l. lc_pid l \<noteq> None \<and> lc_pid l \<noteq> Some (cv_me v)) (cv_locks v)))"
    unfolding locksSQL_def mset_map mset_ordered [OF assms(2)]
    unfolding mset_map [symmetric] map_map_filter map_filter_filter
    by (rule arg_cong [where f = mset], rule arg_cong2 [where f = List.map_filter]) (auto split: option.splits)
  note sorted = collation.locks_sorted [OF assms(1), of scan v]
  have order: "le (lk_Object (?out ! i)) (lk_Object (?out ! j)) \<and>
      (lk_Object (?out ! i) = lk_Object (?out ! j) \<longrightarrow>
         (lk_Granted (?out ! j) \<longrightarrow> lk_Granted (?out ! i)) \<and>
         (lk_Granted (?out ! i) = lk_Granted (?out ! j) \<longrightarrow> le (lk_Mode (?out ! i)) (lk_Mode (?out ! j))))"
    if "i < j" "j < length ?out" for i j
    using collation.in_order [OF assms(1) sorted that] by blast
  have grouped: "lk_Object (?out ! j) = lk_Object (?out ! i)"
    if "i < j" "j < k" "k < length ?out" "lk_Object (?out ! i) = lk_Object (?out ! k)" for i j k
    by (rule collation.locks_grouped [OF assms(1) sorted that])
  show ?thesis by (rule exI [of _ ?out]) (use out rows order grouped in blast)
qed

theorem Locks_grouped_witness:
  "\<exists>out. Locks (views_pool demo_views) = Inr out \<and> length out = 3 \<and>
     (\<forall>r \<in> set out. lk_LockType r = ''relation'' \<and> lk_Object r = ''accounts'') \<and> (\<exists>r \<in> set out. lk_Granted r) \<and> lk_Granted (out ! 0)"
proof -
  have "pool_locks (views_pool demo_views) = Inr (map Inr (locksSQL bytes_le rev demo_views), None)" by (simp add: views_pool_def)
  from Locks_grouped [OF bytes.collation_axioms row_order_id(2) this] obtain out where out: "Locks (views_pool demo_views) = Inr out"
    "mset (map (\<lambda>r. (lk_LockType r, lk_Object r, lk_Mode r, lk_Granted r, Some (lk_PID r))) out) =
     {#(''relation'', ''accounts'', ''AccessExclusiveLock'', True, Some 10), (''relation'', ''accounts'', ''AccessShareLock'', False, Some 20),
       (''relation'', ''accounts'', ''RowShareLock'', False, Some 20)#}"
    "\<forall>i j. i < j \<and> j < length out \<longrightarrow> lk_Object (out ! i) = lk_Object (out ! j) \<longrightarrow> lk_Granted (out ! j) \<longrightarrow> lk_Granted (out ! i)"
    by (auto simp: demo_views_def demo_lock_def)
  let ?f = "\<lambda>r. (lk_LockType r, lk_Object r, lk_Mode r, lk_Granted r, Some (lk_PID r))"
  have n: "length out = 3" using arg_cong [OF out(2), of size] by simp
  have img: "?f ` set out = {(''relation'', ''accounts'', ''AccessExclusiveLock'', True, Some 10),
      (''relation'', ''accounts'', ''AccessShareLock'', False, Some 20), (''relation'', ''accounts'', ''RowShareLock'', False, Some 20)}"
    using arg_cong [OF out(2), of set_mset] by simp
  have all: "lk_LockType r = ''relation'' \<and> lk_Object r = ''accounts''" if "r \<in> set out" for r
    using imageI [OF that, of ?f] unfolding img by auto
  have "(''relation'', ''accounts'', ''AccessExclusiveLock'', True, Some 10) \<in> ?f ` set out" unfolding img by simp
  then obtain r where r: "r \<in> set out" "lk_Granted r" by auto
  then obtain k where k: "k < length out" "out ! k = r" by (auto simp: in_set_conv_nth)
  have "lk_Granted (out ! 0)"
  proof (cases "k = 0")
    case False
    with out(3) k r(2) all n show ?thesis by (metis gr0I nth_mem zero_less_numeral)
  qed (use k r(2) in simp)
  with out(1) n all r show ?thesis by blast
qed

section \<open>What is counted\<close>

text \<open>The comment on \<open>hotObjectsSQL\<close> speaks of backends, the query counts locks: one backend with two
  locks on a relation counts as two holders.\<close>

definition demo_two_locks :: cluster_views where
  "demo_two_locks = demo_views\<lparr>cv_locks := [demo_lock 10 ''RowShareLock'' True None, demo_lock 10 ''RowExclusiveLock'' True None,
     demo_lock 20 ''AccessExclusiveLock'' False (Some 30)]\<rparr>"

theorem hot_objects_count_locks:
  "{p. \<exists>l \<in> set (cv_locks demo_two_locks). lc_granted l \<and> lc_pid l = Some p} = {10} \<and>
   map ho_Holders (hotObjectsSQL (\<lambda>rows. rows) demo_two_locks) = [2]"
  by (auto simp: demo_two_locks_def demo_views_def demo_lock_def hotObjectsSQL_def lock_object_def hot_count_def
      List.map_filter_simps Let_def)

end
