(* ===== verification/Accounting.thy ===== *)
theory Accounting
  imports Running
begin

text \<open>
  What a running program has recorded of its own history: the audit trail and the log account for
  the signals it was asked for, and the metrics page for its polls and signals. The invariants
  are proved by rule induction over \<open>running\<close>.
\<close>

section \<open>Signals in a history\<close>

text \<open>A response of an action endpoint that reports a signal: its result and the error of the
  server.\<close>

definition signal_of :: "event \<Rightarrow> (signal_result \<times> string option) option" where
  "signal_of ev =
     (case ev of
        Served ep r resp \<Rightarrow>
          (if signal_route ep = None then None
           else (case resp_Body resp of
                   JSON (JResult res) \<Rightarrow> Some (res, None)
                 | JSON (JSignalError err res) \<Rightarrow> Some (res, Some err)
                 | _ \<Rightarrow> None))
      | _ \<Rightarrow> None)"

lemma doSignal_reports:
  assumes "doSignal dp action (r\<lparr>req_Principal := Some p\<rparr>) s = Some (s', resp)" "resp_Body resp = JSON j"
  shows "\<exists>pid res err. Do (dp_sig dp) (Some (lookup_query (pl_store (app_poller s)))) (dp_rec dp) ObserveAction (dp_now dp)
      action pid (pr_Name p) (app_svc s) = Some (app_svc s', res, err) \<and>
    j = (case err of None \<Rightarrow> JResult res | Some e \<Rightarrow> JSignalError e res)"
proof -
  from assms obtain pid where pid: "Atoi (dp_URLParam dp (req_Path r)) = Some pid"
    by (auto simp: doSignal_def http_Error_def split: option.splits)
  with assms(1) obtain svc res err where D:
    "Do (dp_sig dp) (Some (lookup_query (pl_store (app_poller s)))) (dp_rec dp) ObserveAction (dp_now dp)
      action pid (pr_Name p) (app_svc s) = Some (svc, res, err)"
    "s' = s\<lparr>app_svc := svc\<rparr>"
    "resp = (case err of Some e \<Rightarrow> writeJSON 502 (JSignalError e res) | None \<Rightarrow> writeJSON 200 (JResult res))"
    by (simp add: doSignal_def PrincipalFrom_def Let_def split: option.splits prod.splits)
  then have "j = (case err of None \<Rightarrow> JResult res | Some e \<Rightarrow> JSignalError e res)"
    using assms(2) by (cases err) (simp_all add: writeJSON_def)
  with D(1,2) show ?thesis by (intro exI [of _ pid] exI [of _ res] exI [of _ err]) simp
qed

lemma chain_reports:
  assumes "Authenticate idn (RequireRole RoleOperator (requireSameOrigin (doSignal dp action))) r s = Some (s', resp)"
    and "resp_Body resp = JSON j"
  shows "\<exists>p. idn r = Some p \<and> pr_Role p \<in> {RoleOperator, RoleAdmin} \<and> CheckOrigin r \<and>
    doSignal dp action (r\<lparr>req_Principal := Some p\<rparr>) s = Some (s', resp)"
proof -
  from Authenticate_Some [OF assms(1)] assms(2) obtain p where p: "idn r = Some p"
    "RequireRole RoleOperator (requireSameOrigin (doSignal dp action)) (r\<lparr>req_Principal := Some p\<rparr>) s = Some (s', resp)"
    by auto
  from RequireRole_Some [OF p(2)] assms(2) have "AtLeast (pr_Role p) RoleOperator"
    "requireSameOrigin (doSignal dp action) (r\<lparr>req_Principal := Some p\<rparr>) s = Some (s', resp)" by auto
  moreover from this(2) assms(2) have "CheckOrigin r" "doSignal dp action (r\<lparr>req_Principal := Some p\<rparr>) s = Some (s', resp)"
    by (auto simp: requireSameOrigin_def http_Error_def split: if_splits)
  ultimately show ?thesis using p(1) by (auto simp: AtLeast_def rank_def split: if_splits)
qed

lemma serve_reports:
  assumes "serve dp ep r s = Some (s', resp)" "signal_of (Served ep r resp) = Some (res, err)"
  shows "\<exists>action p pid. signal_route ep = Some action \<and> dp_identity dp r = Some p \<and>
    pr_Role p \<in> {RoleOperator, RoleAdmin} \<and> CheckOrigin r \<and>
    Do (dp_sig dp) (Some (lookup_query (pl_store (app_poller s)))) (dp_rec dp) ObserveAction (dp_now dp)
      action pid (pr_Name p) (app_svc s) = Some (app_svc s', res, err)"
proof -
  from assms(2) obtain action j where a: "signal_route ep = Some action" "resp_Body resp = JSON j"
    "j = (case err of None \<Rightarrow> JResult res | Some e \<Rightarrow> JSignalError e res)"
    by (auto simp: signal_of_def split: if_splits body.splits json.splits)
  have "serve dp ep r s = Authenticate (dp_identity dp) (RequireRole RoleOperator (requireSameOrigin (doSignal dp action))) r s"
    using a(1) by (cases ep) (auto simp: signal_route_def handleCancel_def handleTerminate_def)
  with assms(1) chain_reports [OF _ a(2), of "dp_identity dp" dp action r s s'] obtain p where p: "dp_identity dp r = Some p"
    "pr_Role p \<in> {RoleOperator, RoleAdmin}" "CheckOrigin r" "doSignal dp action (r\<lparr>req_Principal := Some p\<rparr>) s = Some (s', resp)"
    by auto
  from doSignal_reports [OF p(4) a(2)] obtain pid res' err' where
    "Do (dp_sig dp) (Some (lookup_query (pl_store (app_poller s)))) (dp_rec dp) ObserveAction (dp_now dp)
      action pid (pr_Name p) (app_svc s) = Some (app_svc s', res', err')"
    "j = (case err' of None \<Rightarrow> JResult res' | Some e \<Rightarrow> JSignalError e res')" by blast
  with a(1,3) p(1-3) show ?thesis by (cases err; cases err') auto
qed

lemma serve_silent:
  assumes "serve dp ep r s = Some (s', resp)" "signal_of (Served ep r resp) = None"
  shows "app_svc s' = app_svc s"
proof (rule ccontr)
  assume "app_svc s' \<noteq> app_svc s"
  from serve_signals [OF assms(1) this] obtain action where a: "signal_route ep = Some action" by blast
  then have "serve dp ep r s = Authenticate (dp_identity dp) (RequireRole RoleOperator (requireSameOrigin (doSignal dp action))) r s"
    by (cases ep) (auto simp: signal_route_def handleCancel_def handleTerminate_def)
  with signal_chain [OF _ \<open>app_svc s' \<noteq> app_svc s\<close>] assms(1) obtain p where
    "doSignal dp action (r\<lparr>req_Principal := Some p\<rparr>) s = Some (s', resp)" by metis
  with \<open>app_svc s' \<noteq> app_svc s\<close> assms(2) a show False
    by (auto simp: doSignal_def signal_of_def writeJSON_def Let_def split: option.splits)
qed

section \<open>The trail and the log\<close>

text \<open>The signal a log line speaks of: action, process, actor.\<close>

fun log_signal :: "log_line \<Rightarrow> (string \<times> int \<times> string) option" where
  "log_signal (SinkFailed _) = None"
| "log_signal (SignalDone action pid actor _ _ _) = Some (action, pid, actor)"
| "log_signal (SignalFailed action pid actor _ _ _ _) = Some (action, pid, actor)"

text \<open>The request an audit entry comes from: an operator asked for that signal in his own name, from
  the same origin, and was told the same outcome.\<close>

fun authorises :: "identity \<Rightarrow> entry \<Rightarrow> event \<Rightarrow> bool" where
  "authorises idn e (Served ep r resp) \<longleftrightarrow>
     (\<exists>p res err. signal_of (Served ep r resp) = Some (res, err) \<and>
        signal_route ep = Some (ent_Action e) \<and> idn r = Some p \<and> pr_Role p \<in> {RoleOperator, RoleAdmin} \<and> CheckOrigin r \<and>
        ent_Actor e = pr_Name p \<and> ent_PID e = res_PID res \<and> ent_Delivered e = res_Delivered res \<and>
        ent_Error e = (case err of None \<Rightarrow> '''' | Some m \<Rightarrow> m))"
| "authorises idn e _ \<longleftrightarrow> False"

definition authorised :: "identity \<Rightarrow> event list \<Rightarrow> entry \<Rightarrow> bool" where
  "authorised idn evs e \<longleftrightarrow> (\<exists>ev \<in> set evs. authorises idn e ev)"

definition logged :: "identity \<Rightarrow> event list \<Rightarrow> log_line list \<Rightarrow> bool" where
  "logged idn evs lines \<longleftrightarrow>
     (\<forall>ep r resp res err. Served ep r resp \<in> set evs \<longrightarrow> signal_of (Served ep r resp) = Some (res, err) \<longrightarrow>
        (\<exists>p line. idn r = Some p \<and> line \<in> set lines \<and> log_signal line = Some (res_Action res, res_PID res, pr_Name p)))"

lemma Do_result:
  assumes "Do sig lookup rec observe now action pid actor svc = Some (svc', res, err)"
  shows "res_Action res = action" "res_PID res = pid"
    "svc_obs svc' = map_option (observe action (res_Delivered res)) (svc_obs svc)"
    "\<exists>lines line. svc_log svc' = svc_log svc @ lines @ [line] \<and> log_signal line = Some (action, pid, actor)"
    "err \<noteq> None \<Longrightarrow> \<not> res_Delivered res"
  using assms by (auto simp: Do_def mk_entry_def Let_def split: prod.splits bind_splits option.splits)

lemma authorised_mono: "authorised idn evs e \<Longrightarrow> authorised idn (evs @ [ev]) e"
  by (auto simp: authorised_def)

lemma serve_authorised:
  assumes "wired idn dp" "serve dp ep r s = Some (s', resp)" "svc_sink (app_svc s) = Some k" "sink_ok k"
    and "svc_sink (app_svc s') = Some k'" "x \<in> set (sink_trail k')" "x \<notin> set (sink_trail k)"
  shows "authorised idn (evs @ [Served ep r resp]) x"
proof (cases "signal_of (Served ep r resp)")
  case None
  with serve_silent [OF assms(2)] assms(3,5-7) show ?thesis by simp
next
  case (Some a)
  obtain res err where a: "a = (res, err)" by (cases a)
  from assms(1) obtain env where d: "dp_rec dp = sink_record env" "dp_identity dp = idn" by (auto simp: wired_def)
  from serve_reports [OF assms(2) Some [unfolded a]] obtain action p pid where p: "signal_route ep = Some action"
    "idn r = Some p" "pr_Role p \<in> {RoleOperator, RoleAdmin}" "CheckOrigin r" and
    D: "Do (dp_sig dp) (Some (lookup_query (pl_store (app_poller s)))) (sink_record env) ObserveAction (dp_now dp)
      action pid (pr_Name p) (app_svc s) = Some (app_svc s', res, err)"
    unfolding d by blast
  from Do_trail_entries [OF D assms(3-6)] assms(7) have
    "x\<lparr>ent_At := dp_now dp\<rparr> = mk_entry (dp_now dp) (pr_Name p) action pid (fst (lookup_query (pl_store (app_poller s)) pid)) (res_Delivered res) err"
    by simp
  from arg_cong [OF this, of ent_Actor] arg_cong [OF this, of ent_Action] arg_cong [OF this, of ent_PID]
    arg_cong [OF this, of ent_Delivered] arg_cong [OF this, of ent_Error]
  have "ent_Actor x = pr_Name p" "ent_Action x = action" "ent_PID x = pid" "ent_Delivered x = res_Delivered res"
    "ent_Error x = (case err of None \<Rightarrow> '''' | Some m \<Rightarrow> m)"
    using Do_result(5) [OF D] by (auto simp: mk_entry_def)
  with p Some a Do_result(2) [OF D] have "authorises idn x (Served ep r resp)" by auto
  then show ?thesis by (simp add: authorised_def)
qed

lemma running_authorised:
  assumes "running base cfg idn s0 evs s" "app_ok sink_ok s0" "svc_sink (app_svc s0) = Some k0"
    and "svc_sink (app_svc s) = Some k" "x \<in> set (sink_trail k)" "x \<notin> set (sink_trail k0)"
  shows "authorised idn evs x"
  using assms
proof (induction arbitrary: k rule: running.induct)
  case (polls evs s env sql ord raw backoff p ws b)
  then show ?case using authorised_mono by simp
next
  case (serves evs s dp ep r s' resp)
  obtain k1 where k1: "svc_sink (app_svc s) = Some k1" "sink_ok k1"
    using running_ok [OF serves.hyps(1) serves.prems(1)] by (auto simp: app_ok_def)
  show ?case
  proof (cases "x \<in> set (sink_trail k1)")
    case True
    with serves.IH [OF serves.prems(1,2) k1(1)] serves.prems show ?thesis by (simp add: authorised_mono)
  next
    case False
    with serve_authorised [OF serves.hyps(2,3) k1 serves.prems(3,4)] show ?thesis by simp
  qed
qed (simp_all add: authorised_mono set_store_def)

lemma running_logged:
  assumes "running base cfg idn s0 evs s"
  shows "logged idn evs (svc_log (app_svc s))"
  using assms
proof (induction rule: running.induct)
  case (serves evs s dp ep r s' resp)
  show ?case
  proof (cases "signal_of (Served ep r resp)")
    case None
    with serves serve_silent [OF serves.hyps(3)] show ?thesis unfolding logged_def by force
  next
    case (Some a)
    obtain res err where a: "a = (res, err)" by (cases a)
    from serves.hyps(2) have d: "dp_identity dp = idn" by (simp add: wired_def)
    from serve_reports [OF serves.hyps(3) Some [unfolded a]] obtain action p pid where p: "idn r = Some p" and
      D: "Do (dp_sig dp) (Some (lookup_query (pl_store (app_poller s)))) (dp_rec dp) ObserveAction (dp_now dp)
        action pid (pr_Name p) (app_svc s) = Some (app_svc s', res, err)" unfolding d by blast
    from Do_result(4) [OF D] obtain lines line where l: "svc_log (app_svc s') = svc_log (app_svc s) @ lines @ [line]"
      "log_signal line = Some (res_Action res, res_PID res, pr_Name p)" using Do_result(1,2) [OF D] by auto
    show ?thesis unfolding logged_def
    proof (intro allI impI)
      fix ep' r' resp' res' err'
      assume e: "Served ep' r' resp' \<in> set (evs @ [Served ep r resp])" "signal_of (Served ep' r' resp') = Some (res', err')"
      show "\<exists>p line. idn r' = Some p \<and> line \<in> set (svc_log (app_svc s')) \<and> log_signal line = Some (res_Action res', res_PID res', pr_Name p)"
      proof (cases "Served ep' r' resp' \<in> set evs")
        case True
        with serves.IH e(2) l(1) show ?thesis unfolding logged_def by fastforce
      next
        case False
        with e Some a p l show ?thesis by auto
      qed
    qed
  qed
qed (auto simp: logged_def set_store_def)

section \<open>The counters\<close>

definition acted :: "string \<Rightarrow> bool \<Rightarrow> event \<Rightarrow> bool" where
  "acted action delivered ev \<longleftrightarrow>
     (case signal_of ev of None \<Rightarrow> False | Some (res, err) \<Rightarrow> res_Action res = action \<and> res_Delivered res = delivered)"

lemma set_store_poller [simp]: "(app_poller (set_store st s))\<lparr>pl_store := x\<rparr> = (app_poller s)\<lparr>pl_store := x\<rparr>"
  by (simp add: set_store_def)

lemma store_handlers_poller:
  "handleSnapshot dp r s = Some (s', resp) \<Longrightarrow> (app_poller s')\<lparr>pl_store := x\<rparr> = (app_poller s)\<lparr>pl_store := x\<rparr>"
  "handleHistory dp r s = Some (s', resp) \<Longrightarrow> (app_poller s')\<lparr>pl_store := x\<rparr> = (app_poller s)\<lparr>pl_store := x\<rparr>"
  "handleStreamPage dp r s = Some (s', resp) \<Longrightarrow> (app_poller s')\<lparr>pl_store := x\<rparr> = (app_poller s)\<lparr>pl_store := x\<rparr>"
  by (auto simp: handleSnapshot_def handleHistory_def handleStreamPage_def Let_def split: option.splits if_splits)

text \<open>A request changes nothing of the poller but its store.\<close>

lemma serve_poller:
  fixes s :: "(sqlite, 'd, 'k) app"
  assumes "serve dp ep r s = Some (s', resp)"
  shows "(app_poller s')\<lparr>pl_store := x\<rparr> = (app_poller s)\<lparr>pl_store := x\<rparr>"
proof (cases "ep \<in> {CancelSession, TerminateSession}")
  case True
  then have "app_poller s' = app_poller s"
    using assms action_chain_poller [of _ _ dp _ r s s' resp] by (auto simp: handleCancel_def handleTerminate_def)
  then show ?thesis by simp
next
  case False
  then show ?thesis using assms
    by (cases ep) (auto split: option.splits dest!: Authenticate_Some RequireRole_Some read_handlers_same
        dest: store_handlers_poller [where x = x])
qed

lemma serve_poller_fields:
  fixes s :: "(sqlite, 'd, 'k) app"
  assumes "serve dp ep r s = Some (s', resp)"
  shows "pl_obs (app_poller s') = pl_obs (app_poller s)" "pl_cluster (app_poller s') = pl_cluster (app_poller s)"
    "pl_status (app_poller s') = pl_status (app_poller s)"
  using arg_cong [OF serve_poller [OF assms, of undefined], of pl_obs] arg_cong [OF serve_poller [OF assms, of undefined], of pl_cluster]
    arg_cong [OF serve_poller [OF assms, of undefined], of pl_status] by simp_all

lemma one_poll_observes:
  assumes "Run_loop env [i] backoff p = Some (p', ws, b)"
  shows "pl_obs p' = map_option (\<lambda>obs. obs @ [(pl_cluster p, in_elapsed i, fail_text i)]) (pl_obs p)" "pl_cluster p' = pl_cluster p"
proof -
  show "pl_obs p' = map_option (\<lambda>obs. obs @ [(pl_cluster p, in_elapsed i, fail_text i)]) (pl_obs p)"
    using assms by (cases "in_polled i") (auto simp: pollOnce_def fail_text_def observe_poll_def log_poll_def setError_def setOK_def Let_def
      bind_eq_Some_conv split: if_splits prod.splits)
  show "pl_cluster p' = pl_cluster p"
    using assms by (cases "in_polled i") (auto simp: pollOnce_def observe_poll_def log_poll_def setError_def setOK_def Let_def
      bind_eq_Some_conv split: if_splits prod.splits)
qed

lemma fail_text_source: "fail_text (raw\<lparr>in_polled := poll_source cfg ord (in_polled raw)\<rparr>) = fail_text raw"
  by (simp add: fail_text_def poll_source_def Source_Snapshot_def split: sum.splits prod.splits)

lemma running_observed:
  assumes "running base cfg idn s0 evs s" "pl_obs (app_poller s0) = Some []"
  shows "pl_obs (app_poller s) = Some (map (\<lambda>i. (pl_cluster (app_poller s0), in_elapsed i, fail_text i)) (polled evs)) \<and>
    pl_cluster (app_poller s) = pl_cluster (app_poller s0)"
  using assms
proof (induction rule: running.induct)
  case (polls evs s env sql ord raw backoff p ws b)
  with one_poll_observes [OF polls.hyps(8)] show ?case by (simp add: fail_text_source)
next
  case (serves evs s dp ep r s' resp)
  with serve_poller_fields [OF serves.hyps(3)] show ?case by simp
qed (simp_all add: set_store_def)

lemma boolLabel_inj [simp]: "boolLabel a = boolLabel b \<longleftrightarrow> a = b"
  by (simp add: boolLabel_def)

lemma running_acted:
  assumes "running base cfg idn s0 evs s" "svc_obs (app_svc s0) = Some (New_metrics version)"
  shows "\<exists>m. svc_obs (app_svc s) = Some m \<and> m\<lparr>met_actions := fmempty\<rparr> = New_metrics version \<and>
    (\<forall>action d. counter_value (met_actions m) [action, boolLabel d] = length (filter (acted action d) evs))"
  using assms
proof (induction rule: running.induct)
  case begins
  then show ?case by (simp add: New_metrics_def)
next
  case (polls evs s env sql ord raw backoff p ws b)
  then show ?case by (simp add: acted_def signal_of_def)
next
  case (serves evs s dp ep r s' resp)
  then obtain m where m: "svc_obs (app_svc s) = Some m" "m\<lparr>met_actions := fmempty\<rparr> = New_metrics version"
    "\<forall>action d. counter_value (met_actions m) [action, boolLabel d] = length (filter (acted action d) evs)" by blast
  show ?case
  proof (cases "signal_of (Served ep r resp)")
    case None
    then have "\<not> acted action d (Served ep r resp)" for action d by (simp add: acted_def)
    with m serve_silent [OF serves.hyps(3) None] show ?thesis by simp
  next
    case (Some a)
    obtain res err where a: "a = (res, err)" by (cases a)
    from serve_reports [OF serves.hyps(3) Some [unfolded a]] obtain action and p :: principal and pid where
      D: "Do (dp_sig dp) (Some (lookup_query (pl_store (app_poller s)))) (dp_rec dp) ObserveAction (dp_now dp)
        action pid (pr_Name p) (app_svc s) = Some (app_svc s', res, err)" by blast
    let ?m = "ObserveAction (res_Action res) (res_Delivered res) m"
    have "svc_obs (app_svc s') = Some ?m" using Do_result(1,3) [OF D] m(1) by simp
    moreover have "?m\<lparr>met_actions := fmempty\<rparr> = New_metrics version" using m(2) by (simp add: ObserveAction_def)
    moreover have "counter_value (met_actions ?m) [action, boolLabel d] = length (filter (acted action d) (evs @ [Served ep r resp]))" for action d
    proof -
      have "acted action d (Served ep r resp) \<longleftrightarrow> res_Action res = action \<and> res_Delivered res = d" by (simp add: acted_def Some a)
      then show ?thesis by (cases "res_Action res = action"; cases "res_Delivered res = d") (simp_all add: ObserveAction_def m(3) [rule_format] eq_commute)
    qed
    ultimately show ?thesis by blast
  qed
qed (simp_all add: acted_def signal_of_def set_store_def)

text \<open>What the metrics page shows of a history.\<close>

lemma counted_history:
  assumes "running base cfg idn s0 evs s" "pl_obs (app_poller s0) = Some []" "svc_obs (app_svc s0) = Some (New_metrics version)"
    and "cluster = pl_cluster (app_poller s0)" "m = counted v s"
  shows "counter_value (met_pollsTotal m) [cluster] = length (polled evs)"
    "counter_value (met_pollErrors m) [cluster] = length (filter failed (polled evs))"
    "observed (met_pollDuration m) [cluster] = map in_elapsed (polled evs)"
    "counter_value (met_actions m) [action, boolLabel d] = length (filter (acted action d) evs)"
    "met_version m = version"
proof -
  let ?obs = "map (\<lambda>i. (cluster, in_elapsed i, fail_text i)) (polled evs)"
  obtain m0 where m0: "svc_obs (app_svc s) = Some m0" "m0\<lparr>met_actions := fmempty\<rparr> = New_metrics version"
    "\<forall>action d. counter_value (met_actions m0) [action, boolLabel d] = length (filter (acted action d) evs)"
    using running_acted [OF assms(1,3)] by blast
  have m: "m = observe_all ?obs m0"
    using running_observed [OF assms(1,2)] m0(1) by (simp add: assms(4,5) counted_def)
  have z: "met_pollsTotal m0 = fmempty" "met_pollErrors m0 = fmempty" "met_pollDuration m0 = fmempty" "met_version m0 = version"
    using arg_cong [OF m0(2), of met_pollsTotal] arg_cong [OF m0(2), of met_pollErrors] arg_cong [OF m0(2), of met_pollDuration]
      arg_cong [OF m0(2), of met_version] by (simp_all add: New_metrics_def)
  have fails: "(\<exists>y. fail_text i = Some y) \<longleftrightarrow> failed i" for i by (simp add: fail_text_def failed_def split: sum.splits)
  have "filter (\<lambda>o'. fst o' = cluster) ?obs = ?obs" by (simp add: filter_id_conv)
  moreover have "length (filter (\<lambda>o'. fst o' = cluster \<and> snd (snd o') \<noteq> None) ?obs) = length (filter failed (polled evs))"
    by (simp add: filter_map comp_def fails)
  ultimately show "counter_value (met_pollsTotal m) [cluster] = length (polled evs)"
    "counter_value (met_pollErrors m) [cluster] = length (filter failed (polled evs))"
    "observed (met_pollDuration m) [cluster] = map in_elapsed (polled evs)"
    "counter_value (met_actions m) [action, boolLabel d] = length (filter (acted action d) evs)"
    "met_version m = version"
    using observe_all_counts [of ?obs m0 cluster] m0(3) by (simp_all add: m z comp_def)
qed

lemma metrics_page:
  assumes "dp_metrics dp = Some (version, page)" "serve dp MetricsPage r s = Some (s', resp)"
  shows "\<exists>latest. resp = page (Gather (counted version s)
      (Collect_live (ps_Cluster (Status (app_poller s)), ps_Connected (Status (app_poller s))) latest)) \<and> s' = s"
  using assms by (cases "Latest (pl_store (app_poller s))") (simp_all add: handleMetrics_def del: split_paired_Ex, blast)

end
