(* ===== verification/Scenario.thy ===== *)
theory Scenario
  imports Accounting
begin

text \<open>
  A concrete world in which the program starts, polls and serves: the witnesses of the properties
  of the whole run here.
\<close>

text \<open>A world in which \<open>run\<close> starts: a file that asks for redaction, a token, a reachable cluster
  and persistence switched off; and a poll that reports a session with a literal in its query.\<close>

definition demo_redacting :: config where
  "demo_redacting = demo_config\<lparr>cfg_Redaction := True\<rparr>"

definition demo_world :: "unit world" where
  "demo_world = \<lparr>wd_readFile = (\<lambda>p. Inr ''redaction''), wd_unmarshal = (\<lambda>raw c. Inr (c\<lparr>cfg_Redaction := True\<rparr>)),
     wd_getenv = demo_getenv, wd_parseDSN = (\<lambda>dsn. None), wd_pool = Inr demo_pool, wd_sql = demo_sql,
     wd_sqlOpen = (\<lambda>path. None), wd_file = ([], 0, [], 0), wd_ui = demo_bundle, wd_sha256 = (\<lambda>t. t), wd_db = (), wd_version = ''dev''\<rparr>"

definition demo_raw :: poll_input where
  "demo_raw = demo_poll (Inr (fmap_of_list [(7, zero_session\<lparr>sess_Query := ''select 42''\<rparr>)], fmempty)) False"

lemma demo_world_loads:
  "Load (wd_readFile demo_world) (wd_unmarshal demo_world) (wd_getenv demo_world) ''f'' = Inr demo_redacting"
  by (simp add: demo_world_def Load_def read_config_def Let_def apply_env_def auth_defaults_def or_default_def
      reapply_defaults_def Defaults_def demo_getenv_def zero_proxy_auth_def EqualFold_ascii_def
      demo_redacting_def demo_config_def validate_def validateTokenAuth_def second_def minute_def hour_def)

lemma demo_world_facts:
  "Connect (wd_parseDSN demo_world) (wd_pool demo_world) (cfg_ClusterDSN demo_redacting) (po_StatementTimeout (cfg_Poll demo_redacting)) =
     Inr \<lparr>cl_statementTimeout = 3 * second, cl_versionNum = 160004\<rparr>"
  "open_history demo_world demo_redacting = Inr None" "audit_file_ok demo_world"
  "cfg_Redaction demo_redacting"
proof -
  have "Atoi ''160004'' = Some 160004" by code_simp
  then show "Connect (wd_parseDSN demo_world) (wd_pool demo_world) (cfg_ClusterDSN demo_redacting) (po_StatementTimeout (cfg_Poll demo_redacting)) =
     Inr \<lparr>cl_statementTimeout = 3 * second, cl_versionNum = 160004\<rparr>"
    by (simp add: demo_world_def Connect_def detectVersion_def demo_pool_def demo_redacting_def demo_config_def Defaults_def)
qed (simp_all add: demo_world_def open_history_def demo_redacting_def demo_config_def Defaults_def audit_file_ok_def)

lemma demo_run:
  "\<exists>sd p. run_start demo_world ''f'' = Inr sd \<and> cfg_Redaction (sd_cfg sd) \<and>
     running (wd_sql demo_world) (sd_cfg sd) (sd_identity sd) (sd_app sd) [Polled demo_raw] ((sd_app sd)\<lparr>app_poller := p\<rparr>) \<and>
     ring_list (pl_store p) \<noteq> []"
proof -
  let ?env = "\<lparr>pe_ops = sqlite_ops demo_sql, pe_ordS = key_order, pe_ordB = key_order, pe_ordC = key_order\<rparr>"
  obtain idn where "buildIdentity (wd_sha256 demo_world) (cfg_Auth demo_redacting) = Inr idn"
    using loaded_config_identifies [OF demo_world_loads] by blast
  with demo_world_loads demo_world_facts obtain sd where sd: "run_start demo_world ''f'' = Inr sd" "sd_cfg sd = demo_redacting"
    by (auto simp: run_start_def Let_def)
  let ?p = "app_poller (sd_app sd)" and ?i = "demo_raw\<lparr>in_polled := poll_source (sd_cfg sd) key_order (in_polled demo_raw)\<rparr>"
  have wf: "poller_wf ?p" using started_ok(1) [OF sd(1) demo_world_facts(3)] by (simp add: app_ok_def)
  from one_poll [OF wf, of ?env ?i second] obtain p ws b where p: "Run_loop ?env [?i] second ?p = Some (p, ws, b)"
    "ring_list (pl_store p) = last_n (ring_cap (pl_store ?p)) (ring_list (pl_store ?p) @ built ?env (pl_cluster ?p) ?i)"
    by (auto simp: key_order.map_order_axioms)
  have "running (wd_sql demo_world) (sd_cfg sd) (sd_identity sd) (sd_app sd) ([] @ [Polled demo_raw]) ((sd_app sd)\<lparr>app_poller := p\<rparr>)"
    by (rule running.polls [OF running.begins, of ?env demo_sql]) (use p(1) in \<open>simp_all add: demo_world_def key_order.map_order_axioms\<close>)
  moreover have "0 < ring_cap (pl_store ?p)" using wf by (simp add: poller_wf_def store_wf_def ring_wf_def)
  then have "ring_list (pl_store p) \<noteq> []"
    using p(2) by (simp add: demo_raw_def demo_poll_def poll_source_def sd(2) demo_world_facts(4) Source_Snapshot_def built_def)
  ultimately show ?thesis using sd demo_world_facts(4) by auto
qed

section \<open>A signal\<close>

definition demo_serving :: "identity \<Rightarrow> (sqlite, unit, sink) deps" where
  "demo_serving idn = \<lparr>dp_ops = sqlite_ops demo_sql, dp_sig = demo_signaler, dp_rec = sink_record demo_sql,
     dp_recent = sink_recent demo_sql, dp_identity = idn, dp_now = 5, dp_pool = demo_pool,
     dp_route = (\<lambda>r. Some CancelSession), dp_URLParam = (\<lambda>path. ''7''), dp_unrouted = http_Error ''405'' 405,
     dp_metrics = Some (''dev'', \<lambda>fams. writeJSON 200 (JFamilies fams)), dp_ui = dist demo_bundle, dp_page = demo_page, dp_ordC = key_order,
     dp_wsRejected = None, dp_wsEarly = [], dp_wsFirst = True, dp_wsEvents = []\<rparr>"

lemma demo_serving_wired: "wired idn (demo_serving idn)"
  unfolding wired_def by (auto simp: demo_serving_def key_order.map_order_axioms)

definition demo_admin_request :: request where
  "demo_admin_request = demo_request\<lparr>req_Header := fmap_of_list [(''Authorization'', [''Bearer t''])]\<rparr>"

lemma demo_admin:
  assumes "run_start demo_world ''f'' = Inr sd"
  shows "sd_cfg sd = demo_redacting" "sd_identity sd demo_admin_request = Some \<lparr>pr_Name = ''default'', pr_Role = RoleAdmin\<rparr>"
proof -
  from run_start_Inr [OF assms] demo_world_loads show cfg: "sd_cfg sd = demo_redacting" by simp
  from run_start_Inr [OF assms] have "buildIdentity (wd_sha256 demo_world) (cfg_Auth demo_redacting) = Inr (sd_identity sd)" unfolding cfg by blast
  then have "sd_identity sd = Token_Authenticate (\<lambda>t. t) (NewTokenIdentity (\<lambda>t. t) [\<lparr>tp_Name = ''default'', tp_Role = RoleAdmin, tp_Token = ''t''\<rparr>])"
    by (simp add: demo_world_def demo_redacting_def demo_config_def buildIdentity_def)
  moreover have "tokenFromRequest demo_admin_request = ''t''" by code_simp
  ultimately show "sd_identity sd demo_admin_request = Some \<lparr>pr_Name = ''default'', pr_Role = RoleAdmin\<rparr>"
    by (simp add: Token_Authenticate_def NewTokenIdentity_def)
qed

lemma demo_signal:
  assumes "sd_identity sd demo_admin_request = Some \<lparr>pr_Name = ''default'', pr_Role = RoleAdmin\<rparr>"
    and "svc_sink (app_svc s) = Some (MemorySink (NewMemory 1000))"
  shows "\<exists>s' resp m e. serve (demo_serving (sd_identity sd)) CancelSession demo_admin_request s = Some (s', resp) \<and>
    svc_sink (app_svc s') = Some (MemorySink m) \<and> mem_entries m = [e]"
proof -
  have "Header_Get demo_admin_request ''Origin'' = ''''" by code_simp
  then have origin: "CheckOrigin demo_admin_request" by (simp add: CheckOrigin_def)
  have pid: "Atoi ''7'' = Some 7" by code_simp
  have role: "AtLeast RoleAdmin RoleOperator" by (simp add: AtLeast_def rank_def RoleOperator_def RoleViewer_def RoleAdmin_def)
  have "Record e (NewMemory 1000) = Some (None, (NewMemory 1000)\<lparr>mem_entries := [e]\<rparr>)" for e
    using Record_eq [OF NewMemory_wf, of e 1000] by (simp add: NewMemory_def last_n_def)
  then show ?thesis using assms role pid origin
    by (simp add: Authenticate_def RequireRole_def PrincipalFrom_def requireSameOrigin_def handleCancel_def doSignal_def
        demo_serving_def Do_def send_action_def demo_signaler_def write_sink_def Let_def)
qed

lemma demo_signal_run:
  "\<exists>sd s resp m e. run_start demo_world ''f'' = Inr sd \<and>
     running (wd_sql demo_world) (sd_cfg sd) (sd_identity sd) (sd_app sd) [Served CancelSession demo_admin_request resp] s \<and>
     svc_sink (app_svc (sd_app sd)) = Some (MemorySink (NewMemory 1000)) \<and>
     svc_sink (app_svc s) = Some (MemorySink m) \<and> mem_entries m = [e]"
proof -
  obtain sd where sd: "run_start demo_world ''f'' = Inr sd" using demo_run by blast
  from run_start_Inr [OF sd] have sink: "svc_sink (app_svc (sd_app sd)) = Some (MemorySink (NewMemory 1000))"
    by (auto simp: demo_admin(1) [OF sd] demo_world_facts(2) SetMetrics_def New_service_def start_sink_def)
  from demo_signal [OF demo_admin(2) [OF sd] sink] obtain s resp m e where
    s: "serve (demo_serving (sd_identity sd)) CancelSession demo_admin_request (sd_app sd) = Some (s, resp)"
    "svc_sink (app_svc s) = Some (MemorySink m)" "mem_entries m = [e]" by blast
  have "running (wd_sql demo_world) (sd_cfg sd) (sd_identity sd) (sd_app sd) ([] @ [Served CancelSession demo_admin_request resp]) s"
    by (rule running.serves [OF running.begins demo_serving_wired s(1)])
  with sd sink s(2,3) show ?thesis by auto
qed

section \<open>A stream\<close>

lemma demo_stream_opens:
  assumes "sd_identity sd demo_admin_request = Some p" "poller_wf (app_poller s)" "ring_list (pl_store (app_poller s)) = []"
    and "Subscribe (pl_store (app_poller s)) = (st, sid, ch)"
  shows "\<exists>resp. serve (demo_serving (sd_identity sd)) Stream demo_admin_request s = Some (set_store st s, resp)"
proof -
  have "Header_Get demo_admin_request ''Origin'' = ''''" by code_simp
  then have "CheckOrigin (demo_admin_request\<lparr>req_Principal := Some p\<rparr>)" by (simp add: CheckOrigin_def Header_Get_def)
  moreover have "ring_wf st" "ring_list st = []"
    using Subscribe_wf [of "pl_store (app_poller s)"] Subscribe_frame [OF assms(4)] assms(2-4) by (simp_all add: poller_wf_def store_wf_def)
  ultimately show ?thesis using assms(1,4) Latest_ring [of st]
    by (simp add: Authenticate_def handleStreamPage_def handleStream_def demo_serving_def)
qed

text \<open>A client opens the stream, the poller polls, the client is sent what was polled.\<close>

lemma demo_stream_run:
  "\<exists>sd s resp ch snap. run_start demo_world ''f'' = Inr sd \<and> cfg_Redaction (sd_cfg sd) \<and>
     running (wd_sql demo_world) (sd_cfg sd) (sd_identity sd) (sd_app sd)
       [Served Stream demo_admin_request resp, Polled demo_raw, Pushed ch snap] s \<and> snap_Sessions snap \<noteq> fmempty"
proof -
  let ?env = "\<lparr>pe_ops = sqlite_ops demo_sql, pe_ordS = key_order, pe_ordB = key_order, pe_ordC = key_order\<rparr>"
  obtain sd where sd: "run_start demo_world ''f'' = Inr sd" using demo_run by blast
  let ?run = "running (wd_sql demo_world) (sd_cfg sd) (sd_identity sd) (sd_app sd)"
  obtain st sid ch where sub: "Subscribe (pl_store (app_poller (sd_app sd))) = (st, sid, ch)" by (metis prod_cases3)
  note ok = started_ok [OF sd demo_world_facts(3)]
  from demo_stream_opens [OF demo_admin(2) [OF sd] _ ok(2) sub] ok(1) obtain resp where
    open': "serve (demo_serving (sd_identity sd)) Stream demo_admin_request (sd_app sd) = Some (set_store st (sd_app sd), resp)"
    by (auto simp: app_ok_def)
  let ?s1 = "set_store st (sd_app sd)"
  have r1: "?run ([] @ [Served Stream demo_admin_request resp]) ?s1" by (rule running.serves [OF running.begins demo_serving_wired open'])
  have wf: "poller_wf (app_poller ?s1)" using running_ok [OF r1 ok(1)] by (simp add: app_ok_def)
  let ?i = "demo_raw\<lparr>in_polled := poll_source (sd_cfg sd) key_order (in_polled demo_raw)\<rparr>"
  from one_poll [OF wf, of ?env ?i second] obtain p ws b where p: "Run_loop ?env [?i] second (app_poller ?s1) = Some (p, ws, b)"
    by (auto simp: key_order.map_order_axioms)
  have r2: "?run (([] @ [Served Stream demo_admin_request resp]) @ [Polled demo_raw]) (?s1\<lparr>app_poller := p\<rparr>)"
    by (rule running.polls [OF r1, of ?env demo_sql]) (use p in \<open>simp_all add: demo_world_def key_order.map_order_axioms\<close>)
  obtain snap where snap: "built ?env (pl_cluster (app_poller ?s1)) ?i = [snap]" "snap_Sessions snap \<noteq> fmempty"
    by (simp add: demo_raw_def demo_poll_def poll_source_def demo_admin(1) [OF sd] demo_world_facts(4) Source_Snapshot_def built_def Build_def zero_session_def Let_def)
  have "\<exists>st'. chan_recv ch (pl_store p) = Some (st', snap)"
    using poll_reaches_streams [OF wf _ p snap(1), of ch "\<lparr>ch_buf = [], ch_closed = False\<rparr>"] Subscribe_frame [OF sub]
    by (auto simp: set_store_def key_order.map_order_axioms)
  then obtain st' where "chan_recv ch (pl_store (app_poller (?s1\<lparr>app_poller := p\<rparr>))) = Some (st', snap)" by auto
  from running.pushes [OF r2 this] sd snap(2) demo_admin(1) [OF sd] demo_world_facts(4) show ?thesis by auto
qed

end
