(* ===== verification/Routes.thy ===== *)
theory Routes
  imports Scenario
begin

text \<open>
  The route table of \<open>server.go\<close> as data. The router of chi is an argument of the model; what it
  documents is the law \<open>routed\<close>: a request goes to a route of the table with its method and a
  matching pattern, and \<open>URLParam\<close> is the segment that stands for the parameter. With it the
  properties of the handlers become properties of methods and paths.
\<close>

datatype pattern = Exact string | PidPath string string | AnyPath

text \<open>The route table; an empty method stands for every method.\<close>

definition routes :: "bool \<Rightarrow> (string \<times> pattern \<times> endpoint) list" where
  "routes metrics =
     [(''GET'', Exact ''/healthz'', Healthz)] @
     (if metrics then [('''', Exact ''/metrics'', MetricsPage)] else []) @
     [(''GET'', Exact ''/api/me'', Me),
      (''GET'', Exact ''/api/clusters'', Clusters),
      (''GET'', Exact ''/api/snapshot'', SnapshotPage),
      (''GET'', Exact ''/api/history'', HistoryPage),
      (''GET'', Exact ''/api/stream'', Stream),
      (''GET'', Exact ''/api/locks'', LocksPage),
      (''GET'', Exact ''/api/hot-objects'', HotObjectsPage),
      (''POST'', PidPath ''/api/sessions/'' ''/cancel'', CancelSession),
      (''POST'', PidPath ''/api/sessions/'' ''/terminate'', TerminateSession),
      (''GET'', Exact ''/api/audit'', AuditPage),
      ('''', AnyPath, Spa)]"

text \<open>The segment between the two literal parts.\<close>

definition segment :: "string \<Rightarrow> string \<Rightarrow> string \<Rightarrow> string" where
  "segment a b path = take (length path - length a - length b) (drop (length a) path)"

fun matches :: "pattern \<Rightarrow> string \<Rightarrow> bool" where
  "matches (Exact p) path \<longleftrightarrow> path = p"
| "matches (PidPath a b) path \<longleftrightarrow>
     path = a @ segment a b path @ b \<and> segment a b path \<noteq> '''' \<and> CHR ''/'' \<notin> set (segment a b path)"
| "matches AnyPath path \<longleftrightarrow> True"

declare matches.simps(2) [simp del]

definition routed :: "('p, 'd, 'k) deps \<Rightarrow> bool" where
  "routed dp \<longleftrightarrow>
     (\<forall>r ep. dp_route dp r = Some ep \<longrightarrow>
        (\<exists>(m, pat, ep') \<in> set (routes (dp_metrics dp \<noteq> None)). ep' = ep \<and> (m = '''' \<or> m = req_Method r) \<and> matches pat (req_Path r))) \<and>
     (\<forall>(m, pat, ep) \<in> set (routes (dp_metrics dp \<noteq> None)). \<forall>path. matches pat path \<longrightarrow>
        (case pat of PidPath a b \<Rightarrow> dp_URLParam dp path = segment a b path | _ \<Rightarrow> True))"

text \<open>The middlewares around everything hand the response of the router on: \<open>RealIP\<close> changes only
  the remote address, \<open>Recoverer\<close> acts on panics only.\<close>

definition passes :: "(('p, 'd, 'k) api_handler \<Rightarrow> ('p, 'd, 'k) api_handler) \<Rightarrow> bool" where
  "passes mw \<longleftrightarrow> (\<forall>h r s x. h r s = Some x \<longrightarrow> mw h r s = Some x)"

lemma routed_signal:
  assumes "routed dp" "dp_route dp r = Some ep" "signal_route ep = Some action"
  shows "req_Method r = ''POST'' \<and> req_Path r = ''/api/sessions/'' @ dp_URLParam dp (req_Path r) @ ''/'' @ action \<and>
    CHR ''/'' \<notin> set (dp_URLParam dp (req_Path r))"
proof -
  let ?rs = "routes (dp_metrics dp \<noteq> None)"
  from assms(1) have laws: "\<forall>r ep. dp_route dp r = Some ep \<longrightarrow>
      (\<exists>(m, pat, ep') \<in> set ?rs. ep' = ep \<and> (m = '''' \<or> m = req_Method r) \<and> matches pat (req_Path r))"
    "\<forall>(m, pat, ep) \<in> set ?rs. \<forall>path. matches pat path \<longrightarrow>
        (case pat of PidPath a b \<Rightarrow> dp_URLParam dp path = segment a b path | _ \<Rightarrow> True)"
    unfolding routed_def by blast+
  from laws(1) assms(2) obtain m pat where m: "(m, pat, ep) \<in> set ?rs" "m = '''' \<or> m = req_Method r" "matches pat (req_Path r)"
    by blast
  from m(1) assms(3) have pat: "m = ''POST''" "pat = PidPath ''/api/sessions/'' (''/'' @ action)"
    by (auto simp: routes_def signal_route_def ActionCancel_def ActionTerminate_def split: if_splits)
  from laws(2) m(1,3) have u: "dp_URLParam dp (req_Path r) = segment ''/api/sessions/'' (''/'' @ action) (req_Path r)"
    unfolding pat(2) by fastforce
  have "req_Path r = ''/api/sessions/'' @ segment ''/api/sessions/'' (''/'' @ action) (req_Path r) @ ''/'' @ action \<and>
      CHR ''/'' \<notin> set (segment ''/api/sessions/'' (''/'' @ action) (req_Path r))"
    using m(3) unfolding pat(2) matches.simps(2) by blast
  moreover have "req_Method r = ''POST''" using m(2) pat(1) by auto
  ultimately show ?thesis unfolding u by blast
qed

text \<open>C8: Only a POST signals, and the process it signals is the one in its path: if a request to the
  root handler changes the signal service (the target cluster or the audit trail), its method is
  POST, its path is \<open>/api/sessions/<pid>/<action>\<close> with that action and a decimal number in one
  segment, and what ran is one audited \<open>Do\<close> for this action and this number.\<close>

theorem only_posts_signal:
  assumes "routed dp" "passes mw" "wired idn dp" "app_ok sink_ok s"
    and "Handler mw dp r s = Some (s', resp)" "app_svc s' \<noteq> app_svc s"
  shows "\<exists>action seg pid p res err. req_Method r = ''POST'' \<and> req_Path r = ''/api/sessions/'' @ seg @ ''/'' @ action \<and>
    action \<in> {ActionCancel, ActionTerminate} \<and> CHR ''/'' \<notin> set seg \<and> Atoi seg = Some pid \<and> idn r = Some p \<and>
    Do (dp_sig dp) (Some (lookup_query (pl_store (app_poller s)))) (dp_rec dp) ObserveAction (dp_now dp)
      action pid (pr_Name p) (app_svc s) = Some (app_svc s', res, err)"
proof -
  let ?h = "\<lambda>r s. case dp_route dp r of None \<Rightarrow> Some (s, dp_unrouted dp) | Some ep \<Rightarrow> serve dp ep r s"
  from assms(3) have w: "map_order (dp_ordC dp)" "dp_identity dp = idn" by (auto simp: wired_def)
  have "\<exists>x. ?h r s = Some x"
    using serve_ok [OF wired_sink [OF assms(3)] w(1) assms(4)] unfolding returns_ok_def
    by (cases "dp_route dp r") (simp, simp, blast)
  then have h: "?h r s = Some (s', resp)" using assms(2,5) unfolding passes_def Handler_def by fastforce
  then obtain ep where ep: "dp_route dp r = Some ep" "serve dp ep r s = Some (s', resp)"
    using assms(6) by (cases "dp_route dp r") auto
  from serve_signals [OF ep(2) assms(6)] w(2) obtain action and p :: principal and pid res err where
    sig: "signal_route ep = Some action" "idn r = Some p" "Atoi (dp_URLParam dp (req_Path r)) = Some pid"
    "Do (dp_sig dp) (Some (lookup_query (pl_store (app_poller s)))) (dp_rec dp) ObserveAction (dp_now dp)
      action pid (pr_Name p) (app_svc s) = Some (app_svc s', res, err)" by blast
  from sig(1) have "action \<in> {ActionCancel, ActionTerminate}" by (auto simp: signal_route_def split: endpoint.splits)
  with routed_signal [OF assms(1) ep(1) sig(1)] sig(2-4) show ?thesis by blast
qed

section \<open>A router that keeps the law\<close>

definition first_route :: "bool \<Rightarrow> request \<Rightarrow> endpoint option" where
  "first_route metrics r = map_option (snd \<circ> snd)
     (find (\<lambda>(m, pat, ep). (m = '''' \<or> m = req_Method r) \<and> matches pat (req_Path r)) (routes metrics))"

definition pid_param :: "string \<Rightarrow> string" where
  "pid_param path =
     (if matches (PidPath ''/api/sessions/'' ''/cancel'') path then segment ''/api/sessions/'' ''/cancel'' path
      else segment ''/api/sessions/'' ''/terminate'' path)"

definition demo_router :: "identity \<Rightarrow> (sqlite, unit, sink) deps" where
  "demo_router idn = (demo_serving idn)\<lparr>dp_route := first_route True, dp_URLParam := pid_param\<rparr>"

lemma cancel_not_terminate:
  "matches (PidPath ''/api/sessions/'' ''/terminate'') path \<Longrightarrow> \<not> matches (PidPath ''/api/sessions/'' ''/cancel'') path"
proof
  assume "matches (PidPath ''/api/sessions/'' ''/terminate'') path" "matches (PidPath ''/api/sessions/'' ''/cancel'') path"
  then obtain x y where e: "path = x @ ''/terminate''" "path = y @ ''/cancel''" unfolding matches.simps(2) by (metis append.assoc)
  have "last path = CHR ''e''" unfolding e(1) by simp
  moreover have "last path = CHR ''l''" unfolding e(2) by simp
  ultimately show False by simp
qed

lemma demo_router_routed: "routed (demo_router idn)"
proof -
  have "\<exists>(m, pat, ep') \<in> set (routes True). ep' = ep \<and> (m = '''' \<or> m = req_Method r) \<and> matches pat (req_Path r)"
    if "first_route True r = Some ep" for r ep
  proof -
    from that obtain x where x: "find (\<lambda>(m, pat, ep). (m = '''' \<or> m = req_Method r) \<and> matches pat (req_Path r)) (routes True) = Some x"
      "ep = snd (snd x)" by (auto simp: first_route_def)
    then have "x \<in> set (routes True)" "case x of (m, pat, ep) \<Rightarrow> (m = '''' \<or> m = req_Method r) \<and> matches pat (req_Path r)"
      by (auto simp: find_Some_iff in_set_conv_nth)
    with x(2) show ?thesis by (cases x) auto
  qed
  moreover have "case pat of PidPath a b \<Rightarrow> pid_param path = segment a b path | _ \<Rightarrow> True"
    if "(m, pat, ep) \<in> set (routes True)" "matches pat path" for m pat ep path
  proof (cases pat)
    case (PidPath a b)
    with that(1) have "a = ''/api/sessions/'' \<and> (b = ''/cancel'' \<or> b = ''/terminate'')" by (auto simp: routes_def)
    with that(2) PidPath cancel_not_terminate [of path] show ?thesis by (auto simp: pid_param_def)
  qed simp_all
  moreover have f: "dp_route (demo_router idn) = first_route True" "dp_URLParam (demo_router idn) = pid_param"
    "(dp_metrics (demo_router idn) \<noteq> None) = True"
    by (simp_all add: demo_router_def demo_serving_def)
  ultimately show ?thesis unfolding routed_def f by blast
qed

lemma demo_routed_signal:
  assumes "sd_identity sd demo_admin_request = Some \<lparr>pr_Name = ''default'', pr_Role = RoleAdmin\<rparr>"
    and "svc_sink (app_svc s) = Some (MemorySink (NewMemory 1000))"
  shows "\<exists>s' resp. Handler (\<lambda>h. h) (demo_router (sd_identity sd)) demo_admin_request s = Some (s', resp) \<and> app_svc s' \<noteq> app_svc s"
proof -
  have "Header_Get demo_admin_request ''Origin'' = ''''" by code_simp
  then have origin: "CheckOrigin demo_admin_request" by (simp add: CheckOrigin_def)
  have pid: "Atoi (pid_param (req_Path demo_admin_request)) = Some 7" by code_simp
  have route: "first_route True demo_admin_request = Some CancelSession" by code_simp
  have role: "AtLeast RoleAdmin RoleOperator" by (simp add: AtLeast_def rank_def RoleOperator_def RoleViewer_def RoleAdmin_def)
  have "Record e (NewMemory 1000) = Some (None, (NewMemory 1000)\<lparr>mem_entries := [e]\<rparr>)" for e
    using Record_eq [OF NewMemory_wf, of e 1000] by (simp add: NewMemory_def last_n_def)
  then have "\<exists>s' resp. serve (demo_router (sd_identity sd)) CancelSession demo_admin_request s = Some (s', resp) \<and>
      svc_log (app_svc s') \<noteq> svc_log (app_svc s)"
    using assms role pid origin
    by (simp add: Authenticate_def RequireRole_def PrincipalFrom_def requireSameOrigin_def handleCancel_def doSignal_def
        demo_router_def demo_serving_def Do_def send_action_def demo_signaler_def write_sink_def Let_def)
  then show ?thesis using route by (auto simp: Handler_def demo_router_def)
qed

theorem only_posts_signal_witness:
  "\<exists>sd seg action pid. run_start demo_world ''f'' = Inr sd \<and>
     req_Path demo_admin_request = ''/api/sessions/'' @ seg @ ''/'' @ action \<and> Atoi seg = Some pid"
proof -
  obtain sd where sd: "run_start demo_world ''f'' = Inr sd" using demo_run by blast
  from run_start_Inr [OF sd] have sink: "svc_sink (app_svc (sd_app sd)) = Some (MemorySink (NewMemory 1000))"
    by (auto simp: demo_admin(1) [OF sd] demo_world_facts(2) SetMetrics_def New_service_def start_sink_def)
  from demo_routed_signal [OF demo_admin(2) [OF sd] sink] obtain s' resp where
    h: "Handler (\<lambda>h. h) (demo_router (sd_identity sd)) demo_admin_request (sd_app sd) = Some (s', resp)" "app_svc s' \<noteq> app_svc (sd_app sd)" by blast
  have p: "passes (\<lambda>h :: (sqlite, unit, sink) api_handler. h)" by (simp add: passes_def)
  have w: "wired (sd_identity sd) (demo_router (sd_identity sd))"
    unfolding wired_def by (auto simp: demo_router_def demo_serving_def key_order.map_order_axioms)
  from only_posts_signal [OF demo_router_routed p w started_ok(1) [OF sd demo_world_facts(3)] h] sd show ?thesis by blast
qed

end
