(* ===== verification/Restart.thy ===== *)
theory Restart
  imports Scenario
begin

text \<open>
  Persistence across restarts: the file a running program leaves behind, and the program started
  again on it. The store works on the snapshot table and the sink on the audit table of one
  database, so the file is made of the tables each of them holds.
\<close>

section \<open>The file left behind\<close>

definition file_left :: "(sqlite, 'd, sink) app \<Rightarrow> (snap_row list \<times> int \<times> audit_row list \<times> int) option" where
  "file_left s =
     (case (st_persist (pl_store (app_poller s)), svc_sink (app_svc s)) of
        (Some h, Some (SqliteSink a)) \<Rightarrow> Some (sq_snapshots h, sq_snap_seq h, sq_audit a, sq_audit_seq a)
      | _ \<Rightarrow> None)"

lemma file_left_Some:
  "file_left s = Some (rows, n, audit, m) \<longleftrightarrow>
     (\<exists>h a. st_persist (pl_store (app_poller s)) = Some h \<and> svc_sink (app_svc s) = Some (SqliteSink a) \<and>
        rows = sq_snapshots h \<and> n = sq_snap_seq h \<and> audit = sq_audit a \<and> m = sq_audit_seq a)"
  by (auto simp: file_left_def split: option.splits sink.splits)

definition durable :: "(sqlite, 'd, sink) app \<Rightarrow> bool" where
  "durable s \<longleftrightarrow> (\<exists>h a. st_persist (pl_store (app_poller s)) = Some h \<and> svc_sink (app_svc s) = Some (SqliteSink a))"

lemma durable_file: "durable s \<longleftrightarrow> (\<exists>f. file_left s = Some f)"
  by (auto simp: durable_def file_left_def split: option.splits sink.splits)

lemma Do_keeps_sqlite:
  assumes "Do sig lookup (sink_record env) observe now action pid actor svc = Some (svc', res, err)"
    and "svc_sink svc = Some (SqliteSink a)"
  shows "\<exists>a'. svc_sink svc' = Some (SqliteSink a')"
  using assms by (auto simp: Do_def write_sink_def Let_def map_prod_def split_beta split: option.splits bind_splits)

lemma fold_saves: "fold (\<lambda>snap. map_option (\<lambda>h. fst (p_Save ops h snap))) xs (Some h) = Some (fold (\<lambda>snap h. fst (p_Save ops h snap)) xs h)"
  by (induction xs arbitrary: h) simp_all

lemma running_durable:
  assumes "running base cfg idn s0 evs s" "durable s0"
  shows "durable s"
  using assms
proof (induction rule: running.induct)
  case (polls evs s env sql ord raw backoff p ws b)
  with one_poll_persist [OF polls.hyps(8)] show ?case by (auto simp: durable_def fold_saves)
next
  case (serves evs s dp ep r s' resp)
  then obtain h a where s: "st_persist (pl_store (app_poller s)) = Some h" "svc_sink (app_svc s) = Some (SqliteSink a)"
    by (auto simp: durable_def)
  from serves.hyps(2) obtain env where d: "dp_rec dp = sink_record env" "dp_wsEarly dp = []" "published (dp_wsEvents dp) = []"
    by (auto simp: wired_def)
  have "st_persist (pl_store (app_poller s')) = Some h"
    using serve_kept [OF serves.hyps(3) d(2,3)] s(1) by (simp add: kept_def)
  moreover have "\<exists>a'. svc_sink (app_svc s') = Some (SqliteSink a')"
  proof (cases "app_svc s' = app_svc s")
    case False
    from serve_signals [OF serves.hyps(3) this] obtain action and q :: principal and pid res err where
      "Do (dp_sig dp) (Some (lookup_query (pl_store (app_poller s)))) (sink_record env) ObserveAction (dp_now dp)
        action pid (pr_Name q) (app_svc s) = Some (app_svc s', res, err)" unfolding d(1) by blast
    from Do_keeps_sqlite [OF this s(2)] show ?thesis .
  qed (use s(2) in simp)
  ultimately show ?case by (simp add: durable_def)
next
  case (pushes evs s ch st snap)
  with chan_recv_kept [OF pushes.hyps(2)] show ?case by (simp add: durable_def kept_def set_store_def)
next
  case (hangs_up evs s sid)
  with unsubscribe_kept [of sid "pl_store (app_poller s)"] show ?case by (simp add: durable_def kept_def set_store_def)
qed

lemma started_durable:
  assumes "run_start w path = Inr sd" "pe_Enabled (cfg_Persist (sd_cfg sd))"
  shows "durable (sd_app sd)"
proof -
  from run_start_Inr [OF assms(1)] obtain hist where h: "open_history w (sd_cfg sd) = Inr hist"
    "sd_app sd = \<lparr>app_poller = start_poller (sd_cfg sd) hist (Some []),
      app_svc = SetMetrics (New_metrics (wd_version w)) (New_service (wd_db w) (Some (start_sink hist)))\<rparr>" by blast
  from h(1) assms(2) obtain x where "hist = Some x" by (auto simp: open_history_def split: sum.splits)
  with h(2) show ?thesis
    by (simp add: durable_def start_poller_def start_store_def SetMetrics_poller_def New_poller_def New_def SetPersister_def
        SetMetrics_def New_service_def start_sink_def Let_def)
qed

section \<open>Starting on it\<close>

lemma run_start_file:
  assumes "run_start w path = Inr sd" "pe_Enabled (cfg_Persist (sd_cfg sd))" "w' = w\<lparr>wd_file := (rows, n, audit, m)\<rparr>"
  shows "\<exists>sd' h'. run_start w' path = Inr sd' \<and> sd_cfg sd' = sd_cfg sd \<and> sd_identity sd' = sd_identity sd \<and>
    st_persist (pl_store (app_poller (sd_app sd'))) = Some h' \<and> svc_sink (app_svc (sd_app sd')) = Some (SqliteSink h') \<and>
    sq_snapshots h' = rows \<and> sq_snap_seq h' = n \<and> sq_audit h' = audit \<and> sq_audit_seq h' = m"
proof -
  let ?open = "\<lambda>w. Open (wd_sql w) (wd_sqlOpen w) (pe_Path (cfg_Persist (sd_cfg sd))) (pe_Retention (cfg_Persist (sd_cfg sd))) (Some []) (wd_file w)"
  from run_start_Inr [OF assms(1)] assms(2) obtain h where "?open w = Inr h"
    by (auto simp: open_history_def split: sum.splits)
  then obtain h' where h': "?open w' = Inr h'" "sq_snapshots h' = rows" "sq_snap_seq h' = n" "sq_audit h' = audit" "sq_audit_seq h' = m"
    by (auto simp: Open_def assms(3) split: option.splits)
  from assms(1) have parts: "Load (wd_readFile w) (wd_unmarshal w) (wd_getenv w) path = Inr (sd_cfg sd)"
    "Connect (wd_parseDSN w) (wd_pool w) (cfg_ClusterDSN (sd_cfg sd)) (po_StatementTimeout (cfg_Poll (sd_cfg sd))) = Inr (sd_client sd)"
    "buildIdentity (wd_sha256 w) (cfg_Auth (sd_cfg sd)) = Inr (sd_identity sd)"
    by (auto simp: run_start_def Let_def split: sum.splits option.splits)
  have "open_history w' (sd_cfg sd) = Inr (Some h')" using h'(1) assms(2) by (simp add: open_history_def)
  with parts h'(2-5) show ?thesis
    by (simp add: run_start_def assms(3) start_poller_def start_store_def SetMetrics_poller_def New_poller_def New_def
        SetPersister_def SetMetrics_def New_service_def start_sink_def Let_def)
qed

lemma At_sqlite_cong:
  assumes "sq_snapshots h = sq_snapshots h'"
  shows "At_sqlite env h t = At_sqlite env h' t"
  unfolding At_sqlite_def select_below_def select_above_def assms by (rule refl)

lemma History_sqlite_cong:
  assumes "sq_snapshots h = sq_snapshots h'"
  shows "History_sqlite env h from to = History_sqlite env h' from to"
  unfolding History_sqlite_def assms by (rule refl)

lemma Recent_sqlite_cong:
  assumes "sq_audit h = sq_audit h'"
  shows "Recent_sqlite env l h = Recent_sqlite env l h'"
  unfolding Recent_sqlite_def assms by (rule refl)

lemma pages_from_tables:
  assumes "dp_ops dp = sqlite_ops env" "dp_recent dp = sink_recent env"
    and "st_persist (pl_store (app_poller s)) = Some h" "svc_sink (app_svc s) = Some (SqliteSink a)"
    and "st_persist (pl_store (app_poller s')) = Some h'" "svc_sink (app_svc s') = Some (SqliteSink a')"
    and "sq_snapshots h' = sq_snapshots h" "sq_audit a' = sq_audit a"
    and "\<forall>t. \<exists>x. At_sqlite env h t = Inr x" "\<forall>from to. \<exists>x. History_sqlite env h from to = Inr x"
  shows "Query_Get r ''at'' \<noteq> '''' \<Longrightarrow> map_option snd (handleSnapshot dp r s') = map_option snd (handleSnapshot dp r s)"
    "map_option snd (handleHistory dp r s') = map_option snd (handleHistory dp r s)"
    "map_option snd (handleAudit dp r s') = map_option snd (handleAudit dp r s)"
proof -
  have at: "\<exists>x. At (sqlite_ops env) t (pl_store (app_poller s)) = Some (pl_store (app_poller s), x) \<and>
      At (sqlite_ops env) t (pl_store (app_poller s')) = Some (pl_store (app_poller s'), x)" for t
  proof -
    obtain x where "At_sqlite env h t = Inr x" using assms(9) by blast
    with At_sqlite_cong [OF assms(7), of env t] show ?thesis using assms(3,5) by (simp add: At_def sqlite_ops_def)
  qed
  show "map_option snd (handleSnapshot dp r s') = map_option snd (handleSnapshot dp r s)" if "Query_Get r ''at'' \<noteq> ''''"
  proof (cases "time_Parse (Query_Get r ''at'')")
    case (Some t)
    with at [of t] that show ?thesis by (auto simp: handleSnapshot_def assms(1) Let_def)
  qed (use that in \<open>simp add: handleSnapshot_def\<close>)
  have "\<exists>x. History (sqlite_ops env) from to (pl_store (app_poller s)) = Some (pl_store (app_poller s), x) \<and>
      History (sqlite_ops env) from to (pl_store (app_poller s')) = Some (pl_store (app_poller s'), x)" for "from" to
  proof -
    obtain x where "History_sqlite env h from to = Inr x" using assms(10) by blast
    with History_sqlite_cong [OF assms(7), of env "from" to] show ?thesis using assms(3,5) by (simp add: History_def sqlite_ops_def)
  qed
  note hi = this
  show "map_option snd (handleHistory dp r s') = map_option snd (handleHistory dp r s)"
  proof (cases "parseOptTime (Query_Get r ''from'')"; cases "parseOptTime (Query_Get r ''to'')")
    fix f t assume "parseOptTime (Query_Get r ''from'') = Some f" "parseOptTime (Query_Get r ''to'') = Some t"
    with hi [of f t] show ?thesis by (auto simp: handleHistory_def assms(1))
  qed (simp_all add: handleHistory_def)
  show "map_option snd (handleAudit dp r s') = map_option snd (handleAudit dp r s)"
    using Recent_sqlite_cong [OF assms(8), of env] assms(2,4,6) by (simp add: handleAudit_def Let_def split: option.splits sum.splits)
qed

lemma middleware_snd:
  assumes "\<And>p. map_option snd (h (r\<lparr>req_Principal := p\<rparr>) s') = map_option snd (h (r\<lparr>req_Principal := p\<rparr>) s)"
  shows "map_option snd (Authenticate idn h r s') = map_option snd (Authenticate idn h r s)"
    "map_option snd (Authenticate idn (RequireRole minr h) r s') = map_option snd (Authenticate idn (RequireRole minr h) r s)"
  using assms by (auto simp: Authenticate_def RequireRole_def split: option.splits)

lemma Query_Get_principal [simp]: "Query_Get (r\<lparr>req_Principal := p\<rparr>) k = Query_Get r k"
  by (simp add: Query_Get_def)

text \<open>The queries on the history succeed.\<close>

definition reads_ok :: "sql_env \<Rightarrow> (sqlite, 'd, sink) app \<Rightarrow> bool" where
  "reads_ok env s \<longleftrightarrow> (\<forall>h. st_persist (pl_store (app_poller s)) = Some h \<longrightarrow>
     (\<forall>t. \<exists>x. At_sqlite env h t = Inr x) \<and> (\<forall>from to. \<exists>x. History_sqlite env h from to = Inr x))"

definition past_request :: "endpoint \<Rightarrow> request \<Rightarrow> bool" where
  "past_request ep r \<longleftrightarrow> ep \<in> {HistoryPage, AuditPage} \<or> (ep = SnapshotPage \<and> Query_Get r ''at'' \<noteq> '''')"

lemma serve_from_tables:
  assumes "dp_ops dp = sqlite_ops env" "dp_recent dp = sink_recent env" "reads_ok env s" "past_request ep r"
    and "file_left s = Some (rows, n, audit, m)" "file_left s' = Some (rows, n', audit, m')"
  shows "map_option snd (serve dp ep r s') = map_option snd (serve dp ep r s)"
proof -
  from assms(5) obtain h a where s: "st_persist (pl_store (app_poller s)) = Some h" "svc_sink (app_svc s) = Some (SqliteSink a)"
    "rows = sq_snapshots h" "audit = sq_audit a" unfolding file_left_Some by blast
  from assms(6) obtain h' a' where s': "st_persist (pl_store (app_poller s')) = Some h'" "svc_sink (app_svc s') = Some (SqliteSink a')"
    "rows = sq_snapshots h'" "audit = sq_audit a'" unfolding file_left_Some by blast
  from assms(3) s(1) have ok: "\<forall>t. \<exists>x. At_sqlite env h t = Inr x" "\<forall>from to. \<exists>x. History_sqlite env h from to = Inr x"
    unfolding reads_ok_def by blast+
  have eq: "sq_snapshots h' = sq_snapshots h" "sq_audit a' = sq_audit a" using s(3,4) s'(3,4) by simp_all
  note pages = pages_from_tables [OF assms(1,2) s(1,2) s'(1,2) eq ok]
  have "map_option snd (serve dp SnapshotPage r s') = map_option snd (serve dp SnapshotPage r s)" if "Query_Get r ''at'' \<noteq> ''''"
    unfolding serve.simps by (rule middleware_snd(1) [OF pages(1)]) (simp add: that)
  moreover have "map_option snd (serve dp HistoryPage r s') = map_option snd (serve dp HistoryPage r s)"
    unfolding serve.simps by (rule middleware_snd(1) [OF pages(2)])
  moreover have "map_option snd (serve dp AuditPage r s') = map_option snd (serve dp AuditPage r s)"
    unfolding serve.simps by (rule middleware_snd(2) [OF pages(3)])
  ultimately show ?thesis using assms(4) by (auto simp: past_request_def)
qed

text \<open>C6: A restart loses nothing: with persistence on, whatever polls and requests the program has
  served, the file it leaves lets it start again with the same configuration and again satisfies
  what start-up needs of the audit table; and as long as the queries on it succeed, every
  request for the past (a snapshot at a given time, the history, the audit trail) gets from the
  restarted program the response it would have got before.\<close>

theorem restart_keeps_past:
  assumes "run_start w path = Inr sd" "audit_file_ok w" "pe_Enabled (cfg_Persist (sd_cfg sd))"
    and "running (wd_sql w) (sd_cfg sd) (sd_identity sd) (sd_app sd) evs s"
  shows "\<exists>f sd'. file_left s = Some f \<and> audit_file_ok (w\<lparr>wd_file := f\<rparr>) \<and>
    run_start (w\<lparr>wd_file := f\<rparr>) path = Inr sd' \<and> sd_cfg sd' = sd_cfg sd \<and>
    (\<forall>dp env ep r. dp_ops dp = sqlite_ops env \<longrightarrow> dp_recent dp = sink_recent env \<longrightarrow> reads_ok env s \<longrightarrow> past_request ep r \<longrightarrow>
       map_option snd (serve dp ep r (sd_app sd')) = map_option snd (serve dp ep r s))"
proof -
  from running_durable [OF assms(4) started_durable [OF assms(1,3)]] obtain rows n audit m where
    f: "file_left s = Some (rows, n, audit, m)" unfolding durable_file by (metis prod_cases4)
  then obtain a where a: "svc_sink (app_svc s) = Some (SqliteSink a)" "audit = sq_audit a" "m = sq_audit_seq a"
    unfolding file_left_Some by blast
  have "app_ok sink_ok s" by (rule running_ok [OF assms(4) started_ok(1) [OF assms(1,2)]])
  with a have ok: "audit_file_ok (w\<lparr>wd_file := (rows, n, audit, m)\<rparr>)"
    by (auto simp: app_ok_def audit_file_ok_def audit_wf_def)
  from run_start_file [OF assms(1,3) refl, of rows n audit m] obtain sd' h' where
    sd': "run_start (w\<lparr>wd_file := (rows, n, audit, m)\<rparr>) path = Inr sd'" "sd_cfg sd' = sd_cfg sd"
    "st_persist (pl_store (app_poller (sd_app sd'))) = Some h'" "svc_sink (app_svc (sd_app sd')) = Some (SqliteSink h')"
    "sq_snapshots h' = rows" "sq_snap_seq h' = n" "sq_audit h' = audit" "sq_audit_seq h' = m" by blast
  then have "file_left (sd_app sd') = Some (rows, n, audit, m)" unfolding file_left_Some by blast
  with serve_from_tables [OF _ _ _ _ f] f ok sd'(1,2) show ?thesis by blast
qed

definition demo_durable :: "unit world" where
  "demo_durable = demo_world\<lparr>wd_unmarshal := (\<lambda>raw c. Inr (c\<lparr>cfg_Persist := (cfg_Persist c)\<lparr>pe_Enabled := True, pe_Path := ''h.db''\<rparr>\<rparr>)),
     wd_file := (sq_snapshots demo_db, 2, [], 0)\<rparr>"

definition demo_durable_config :: config where
  "demo_durable_config = demo_config\<lparr>cfg_Persist := \<lparr>pe_Enabled = True, pe_Path = ''h.db'', pe_Retention = 24 * hour\<rparr>\<rparr>"

lemma demo_durable_starts:
  "\<exists>sd. run_start demo_durable ''f'' = Inr sd \<and> sd_cfg sd = demo_durable_config"
proof -
  have l: "Load (wd_readFile demo_durable) (wd_unmarshal demo_durable) (wd_getenv demo_durable) ''f'' = Inr demo_durable_config"
    by (simp add: demo_durable_def demo_world_def Load_def read_config_def Let_def apply_env_def auth_defaults_def or_default_def
        reapply_defaults_def Defaults_def demo_getenv_def zero_proxy_auth_def EqualFold_ascii_def
        demo_durable_config_def demo_config_def validate_def validateTokenAuth_def second_def minute_def hour_def)
  obtain idn where "buildIdentity (wd_sha256 demo_durable) (cfg_Auth demo_durable_config) = Inr idn"
    using loaded_config_identifies [OF l] by blast
  moreover have "Connect (wd_parseDSN demo_durable) (wd_pool demo_durable) (cfg_ClusterDSN demo_durable_config)
      (po_StatementTimeout (cfg_Poll demo_durable_config)) = Inr \<lparr>cl_statementTimeout = 3 * second, cl_versionNum = 160004\<rparr>"
    using demo_world_facts(1) by (simp add: demo_durable_def demo_durable_config_def demo_redacting_def)
  moreover have "\<exists>h. open_history demo_durable demo_durable_config = Inr h"
    by (simp add: open_history_def demo_durable_config_def demo_durable_def demo_world_def Open_def demo_sql_def)
  ultimately show ?thesis using l by (auto simp: run_start_def Let_def)
qed

lemma demo_reads_ok:
  assumes "run_start demo_durable ''f'' = Inr sd" "pe_Enabled (cfg_Persist (sd_cfg sd))"
  shows "reads_ok demo_sql (sd_app sd)"
proof -
  have f: "\<And>st. ev_fault demo_sql st = None" by (simp add: demo_sql_def)
  from run_start_file [OF assms refl, of "sq_snapshots demo_db" 2 "[]" 0] obtain h where
    h: "st_persist (pl_store (app_poller (sd_app sd))) = Some h" "sq_snapshots h = sq_snapshots demo_db"
    using assms(1) by (auto simp: demo_durable_def)
  from h(2) have "db_holds demo_sql [demo_snap 1, demo_snap 9] h" using demo_db_rows(4) by (simp add: db_holds_def)
  from db_readable [OF demo_sql_order this f] h(1) show ?thesis by (simp add: reads_ok_def)
qed

theorem restart_keeps_past_witness:
  "\<exists>sd f sd'. run_start demo_durable ''f'' = Inr sd \<and> file_left (sd_app sd) = Some f \<and>
     run_start (demo_durable\<lparr>wd_file := f\<rparr>) ''f'' = Inr sd' \<and>
     map_option snd (serve (demo_serving (sd_identity sd)) HistoryPage demo_admin_request (sd_app sd')) =
     map_option snd (serve (demo_serving (sd_identity sd)) HistoryPage demo_admin_request (sd_app sd))"
proof -
  obtain sd where sd: "run_start demo_durable ''f'' = Inr sd" "sd_cfg sd = demo_durable_config" using demo_durable_starts by blast
  have en: "pe_Enabled (cfg_Persist (sd_cfg sd))" by (simp add: sd(2) demo_durable_config_def)
  have ok: "audit_file_ok demo_durable" by (simp add: audit_file_ok_def demo_durable_def)
  from restart_keeps_past [OF sd(1) ok en running.begins] obtain f sd' where r: "file_left (sd_app sd) = Some f"
    "run_start (demo_durable\<lparr>wd_file := f\<rparr>) ''f'' = Inr sd'"
    "\<forall>(dp :: (sqlite, unit, sink) deps) env ep r. dp_ops dp = sqlite_ops env \<longrightarrow> dp_recent dp = sink_recent env \<longrightarrow>
       reads_ok env (sd_app sd) \<longrightarrow> past_request ep r \<longrightarrow> map_option snd (serve dp ep r (sd_app sd')) = map_option snd (serve dp ep r (sd_app sd))"
    by blast
  have "map_option snd (serve (demo_serving (sd_identity sd)) HistoryPage demo_admin_request (sd_app sd')) =
     map_option snd (serve (demo_serving (sd_identity sd)) HistoryPage demo_admin_request (sd_app sd))"
    by (rule r(3) [rule_format, of _ demo_sql]) (simp_all add: demo_serving_def demo_reads_ok [OF sd(1) en] past_request_def)
  with sd(1) r(1,2) show ?thesis by blast
qed

end
