(* ===== verification/Lifecycle.thy ===== *)
theory Lifecycle
  imports Running
begin

text \<open>
  \<open>cmd/pglockr/main.go\<close>: the life of the process from the moment \<open>run\<close> serves. Its goroutines
  (the main one, the one that waits for the context to shut the server down, the poller and the
  handlers) take their steps in any order: \<open>perform\<close> is one step, with the guard that says when
  the goroutine can take it, \<open>run_actions\<close> a schedule. \<open>main_exec\<close> is the dispatch on the
  command line.

  What the steps use of the library is documented there: once \<open>Shutdown\<close> is called,
  \<open>ListenAndServe\<close> accepts no more and returns \<open>ErrServerClosed\<close> at once, while \<open>Shutdown\<close>
  itself waits for the handlers until its context expires; \<open>Close\<close> of the pool refuses
  connections from then on and waits until the ones in use are returned; deferred calls run last
  first.
\<close>

section \<open>State\<close>

datatype resource = Hist | Pool | Notify

datatype main_pc = Serving | Closing "string option" | Exited int

datatype shutdown_pc = Waiting | Draining | Returned

record process =
  pc_main :: main_pc
  pc_shutdown :: shutdown_pc
  pc_cancelled :: bool
  pc_defers :: "resource list"
  pc_poolOpen :: bool
  pc_handlers :: nat
  pc_querying :: nat
  pc_polling :: bool

text \<open>The deferred calls, the next one first: \<open>hist.Close\<close> if there is a history, \<open>client.Close\<close>,
  \<open>stop\<close>.\<close>

definition deferred :: "bool \<Rightarrow> resource list" where
  "deferred persist = (if persist then [Hist] else []) @ [Pool, Notify]"

definition begin_serving :: "bool \<Rightarrow> process" where
  "begin_serving persist = \<lparr>pc_main = Serving, pc_shutdown = Waiting, pc_cancelled = False, pc_defers = deferred persist,
     pc_poolOpen = True, pc_handlers = 0, pc_querying = 0, pc_polling = False\<rparr>"

section \<open>Steps\<close>

datatype action =
    Interrupt               \<comment> \<open>SIGINT or SIGTERM cancels the context\<close>
  | ListenError string      \<comment> \<open>\<open>ListenAndServe\<close> fails\<close>
  | Accept                  \<comment> \<open>a request gets its handler\<close>
  | Acquire | Release       \<comment> \<open>a handler takes and returns a connection of the pool\<close>
  | Finish                  \<comment> \<open>a handler has written its response\<close>
  | PollBegin | PollEnd     \<comment> \<open>the poller takes and returns a connection\<close>
  | CallShutdown            \<comment> \<open>the goroutine behind \<open>ctx.Done\<close>\<close>
  | Drained | DrainTimeout  \<comment> \<open>\<open>Shutdown\<close> returns, with or without all handlers done\<close>
  | ServeReturns            \<comment> \<open>\<open>ListenAndServe\<close> returns \<open>ErrServerClosed\<close>\<close>
  | RunDefer                \<comment> \<open>the next deferred call of \<open>run\<close>\<close>
  | ExitMain                \<comment> \<open>\<open>main\<close> returns or exits\<close>

definition run_defer :: "process \<Rightarrow> process option" where
  "run_defer p =
     (case pc_defers p of
        [] \<Rightarrow> None
      | Hist # ds \<Rightarrow> Some (p\<lparr>pc_defers := ds\<rparr>)
      | Pool # ds \<Rightarrow>
          if pc_poolOpen p then Some (p\<lparr>pc_poolOpen := False\<rparr>)
          else if pc_querying p = 0 \<and> \<not> pc_polling p then Some (p\<lparr>pc_defers := ds\<rparr>)
          else None
      | Notify # ds \<Rightarrow> Some (p\<lparr>pc_defers := ds, pc_cancelled := True\<rparr>))"

definition guarded :: "bool \<Rightarrow> process \<Rightarrow> process option" where
  "guarded g p = (if g then Some p else None)"

fun live_step :: "action \<Rightarrow> process \<Rightarrow> process option" where
  "live_step Interrupt p = Some (p\<lparr>pc_cancelled := True\<rparr>)"
| "live_step (ListenError err) p =
     guarded (pc_main p = Serving \<and> pc_shutdown p = Waiting) (p\<lparr>pc_main := Closing (Some err)\<rparr>)"
| "live_step Accept p =
     guarded (pc_main p = Serving \<and> pc_shutdown p = Waiting) (p\<lparr>pc_handlers := pc_handlers p + 1\<rparr>)"
| "live_step Acquire p =
     guarded (0 < pc_handlers p \<and> pc_poolOpen p) (p\<lparr>pc_handlers := pc_handlers p - 1, pc_querying := pc_querying p + 1\<rparr>)"
| "live_step Release p =
     guarded (0 < pc_querying p) (p\<lparr>pc_handlers := pc_handlers p + 1, pc_querying := pc_querying p - 1\<rparr>)"
| "live_step Finish p = guarded (0 < pc_handlers p) (p\<lparr>pc_handlers := pc_handlers p - 1\<rparr>)"
| "live_step PollBegin p = guarded (\<not> pc_polling p \<and> pc_poolOpen p \<and> \<not> pc_cancelled p) (p\<lparr>pc_polling := True\<rparr>)"
| "live_step PollEnd p = guarded (pc_polling p) (p\<lparr>pc_polling := False\<rparr>)"
| "live_step CallShutdown p = guarded (pc_cancelled p \<and> pc_shutdown p = Waiting) (p\<lparr>pc_shutdown := Draining\<rparr>)"
| "live_step Drained p =
     guarded (pc_shutdown p = Draining \<and> pc_handlers p = 0 \<and> pc_querying p = 0) (p\<lparr>pc_shutdown := Returned\<rparr>)"
| "live_step DrainTimeout p = guarded (pc_shutdown p = Draining) (p\<lparr>pc_shutdown := Returned\<rparr>)"
| "live_step ServeReturns p =
     guarded (pc_main p = Serving \<and> pc_shutdown p \<noteq> Waiting) (p\<lparr>pc_main := Closing None\<rparr>)"
| "live_step RunDefer p = (case pc_main p of Closing err \<Rightarrow> run_defer p | _ \<Rightarrow> None)"
| "live_step ExitMain p =
     (case pc_main p of
        Closing err \<Rightarrow> guarded (pc_defers p = []) (p\<lparr>pc_main := Exited (if err = None then 0 else 1)\<rparr>)
      | _ \<Rightarrow> None)"

text \<open>The end of the main goroutine ends the process.\<close>

definition perform :: "action \<Rightarrow> process \<Rightarrow> process option" where
  "perform a p = (case pc_main p of Exited c \<Rightarrow> None | _ \<Rightarrow> live_step a p)"

primrec run_actions :: "action list \<Rightarrow> process \<Rightarrow> process option" where
  "run_actions [] p = Some p"
| "run_actions (a # as) p = do { p \<leftarrow> perform a p; run_actions as p }"

lemma run_actions_append: "run_actions (as @ bs) p = do { q \<leftarrow> run_actions as p; run_actions bs q }"
  by (induction as arbitrary: p) (auto split: bind_split)

lemma guarded_Some [simp]: "guarded g p = Some q \<longleftrightarrow> g \<and> q = p"
  by (auto simp: guarded_def)

lemma perform_Some: "perform a p = Some q \<longleftrightarrow> (\<forall>c. pc_main p \<noteq> Exited c) \<and> live_step a p = Some q"
  by (auto simp: perform_def split: main_pc.splits)

section \<open>How it ends\<close>

text \<open>What holds at every moment, with the errors of \<open>ListenAndServe\<close> so far.\<close>

definition life_inv :: "bool \<Rightarrow> bool \<Rightarrow> bool \<Rightarrow> process \<Rightarrow> bool" where
  "life_inv persist interrupted erred p \<longleftrightarrow>
     suffix (pc_defers p) (deferred persist) \<and>
     (Pool \<notin> set (pc_defers p) \<longrightarrow> \<not> pc_poolOpen p \<and> pc_querying p = 0 \<and> \<not> pc_polling p) \<and>
     (pc_cancelled p \<longrightarrow> interrupted \<or> pc_defers p = []) \<and>
     (interrupted \<or> Notify \<notin> set (pc_defers p) \<longrightarrow> pc_cancelled p) \<and>
     (pc_shutdown p \<noteq> Waiting \<longrightarrow> pc_cancelled p) \<and>
     (case pc_main p of
        Serving \<Rightarrow> pc_defers p = deferred persist \<and> pc_poolOpen p \<and> \<not> erred
      | Closing err \<Rightarrow> (erred \<longleftrightarrow> err \<noteq> None) \<and> (err = None \<longrightarrow> interrupted)
      | Exited c \<Rightarrow> c = (if erred then 1 else 0) \<and> (erred \<or> interrupted) \<and> pc_defers p = [])"

definition listen_error :: "action \<Rightarrow> bool" where
  "listen_error a = (case a of ListenError _ \<Rightarrow> True | _ \<Rightarrow> False)"

lemma deferred_suffix:
  "suffix ds (deferred persist) \<longleftrightarrow> ds \<in> {deferred persist, [Pool, Notify], [Notify], []}"
  by (auto simp: deferred_def suffix_Cons)

lemma deferred_facts [simp]: "Pool \<in> set (deferred persist)" "Notify \<in> set (deferred persist)" "deferred persist \<noteq> []"
  "suffix [Pool, Notify] (deferred persist)" "suffix [Notify] (deferred persist)"
  by (simp_all add: deferred_def suffix_Cons)

lemma life_inv_serving:
  "pc_main p = Serving \<Longrightarrow> life_inv persist i e p \<longleftrightarrow>
     pc_defers p = deferred persist \<and> pc_poolOpen p \<and> \<not> e \<and> (pc_cancelled p \<longleftrightarrow> i) \<and> (pc_shutdown p \<noteq> Waiting \<longrightarrow> i)"
  unfolding life_inv_def by fastforce

lemma life_inv_closing:
  "pc_main p = Closing err \<Longrightarrow> life_inv persist i e p \<longleftrightarrow>
     suffix (pc_defers p) (deferred persist) \<and> (e \<longleftrightarrow> err \<noteq> None) \<and> (err = None \<longrightarrow> i) \<and>
     (Pool \<notin> set (pc_defers p) \<longrightarrow> \<not> pc_poolOpen p \<and> pc_querying p = 0 \<and> \<not> pc_polling p) \<and>
     (pc_cancelled p \<longrightarrow> i \<or> pc_defers p = []) \<and>
     (i \<or> Notify \<notin> set (pc_defers p) \<longrightarrow> pc_cancelled p) \<and> (pc_shutdown p \<noteq> Waiting \<longrightarrow> pc_cancelled p)"
  unfolding life_inv_def by fastforce

lemma life_inv_defer:
  assumes "life_inv persist i e p" "pc_main p = Closing err" "run_defer p = Some q"
  shows "life_inv persist i e q"
proof -
  note inv = assms(1) [unfolded life_inv_closing [OF assms(2)]]
  from inv assms(3) have "pc_defers p = [Hist, Pool, Notify] \<or> pc_defers p = [Pool, Notify] \<or> pc_defers p = [Notify]"
    unfolding deferred_suffix by (auto simp: deferred_def run_defer_def split: if_splits)
  then have q: "(pc_defers p = [Hist, Pool, Notify] \<and> q = p\<lparr>pc_defers := [Pool, Notify]\<rparr>) \<or>
    (pc_defers p = [Pool, Notify] \<and> q = p\<lparr>pc_poolOpen := False\<rparr>) \<or>
    (pc_defers p = [Pool, Notify] \<and> pc_querying p = 0 \<and> \<not> pc_polling p \<and> \<not> pc_poolOpen p \<and> q = p\<lparr>pc_defers := [Notify]\<rparr>) \<or>
    (pc_defers p = [Notify] \<and> q = p\<lparr>pc_defers := [], pc_cancelled := True\<rparr>)"
    using assms(3) by (elim disjE) (simp_all add: run_defer_def split: if_splits)
  from q show ?thesis
    by (elim disjE conjE; hypsubst) (use inv assms(2) in \<open>simp_all add: life_inv_closing\<close>)
qed

lemma life_inv_step:
  assumes "life_inv persist i e p" "perform a p = Some q"
  shows "life_inv persist (i \<or> a = Interrupt) (e \<or> listen_error a) q"
proof -
  have step: "live_step a p = Some q" "\<forall>c. pc_main p \<noteq> Exited c" using assms(2) by (auto simp: perform_Some)
  show ?thesis
  proof (cases "pc_main p")
    case Serving
    note inv = assms(1) [unfolded life_inv_serving [OF Serving]]
    from step(1) Serving show ?thesis
      by (cases a) (use inv in \<open>auto simp: listen_error_def life_inv_serving life_inv_closing\<close>)
  next
    case (Closing err)
    note inv = assms(1) [unfolded life_inv_closing [OF Closing]]
    show ?thesis
    proof (cases a)
      case RunDefer
      with life_inv_defer [OF assms(1) Closing] step(1) Closing show ?thesis by (simp add: listen_error_def)
    next
      case ExitMain
      with step(1) Closing inv show ?thesis by (auto simp: listen_error_def life_inv_def)
    qed (use step(1) Closing inv in \<open>auto simp: listen_error_def life_inv_closing\<close>)
  qed (use step in simp)
qed

lemma life_inv_run:
  "life_inv persist i e p \<Longrightarrow> run_actions as p = Some q \<Longrightarrow>
   life_inv persist (i \<or> Interrupt \<in> set as) (e \<or> list_ex listen_error as) q"
proof (induction as arbitrary: p i e)
  case (Cons a as)
  then obtain p1 where p1: "perform a p = Some p1" "run_actions as p1 = Some q" by (auto simp: bind_eq_Some_conv)
  from Cons.IH [OF life_inv_step [OF Cons.prems(1) p1(1)] p1(2)] show ?case by (simp add: disj_assoc eq_commute disj_left_commute)
qed simp

lemma begin_serving_inv: "life_inv persist False False (begin_serving persist)"
  by (simp add: life_inv_def begin_serving_def deferred_def)

text \<open>C20: However the steps interleave, the process ends with status 1 exactly if \<open>ListenAndServe\<close>
  failed, and otherwise with status 0 after an interrupt; by then every deferred call has run,
  the pool is closed and no query of a handler or of the poller is running.\<close>

theorem exits_clean:
  assumes "run_actions as (begin_serving persist) = Some p" "pc_main p = Exited c"
  shows "c = (if list_ex listen_error as then 1 else 0) \<and> (c = 0 \<longrightarrow> Interrupt \<in> set as) \<and>
    pc_defers p = [] \<and> \<not> pc_poolOpen p \<and> pc_querying p = 0 \<and> \<not> pc_polling p"
  using life_inv_run [OF begin_serving_inv assms(1)] assms(2) by (auto simp: life_inv_def)

definition demo_failure :: "action list" where
  "demo_failure = [PollBegin, ListenError ''address already in use'', RunDefer, RunDefer, PollEnd, RunDefer, RunDefer, ExitMain]"

theorem exits_clean_witness:
  "\<exists>p. run_actions demo_failure (begin_serving True) = Some p \<and> pc_main p = Exited 1 \<and> \<not> pc_poolOpen p"
proof -
  have r: "run_actions demo_failure (begin_serving True) = Some \<lparr>pc_main = Exited 1, pc_shutdown = Waiting, pc_cancelled = True,
      pc_defers = [], pc_poolOpen = False, pc_handlers = 0, pc_querying = 0, pc_polling = False\<rparr>"
    by code_simp
  from exits_clean [OF r] r show ?thesis by simp
qed

section \<open>That it ends\<close>

text \<open>The steps that wind the process up: those of the two goroutines of \<open>run\<close>, and the return of
  connections that are in use.\<close>

definition winding :: "action list" where
  "winding = [CallShutdown, ServeReturns, RunDefer, ExitMain, Release, PollEnd]"

definition steps_left :: "process \<Rightarrow> nat" where
  "steps_left p = (if pc_shutdown p = Waiting then 1 else 0) + (case pc_main p of Serving \<Rightarrow> 2 | Closing _ \<Rightarrow> 1 | Exited _ \<Rightarrow> 0) +
     length (pc_defers p) + (if pc_poolOpen p then 1 else 0) + pc_querying p + (if pc_polling p then 1 else 0)"

definition ending :: "process \<Rightarrow> bool" where
  "ending p \<longleftrightarrow> pc_cancelled p \<or> pc_main p \<noteq> Serving"

definition exited :: "process \<Rightarrow> bool" where
  "exited p = (case pc_main p of Exited _ \<Rightarrow> True | _ \<Rightarrow> False)"

lemma run_defer_step:
  assumes "run_defer p = Some q"
  shows "pc_main q = pc_main p \<and> pc_shutdown q = pc_shutdown p \<and> pc_querying q = pc_querying p \<and> pc_polling q = pc_polling p \<and>
    (length (pc_defers p) = Suc (length (pc_defers q)) \<and> pc_poolOpen q = pc_poolOpen p \<or>
     pc_defers q = pc_defers p \<and> pc_poolOpen p \<and> \<not> pc_poolOpen q)"
proof (cases "pc_defers p")
  case (Cons d ds)
  with assms show ?thesis by (cases d) (auto simp: run_defer_def split: if_splits)
qed (use assms in \<open>simp add: run_defer_def\<close>)

lemma winding_step:
  assumes "a \<in> set winding" "perform a p = Some q"
  shows "steps_left q < steps_left p" "ending p \<Longrightarrow> ending q"
proof -
  have "steps_left q < steps_left p \<and> (ending p \<longrightarrow> ending q)"
  proof (cases "a = RunDefer")
    case True
    with assms(2) obtain err where r: "pc_main p = Closing err" "run_defer p = Some q"
      by (auto simp: perform_Some split: main_pc.splits)
    from run_defer_step [OF r(2)] r(1) show ?thesis by (auto simp: steps_left_def ending_def)
  next
    case False
    then have a: "a \<in> {CallShutdown, ServeReturns, ExitMain, Release, PollEnd}" using assms(1) by (simp add: winding_def)
    have step: "live_step a p = Some q" "\<forall>c. pc_main p \<noteq> Exited c" using assms(2) by (simp_all add: perform_Some)
    show ?thesis
    proof (cases "pc_main p")
      case Serving
      with a step(1) show ?thesis by (elim insertE emptyE) (simp_all add: steps_left_def ending_def)
    next
      case (Closing err)
      with a step(1) show ?thesis by (elim insertE emptyE) (simp_all add: steps_left_def ending_def)
    qed (use step(2) in simp)
  qed
  then show "steps_left q < steps_left p" "ending p \<Longrightarrow> ending q" by auto
qed

lemma winding_enabled:
  assumes "ending p" "\<not> exited p"
  shows "\<exists>a \<in> set winding. perform a p \<noteq> None"
proof (cases "pc_main p")
  case Serving
  then have "perform CallShutdown p \<noteq> None \<or> perform ServeReturns p \<noteq> None"
    using assms(1) by (simp add: perform_def guarded_def ending_def)
  then show ?thesis by (auto simp: winding_def)
next
  case (Closing err)
  have "perform ExitMain p \<noteq> None \<or> perform RunDefer p \<noteq> None \<or> perform Release p \<noteq> None \<or> perform PollEnd p \<noteq> None"
    using Closing by (cases "pc_defers p") (auto simp: perform_def guarded_def run_defer_def split: resource.splits)
  then show ?thesis by (auto simp: winding_def)
qed (use assms(2) in \<open>simp add: exited_def\<close>)

lemma winding_run:
  "set bs \<subseteq> set winding \<Longrightarrow> run_actions bs p = Some q \<Longrightarrow> length bs + steps_left q \<le> steps_left p \<and> (ending p \<longrightarrow> ending q)"
proof (induction bs arbitrary: p)
  case (Cons b bs)
  then obtain p1 where "perform b p = Some p1" "run_actions bs p1 = Some q" by (auto simp: bind_eq_Some_conv)
  with Cons winding_step [of b p p1] show ?case by fastforce
qed simp

lemma winding_exits:
  "ending p \<Longrightarrow> \<exists>bs q. set bs \<subseteq> set winding \<and> run_actions bs p = Some q \<and> exited q"
proof (induction "steps_left p" arbitrary: p rule: less_induct)
  case less
  show ?case
  proof (cases "exited p")
    case True
    then show ?thesis by (intro exI [of _ "[]"]) simp
  next
    case False
    with winding_enabled [OF less.prems] obtain a p1 where a: "a \<in> set winding" "perform a p = Some p1" by auto
    from less.hyps [OF winding_step(1) [OF a] winding_step(2) [OF a less.prems]] obtain bs q where
      "set bs \<subseteq> set winding" "run_actions bs p1 = Some q" "exited q" by blast
    with a show ?thesis by (intro exI [of _ "a # bs"] exI [of _ q]) simp
  qed
qed

lemma steps_left_bound: "life_inv persist i e p \<Longrightarrow> steps_left p \<le> 8 + pc_querying p"
proof -
  assume "life_inv persist i e p"
  then have "suffix (pc_defers p) (deferred persist)" by (simp add: life_inv_def)
  then have "length (pc_defers p) \<le> length (deferred persist)" by (rule suffix_length_le)
  then show ?thesis by (simp add: steps_left_def deferred_def split: main_pc.splits if_splits)
qed

text \<open>C19: Once an interrupt has arrived or \<open>ListenAndServe\<close> has failed, the process ends: the steps
  that wind it up can lead to its exit, they never get stuck before it, and however they are
  scheduled there are at most eight of them and one for each query in progress.\<close>

theorem shutdown_completes:
  assumes "run_actions as (begin_serving persist) = Some p" "Interrupt \<in> set as \<or> list_ex listen_error as"
  shows "(\<exists>bs q. set bs \<subseteq> set winding \<and> run_actions bs p = Some q \<and> exited q) \<and>
    (\<forall>bs q. set bs \<subseteq> set winding \<longrightarrow> run_actions bs p = Some q \<longrightarrow>
       length bs \<le> 8 + pc_querying p \<and> (exited q \<or> (\<exists>a \<in> set winding. perform a q \<noteq> None)))"
proof -
  note inv = life_inv_run [OF begin_serving_inv assms(1)]
  then have e: "ending p" using assms(2) unfolding life_inv_def ending_def by (cases "pc_main p") auto
  have "length bs \<le> 8 + pc_querying p \<and> (exited q \<or> (\<exists>a \<in> set winding. perform a q \<noteq> None))"
    if "set bs \<subseteq> set winding" "run_actions bs p = Some q" for bs q
    using winding_run [OF that] steps_left_bound [OF inv] e winding_enabled [of q] by auto
  with winding_exits [OF e] show ?thesis by blast
qed

definition demo_stop :: "action list" where
  "demo_stop = [Accept, Acquire, Interrupt]"

theorem shutdown_completes_witness:
  "\<exists>p bs q. run_actions demo_stop (begin_serving True) = Some p \<and> run_actions bs p = Some q \<and> exited q \<and> length bs \<le> 9"
proof -
  obtain p where p: "run_actions demo_stop (begin_serving True) = Some p" "pc_querying p = 1"
    by (simp add: demo_stop_def begin_serving_def perform_def guarded_def)
  moreover have "Interrupt \<in> set demo_stop" by (simp add: demo_stop_def)
  ultimately show ?thesis using shutdown_completes [OF p(1)] by fastforce
qed

text \<open>The shutdown does not wait for the requests it means to let finish: when an interrupt
  arrives while a request is being served, \<open>run\<close> can return and the process exit with status 0
  while \<open>Shutdown\<close> is still waiting for the handler, which is lost.\<close>

theorem shutdown_abandons_requests:
  "\<exists>as p. run_actions as (begin_serving False) = Some p \<and> list_all (\<lambda>a. a \<noteq> DrainTimeout) as \<and>
     pc_main p = Exited 0 \<and> pc_shutdown p = Draining \<and> pc_handlers p = 1"
  by (rule exI [of _ "[Accept, Interrupt, CallShutdown, ServeReturns, RunDefer, RunDefer, RunDefer, ExitMain]"])
    (simp add: begin_serving_def deferred_def perform_def guarded_def run_defer_def)

section \<open>The command\<close>

text \<open>The status \<open>run\<close> leaves to \<open>main\<close> under a schedule of its steps; \<open>None\<close> while it still
  runs.\<close>

definition run_status :: "'d world \<Rightarrow> action list \<Rightarrow> string \<Rightarrow> int option" where
  "run_status w as configPath =
     (case run_start w configPath of
        Inl err \<Rightarrow> Some 1
      | Inr sd \<Rightarrow>
          (case run_actions as (begin_serving (pe_Enabled (cfg_Persist (sd_cfg sd)))) of
             None \<Rightarrow> None
           | Some p \<Rightarrow> (case pc_main p of Exited c \<Rightarrow> Some c | _ \<Rightarrow> None)))"

record main_result =
  mr_stdout :: string
  mr_stderr :: string
  mr_code :: int

text \<open>\<open>main\<close> on the arguments of the process, without the lines of the logger. The flag package
  prints its own messages and exits with a status of its own (the left side of \<open>flags\<close>).\<close>

definition main_exec ::
  "string \<Rightarrow> (string list \<Rightarrow> string + string \<times> string) \<Rightarrow> (string list \<Rightarrow> int + string) \<Rightarrow> (string \<Rightarrow> int option) \<Rightarrow>
   string list \<Rightarrow> main_result option" where
  "main_exec version grants flags status args =
     (if length args > 1 \<and> args ! 1 = ''grants'' then
        Some (case grants (drop 2 args) of
                Inl err \<Rightarrow> \<lparr>mr_stdout = '''', mr_stderr = ''error: '' @ err @ nl, mr_code = 1\<rparr>
              | Inr (sql, help) \<Rightarrow> \<lparr>mr_stdout = sql, mr_stderr = help, mr_code = 0\<rparr>)
      else if length args > 1 \<and> (args ! 1 = ''version'' \<or> args ! 1 = ''--version'') then
        Some \<lparr>mr_stdout = ''pglockr '' @ version @ nl, mr_stderr = '''', mr_code = 0\<rparr>
      else
        (case flags (drop 1 args) of
           Inl code \<Rightarrow> Some \<lparr>mr_stdout = '''', mr_stderr = '''', mr_code = code\<rparr>
         | Inr configPath \<Rightarrow>
             map_option (\<lambda>code. \<lparr>mr_stdout = '''', mr_stderr = '''', mr_code = code\<rparr>) (status configPath)))"

lemma run_status_exact:
  "run_status w as path = Some c \<Longrightarrow>
     c = (case run_start w path of Inl _ \<Rightarrow> 1 | Inr _ \<Rightarrow> if list_ex listen_error as then 1 else 0)"
  by (auto simp: run_status_def split: sum.splits option.splits main_pc.splits
      dest!: life_inv_run [OF begin_serving_inv] simp: life_inv_def)

text \<open>The status of the command: \<open>grants\<close> prints the script for the standard output and needs
  neither configuration nor cluster; the server ends with status 1 exactly if it could not start
  or could not listen, and with 0 otherwise.\<close>

theorem main_status:
  assumes "main_exec version (runGrants quote parse rand) flags (run_status w as) (prog # args) = Some res"
  shows "(\<forall>rest. args = ''grants'' # rest \<longrightarrow>
      (case runGrants quote parse rand rest of
         Inl _ \<Rightarrow> mr_code res = 1 \<and> mr_stdout res = ''''
       | Inr (sql, help) \<Rightarrow> mr_code res = 0 \<and> mr_stdout res = sql)) \<and>
    (\<forall>path. take 1 args \<notin> {[''grants''], [''version''], [''--version'']} \<longrightarrow> flags args = Inr path \<longrightarrow>
       mr_code res = (case run_start w path of Inl _ \<Rightarrow> 1 | Inr _ \<Rightarrow> if list_ex listen_error as then 1 else 0))"
proof (intro conjI allI impI)
  fix rest assume "args = ''grants'' # rest"
  with assms show "case runGrants quote parse rand rest of
      Inl _ \<Rightarrow> mr_code res = 1 \<and> mr_stdout res = '''' | Inr (sql, help) \<Rightarrow> mr_code res = 0 \<and> mr_stdout res = sql"
    by (auto simp: main_exec_def split: sum.splits)
next
  fix path assume a: "take 1 args \<notin> {[''grants''], [''version''], [''--version'']}" "flags args = Inr path"
  then have "main_exec version (runGrants quote parse rand) flags (run_status w as) (prog # args) =
      map_option (\<lambda>code. \<lparr>mr_stdout = '''', mr_stderr = '''', mr_code = code\<rparr>) (run_status w as path)"
    by (cases args) (simp_all add: main_exec_def)
  with assms obtain c where "run_status w as path = Some c" "mr_code res = c" by auto
  then show "mr_code res = (case run_start w path of Inl _ \<Rightarrow> 1 | Inr _ \<Rightarrow> if list_ex listen_error as then 1 else 0)"
    using run_status_exact [of w as path c] by blast
qed

end
