(* ===== verification/Api_Types.thy ===== *)
theory Api_Types
  imports Api
begin

text \<open>
  The types of the responses: for every endpoint the statuses it can answer with and the kind of
  body that goes with each. The metrics page, the files of the user interface and the answer to
  a rejected upgrade are made by libraries and carry no type here.
\<close>

datatype body_type = TText | THealth | TPrincipal | TStatuses | TSnapshot | TMetas | TEntries | TLocks | THotObjects
  | TResult | TSignalError | TFamilies | TFrames

fun json_type :: "json \<Rightarrow> body_type" where
  "json_type (JHealth _ _ _) = THealth"
| "json_type (JPrincipal _) = TPrincipal"
| "json_type (JStatuses _) = TStatuses"
| "json_type (JSnapshot _) = TSnapshot"
| "json_type (JMetas _) = TMetas"
| "json_type (JEntries _) = TEntries"
| "json_type (JLocks _) = TLocks"
| "json_type (JHotObjects _) = THotObjects"
| "json_type (JResult _) = TResult"
| "json_type (JSignalError _ _) = TSignalError"
| "json_type (JFamilies _) = TFamilies"
| "json_type (JFrames _) = TFrames"

fun type_of_body :: "json body \<Rightarrow> body_type" where
  "type_of_body (Text _) = TText"
| "type_of_body (JSON j) = json_type j"

definition texts :: "int list \<Rightarrow> (int \<times> body_type) list" where
  "texts codes = map (\<lambda>c. (c, TText)) codes"

fun response_types :: "endpoint \<Rightarrow> (int \<times> body_type) list" where
  "response_types Healthz = [(200, THealth), (503, THealth)]"
| "response_types Me = (200, TPrincipal) # texts [401]"
| "response_types Clusters = (200, TStatuses) # texts [401]"
| "response_types SnapshotPage = (200, TSnapshot) # texts [400, 401, 404, 503]"
| "response_types HistoryPage = (200, TMetas) # texts [400, 401]"
| "response_types Stream = (101, TFrames) # texts [401]"
| "response_types LocksPage = (200, TLocks) # texts [401, 502]"
| "response_types HotObjectsPage = (200, THotObjects) # texts [401, 502]"
| "response_types CancelSession = (200, TResult) # (502, TSignalError) # texts [400, 401, 403]"
| "response_types TerminateSession = (200, TResult) # (502, TSignalError) # texts [400, 401, 403]"
| "response_types AuditPage = (200, TEntries) # texts [400, 401, 403, 500]"
| "response_types MetricsPage = []"
| "response_types Spa = []"

text \<open>A JSON body is declared as such, a text body is not.\<close>

definition has_type :: "json response \<Rightarrow> (int \<times> body_type) list \<Rightarrow> bool" where
  "has_type resp ts \<longleftrightarrow>
     (resp_Status resp, type_of_body (resp_Body resp)) \<in> set ts \<and>
     (resp_Status resp \<noteq> 101 \<longrightarrow>
        ((''Content-Type'', ''application/json'') \<in> set (resp_Header resp) \<longleftrightarrow> type_of_body (resp_Body resp) \<noteq> TText))"

definition typed :: "(('p, 'd, 'k) app \<times> json response) option \<Rightarrow> (int \<times> body_type) list \<Rightarrow> bool" where
  "typed res ts \<longleftrightarrow> (\<forall>s resp. res = Some (s, resp) \<longrightarrow> has_type resp ts)"

named_theorems typing

lemma typed_None [typing]: "typed None ts"
  by (simp add: typed_def)

lemma typed_Error [typing]: "code \<noteq> 101 \<Longrightarrow> (code, TText) \<in> set ts \<Longrightarrow> typed (Some (s, http_Error msg code)) ts"
  by (simp add: typed_def has_type_def http_Error_def text_headers_def)

lemma typed_JSON [typing]:
  "(code, json_type j) \<in> set ts \<Longrightarrow> json_type j \<noteq> TText \<Longrightarrow> typed (Some (s, writeJSON code j)) ts"
  by (simp add: typed_def has_type_def writeJSON_def)

lemma json_type_not_text [simp]: "json_type j \<noteq> TText"
  by (cases j) simp_all

text \<open>The middlewares add their own answers.\<close>

lemma typed_Authenticate:
  "(401, TText) \<in> set ts \<Longrightarrow> (\<And>r. typed (h r s) ts) \<Longrightarrow> typed (Authenticate idn h r s) ts"
  by (auto simp: typed_def has_type_def Authenticate_def with_header_def http_Error_def text_headers_def split: option.splits)

lemma typed_RequireRole:
  "(401, TText) \<in> set ts \<Longrightarrow> (403, TText) \<in> set ts \<Longrightarrow> (\<And>r. typed (h r s) ts) \<Longrightarrow> typed (RequireRole minr h r s) ts"
  by (auto simp: typed_def has_type_def RequireRole_def http_Error_def text_headers_def split: option.splits)

lemma typed_requireSameOrigin:
  "(403, TText) \<in> set ts \<Longrightarrow> (\<And>r. typed (h r s) ts) \<Longrightarrow> typed (requireSameOrigin h r s) ts"
  by (auto simp: typed_def has_type_def requireSameOrigin_def http_Error_def text_headers_def)

lemma typed_handlers:
  "typed (handleHealthz r s) (response_types Healthz)"
  "typed (handleMe r s) (response_types Me)"
  "typed (handleClusters r s) (response_types Clusters)"
  "typed (handleSnapshot dp r s) (response_types SnapshotPage)"
  "typed (handleHistory dp r s) (response_types HistoryPage)"
  "typed (handleLocks dp r s) (response_types LocksPage)"
  "typed (handleHotObjects dp r s) (response_types HotObjectsPage)"
  "typed (handleAudit dp r s) (response_types AuditPage)"
  "typed (doSignal dp action r s) (response_types CancelSession)"
  by (auto simp: texts_def handleHealthz_def handleMe_def handleClusters_def handleSnapshot_def handleHistory_def
      handleLocks_def handleHotObjects_def handleAudit_def doSignal_def Let_def
      intro!: typing split: option.splits sum.splits prod.splits if_splits)

lemma typed_stream:
  "dp_wsRejected dp = None \<Longrightarrow> typed (handleStreamPage dp r s) (response_types Stream)"
  by (auto simp: typed_def has_type_def handleStreamPage_def split: option.splits)

lemma guarded_types:
  "ep \<notin> {Healthz, MetricsPage, Spa} \<Longrightarrow> (401, TText) \<in> set (response_types ep)"
  "ep \<in> {CancelSession, TerminateSession, AuditPage} \<Longrightarrow> (403, TText) \<in> set (response_types ep)"
  by (cases ep; simp add: texts_def)+

lemma typed_terminate: "typed (doSignal dp action r s) (response_types TerminateSession)"
  using typed_handlers(9) by simp

lemma typed_serve:
  assumes "ep \<notin> {MetricsPage, Spa}" "ep = Stream \<longrightarrow> dp_wsRejected dp = None"
  shows "typed (serve dp ep r s) (response_types ep)"
  using assms
  by (cases ep) (auto simp: handleCancel_def handleTerminate_def simp del: response_types.simps
      intro!: typed_Authenticate typed_RequireRole typed_requireSameOrigin typed_handlers typed_terminate typed_stream guarded_types)



end
