(* ===== verification/Wire.thy ===== *)
theory Wire
  imports Api_Types Persist
begin

text \<open>
  What goes over the wire: the JSON bodies that \<open>writeJSON\<close> encodes, with the names of the tags
  of every struct and the sorted keys of the two maps, and the text \<open>Encode\<close> writes. The
  lemmas show that each body is a document a client can parse, and that a client that reads the
  fields by the names of the contract gets the value the handler answered with.
\<close>

section \<open>Bodies\<close>

definition Marshal_principal :: "principal \<Rightarrow> time_error + jvalue" where
  "Marshal_principal p = json_struct [(''name'', json_string (pr_Name p)), (''role'', json_string (pr_Role p))]"

text \<open>\<open>omitempty\<close>.\<close>

definition nonempty_field :: "string \<Rightarrow> string \<Rightarrow> (string \<times> (time_error + jvalue)) list" where
  "nonempty_field name v = (if v = '''' then [] else [(name, json_string v)])"

definition Marshal_status :: "(time \<Rightarrow> int) \<Rightarrow> poll_status \<Rightarrow> time_error + jvalue" where
  "Marshal_status zone st = json_struct
     ([(''cluster'', json_string (ps_Cluster st)), (''connected'', json_bool (ps_Connected st)),
       (''lastPoll'', json_time zone (ps_LastPoll st))] @ nonempty_field ''lastError'' (ps_LastError st))"

definition Marshal_meta :: "(time \<Rightarrow> int) \<Rightarrow> meta \<Rightarrow> time_error + jvalue" where
  "Marshal_meta zone m = json_struct
     [(''takenAt'', json_time zone (meta_TakenAt m)), (''roots'', json_int (meta_Roots m)), (''edges'', json_int (meta_Edges m)),
      (''sessions'', json_int (meta_Sessions m))]"

definition Marshal_entry :: "(time \<Rightarrow> int) \<Rightarrow> entry \<Rightarrow> time_error + jvalue" where
  "Marshal_entry zone e = json_struct
     ([(''at'', json_time zone (ent_At e)), (''actor'', json_string (ent_Actor e)), (''action'', json_string (ent_Action e)),
       (''pid'', json_int (ent_PID e)), (''victimQuery'', json_string (ent_VictimQuery e)), (''delivered'', json_bool (ent_Delivered e))]
      @ nonempty_field ''error'' (ent_Error e))"

definition Marshal_lock :: "lock_row \<Rightarrow> time_error + jvalue" where
  "Marshal_lock l = json_struct
     [(''lockType'', json_string (lk_LockType l)), (''object'', json_string (lk_Object l)), (''mode'', json_string (lk_Mode l)),
      (''granted'', json_bool (lk_Granted l)), (''pid'', json_int (lk_PID l))]"

definition Marshal_hot :: "hot_object \<Rightarrow> time_error + jvalue" where
  "Marshal_hot h = json_struct
     [(''object'', json_string (ho_Object h)), (''waiters'', json_int (ho_Waiters h)), (''holders'', json_int (ho_Holders h))]"

definition Marshal_result :: "(time \<Rightarrow> int) \<Rightarrow> signal_result \<Rightarrow> time_error + jvalue" where
  "Marshal_result zone r = json_struct
     [(''action'', json_string (res_Action r)), (''pid'', json_int (res_PID r)), (''delivered'', json_bool (res_Delivered r)),
      (''at'', json_time zone (res_At r))]"

text \<open>The families of the metrics page and the frames of a stream are not bodies of \<open>writeJSON\<close>.\<close>

fun Marshal_json :: "(time \<Rightarrow> int) \<Rightarrow> json \<Rightarrow> (time_error + jvalue) option" where
  "Marshal_json zone (JHealth status connected lastPoll) = Some (json_struct
     [(''connected'', json_bool connected), (''lastPoll'', json_time zone lastPoll), (''status'', json_string status)])"
| "Marshal_json zone (JPrincipal p) = Some (Marshal_principal p)"
| "Marshal_json zone (JStatuses sts) = Some (json_array (map (Marshal_status zone) sts))"
| "Marshal_json zone (JSnapshot x) = Some (Marshal_snapshot zone x)"
| "Marshal_json zone (JMetas ms) = Some (json_array (map (Marshal_meta zone) ms))"
| "Marshal_json zone (JEntries es) = Some (json_array (map (Marshal_entry zone) es))"
| "Marshal_json zone (JLocks ls) = Some (json_array (map Marshal_lock ls))"
| "Marshal_json zone (JHotObjects hs) = Some (json_array (map Marshal_hot hs))"
| "Marshal_json zone (JResult r) = Some (Marshal_result zone r)"
| "Marshal_json zone (JSignalError err r) = Some (json_struct [(''error'', json_string err), (''result'', Marshal_result zone r)])"
| "Marshal_json zone (JFamilies fams) = None"
| "Marshal_json zone (JFrames frames) = None"

text \<open>\<open>Encoder.Encode\<close> ends the document with a newline; on an error, which \<open>writeJSON\<close> ignores, it
  writes nothing.\<close>

definition Encode :: "time_error + jvalue \<Rightarrow> string" where
  "Encode doc = (case doc of Inl _ \<Rightarrow> '''' | Inr v \<Rightarrow> json_text v @ [CHR 0x0A])"

definition body_text :: "(time \<Rightarrow> int) \<Rightarrow> json body \<Rightarrow> string option" where
  "body_text zone b = (case b of Text s \<Rightarrow> Some s | JSON j \<Rightarrow> map_option Encode (Marshal_json zone j))"

section \<open>Every body is a document\<close>

text \<open>If the value could be written then the scanner takes it, and it is not nested deeper than
  \<open>n\<close>.\<close>

definition well_written :: "nat \<Rightarrow> time_error + jvalue \<Rightarrow> bool" where
  "well_written n doc \<longleftrightarrow> (\<forall>v. doc = Inr v \<longrightarrow> writable v \<and> nested v n)"

lemma well_written_scalars [simp]:
  "well_written n (json_string s)" "well_written n (json_int i)" "well_written n (json_bool b)" "well_written n (json_time zone t)"
proof -
  show "well_written n (json_time zone t)"
    using MarshalTime_plain [of zone t] by (auto simp: well_written_def json_time_def plain_key_body plain_key_def split: sum.splits)
qed (auto simp: well_written_def scalar_simps)

lemma sum_list_of_set: "sum_list_of xs = Inr vs \<Longrightarrow> v \<in> set vs \<Longrightarrow> Inr v \<in> set xs"
  by (induction xs arbitrary: vs) (auto split: sum.splits)

lemma well_written_array: "(\<And>x. x \<in> set xs \<Longrightarrow> well_written n x) \<Longrightarrow> 0 < m \<Longrightarrow> n \<le> m - 1 \<Longrightarrow> well_written m (json_array xs)"
  using sum_list_of_set [of xs] nested_mono by (fastforce simp: well_written_def json_array_def split: sum.splits)

lemma well_written_struct:
  assumes "\<And>k x. (k, x) \<in> set ms \<Longrightarrow> plain_key k \<and> well_written n x" "0 < m" "n \<le> m - 1"
  shows "well_written m (json_struct ms)"
proof -
  have "writable (JObject (zip (map fst ms) vs)) \<and> nested (JObject (zip (map fst ms) vs)) m" if vs: "sum_list_of (map snd ms) = Inr vs" for vs
  proof -
    have "string_body k \<and> writable v \<and> nested v (m - 1)" if "(k, v) \<in> set (zip (map fst ms) vs)" for k v
    proof -
      from that have "k \<in> fst ` set ms" "v \<in> set vs" by (auto dest: set_zip_leftD set_zip_rightD)
      then have "plain_key k" "\<exists>k'. (k', Inr v) \<in> set ms" using assms(1) sum_list_of_set [OF vs] by force+
      then show ?thesis using assms plain_key_body nested_mono by (fastforce simp: well_written_def plain_key_def)
    qed
    then show ?thesis using assms(2) by auto
  qed
  then show ?thesis by (auto simp: well_written_def json_struct_def split: sum.splits)
qed

lemma omitted_well [simp]:
  "(k, x) \<in> set (nonempty_field name v) \<Longrightarrow> plain_key name \<Longrightarrow> plain_key k \<and> well_written n x"
  by (auto simp: nonempty_field_def split: if_splits)

lemmas marshal_defs = Marshal_principal_def Marshal_status_def Marshal_meta_def Marshal_entry_def Marshal_lock_def Marshal_hot_def
  Marshal_result_def Marshal_session_def Marshal_edge_def

lemma struct_well:
  "well_written 2 (Marshal_principal p)" "well_written 2 (Marshal_status zone st)" "well_written 2 (Marshal_meta zone m)"
  "well_written 2 (Marshal_entry zone e)" "well_written 2 (Marshal_lock l)" "well_written 2 (Marshal_hot h)"
  "well_written 2 (Marshal_result zone r)" "well_written 3 (Marshal_session zone s)" "well_written 2 (Marshal_edge ed)"
proof -
  have "well_written 2 (json_nilable is)" for "is"
    by (auto simp: json_nilable_def well_written_def [of 2 "Inr JNull"] intro!: well_written_array [of _ 0])
  then show "well_written 3 (Marshal_session zone s)"
    unfolding Marshal_session_def by (intro well_written_struct [of _ 2]) (auto simp: plain_def)
qed (unfold marshal_defs, (rule well_written_struct [of _ 0]; auto simp: plain_def dest: omitted_well)+)

lemma snapshot_well: "well_written 6 (Marshal_snapshot zone x)"
proof -
  have "well_written 4 (json_struct (map_members (Marshal_session zone) m))" for m
    by (rule well_written_struct [of _ 3]) (auto simp: map_members_def Itoa_plain struct_well)
  moreover have "well_written 4 (json_array (map Marshal_edge es))" "well_written 4 (json_array (map json_int is))" for es "is"
    by (rule well_written_array [of _ 2]; auto simp: struct_well)+
  ultimately show ?thesis unfolding Marshal_snapshot_def by (intro well_written_struct [of _ 4]) (auto simp: plain_def)
qed

lemma array_of_structs: "(\<And>x. well_written 2 (f x)) \<Longrightarrow> well_written 6 (json_array (map f xs))"
  by (rule well_written_array [of _ 2]) auto

lemma Marshal_json_well: "Marshal_json zone j = Some doc \<Longrightarrow> well_written 6 doc"
proof -
  assume "Marshal_json zone j = Some doc"
  moreover have "well_written 6 x" if "well_written 2 x" for x using that nested_mono unfolding well_written_def by fastforce
  moreover have "well_written 6 (json_struct [(''connected'', json_bool c), (''lastPoll'', json_time zone t), (''status'', json_string s)])"
    "well_written 6 (json_struct [(''error'', json_string err), (''result'', Marshal_result zone r)])" for c t s err r
    by (rule well_written_struct [of _ 2]; auto simp: plain_def struct_well)+
  ultimately show ?thesis by (cases j) (auto simp: struct_well snapshot_well intro!: array_of_structs)
qed

lemma Encode_parses:
  assumes "Marshal_json zone j = Some (Inr v)"
  shows "json_parse (Encode (Inr v)) = Some v"
proof -
  from Marshal_json_well [OF assms] have "writable v" "nested v 6" by (auto simp: well_written_def)
  then show ?thesis using json_parse_text [of v "[CHR 0x0A]"] nested_mono [of v 6 max_depth] by (simp add: Encode_def json_space_def)
qed

section \<open>Which bodies can be written\<close>

text \<open>The times in a body; nothing else can keep the encoder from writing it.\<close>

definition session_times :: "session \<Rightarrow> time list" where
  "session_times s = [sess_XactStart s, sess_QueryStart s, sess_WaitStart s]"

fun json_times :: "json \<Rightarrow> time set" where
  "json_times (JHealth _ _ t) = {t}"
| "json_times (JStatuses sts) = ps_LastPoll ` set sts"
| "json_times (JSnapshot x) = insert (snap_TakenAt x) (\<Union>s \<in> fset (fmran (snap_Sessions x)). set (session_times s))"
| "json_times (JMetas ms) = meta_TakenAt ` set ms"
| "json_times (JEntries es) = ent_At ` set es"
| "json_times (JResult r) = {res_At r}"
| "json_times (JSignalError _ r) = {res_At r}"
| "json_times _ = {}"

lemma isl_array [simp]: "isl (json_array xs) \<longleftrightarrow> (\<exists>x \<in> set xs. isl x)"
proof -
  have "(\<exists>e. sum_list_of xs = Inl e) \<longleftrightarrow> (\<exists>x \<in> set xs. isl x)" by (induction xs) (auto split: sum.splits)
  then show ?thesis by (auto simp: json_array_def isl_def split: sum.splits)
qed

lemma isl_struct [simp]: "isl (json_struct ms) \<longleftrightarrow> (\<exists>m \<in> set ms. isl (snd m))"
proof -
  have "isl (json_struct ms) \<longleftrightarrow> isl (json_array (map snd ms))" by (simp add: json_struct_def json_array_def split: sum.splits)
  then show ?thesis by simp
qed

lemma isl_scalars [simp]:
  "\<not> isl (json_string s)" "\<not> isl (json_int i)" "\<not> isl (json_bool b)" "isl (json_time zone t) \<longleftrightarrow> isl (MarshalTime zone t)"
  "\<not> isl (json_nilable is)"
  by (simp_all add: json_string_def json_int_def json_bool_def json_time_def json_nilable_def split: sum.splits)

lemma isl_omitted [simp]: "(\<exists>m \<in> set (nonempty_field name v). isl (snd m)) \<longleftrightarrow> False"
  by (simp add: nonempty_field_def)

lemma isl_session [simp]: "isl (Marshal_session zone s) \<longleftrightarrow> (\<exists>t \<in> set (session_times s). isl (MarshalTime zone t))"
  by (auto simp: Marshal_session_def session_times_def)

lemma isl_structs [simp]:
  "\<not> isl (Marshal_principal p)" "isl (Marshal_status zone st) \<longleftrightarrow> isl (MarshalTime zone (ps_LastPoll st))"
  "isl (Marshal_meta zone m) \<longleftrightarrow> isl (MarshalTime zone (meta_TakenAt m))" "isl (Marshal_entry zone e) \<longleftrightarrow> isl (MarshalTime zone (ent_At e))"
  "\<not> isl (Marshal_lock l)" "\<not> isl (Marshal_hot h)" "isl (Marshal_result zone r) \<longleftrightarrow> isl (MarshalTime zone (res_At r))"
  "\<not> isl (Marshal_edge ed)"
  by (auto simp: marshal_defs nonempty_field_def)

lemma isl_sessions:
  assumes "isl (json_struct (map_members (Marshal_session zone) m))"
  shows "\<exists>s \<in> fset (fmran m). \<exists>t \<in> set (session_times s). isl (MarshalTime zone t)"
proof -
  from assms obtain k where "k \<in> fset (fmdom m)" "isl (Marshal_session zone (the (fmlookup m k)))"
    by (auto simp: map_members_def key_order.ord_set)
  moreover from this(1) obtain s where "fmlookup m k = Some s" by (auto simp: fmlookup_dom_iff)
  moreover from this have "s |\<in>| fmran m" by (rule fmranI)
  ultimately show ?thesis by auto
qed

lemma isl_snapshot:
  assumes "isl (Marshal_snapshot zone x)"
  shows "\<exists>t \<in> json_times (JSnapshot x). isl (MarshalTime zone t)"
  using assms isl_sessions [of zone "snap_Sessions x"] by (auto simp: Marshal_snapshot_def)

lemma Marshal_json_fails:
  assumes "Marshal_json zone j = Some doc" "\<forall>t \<in> json_times j. \<not> isl (MarshalTime zone t)"
  shows "\<exists>v. doc = Inr v"
proof -
  have "\<not> isl doc" using assms isl_snapshot [of zone] by (cases j) auto
  then show ?thesis by (cases doc) auto
qed

section \<open>The client's reading of a body\<close>

text \<open>The fields of a body by the names the contract gives them (\<open>web/src/types.ts\<close>), each read into
  the field of the struct it stands for; a field that is missing keeps its zero value.\<close>

definition zero_principal :: principal where
  "zero_principal = \<lparr>pr_Name = '''', pr_Role = ''''\<rparr>"

definition principal_fields :: "(string \<times> principal decoder) list" where
  "principal_fields = [(''name'', to_string (\<lambda>v. pr_Name_update (\<lambda>_. v))), (''role'', to_string (\<lambda>v. pr_Role_update (\<lambda>_. v)))]"

definition zero_status :: poll_status where
  "zero_status = \<lparr>ps_Cluster = '''', ps_Connected = False, ps_LastPoll = zero_time, ps_LastError = ''''\<rparr>"

definition status_fields :: "(string \<times> poll_status decoder) list" where
  "status_fields =
     [(''cluster'', to_string (\<lambda>v. ps_Cluster_update (\<lambda>_. v))), (''connected'', to_bool (\<lambda>v. ps_Connected_update (\<lambda>_. v))),
      (''lastPoll'', to_time (\<lambda>v. ps_LastPoll_update (\<lambda>_. v))), (''lastError'', to_string (\<lambda>v. ps_LastError_update (\<lambda>_. v)))]"

definition zero_meta :: meta where
  "zero_meta = \<lparr>meta_TakenAt = zero_time, meta_Roots = 0, meta_Edges = 0, meta_Sessions = 0\<rparr>"

definition meta_fields :: "(string \<times> meta decoder) list" where
  "meta_fields =
     [(''takenAt'', to_time (\<lambda>v. meta_TakenAt_update (\<lambda>_. v))), (''roots'', to_int (\<lambda>v. meta_Roots_update (\<lambda>_. v))),
      (''edges'', to_int (\<lambda>v. meta_Edges_update (\<lambda>_. v))), (''sessions'', to_int (\<lambda>v. meta_Sessions_update (\<lambda>_. v)))]"

definition zero_entry :: entry where
  "zero_entry = \<lparr>ent_At = zero_time, ent_Actor = '''', ent_Action = '''', ent_PID = 0, ent_VictimQuery = '''', ent_Delivered = False,
     ent_Error = ''''\<rparr>"

definition entry_fields :: "(string \<times> entry decoder) list" where
  "entry_fields =
     [(''at'', to_time (\<lambda>v. ent_At_update (\<lambda>_. v))), (''actor'', to_string (\<lambda>v. ent_Actor_update (\<lambda>_. v))),
      (''action'', to_string (\<lambda>v. ent_Action_update (\<lambda>_. v))), (''pid'', to_int (\<lambda>v. ent_PID_update (\<lambda>_. v))),
      (''victimQuery'', to_string (\<lambda>v. ent_VictimQuery_update (\<lambda>_. v))), (''delivered'', to_bool (\<lambda>v. ent_Delivered_update (\<lambda>_. v))),
      (''error'', to_string (\<lambda>v. ent_Error_update (\<lambda>_. v)))]"

definition zero_lock :: lock_row where
  "zero_lock = \<lparr>lk_LockType = '''', lk_Object = '''', lk_Mode = '''', lk_Granted = False, lk_PID = 0\<rparr>"

definition lock_fields :: "(string \<times> lock_row decoder) list" where
  "lock_fields =
     [(''lockType'', to_string (\<lambda>v. lk_LockType_update (\<lambda>_. v))), (''object'', to_string (\<lambda>v. lk_Object_update (\<lambda>_. v))),
      (''mode'', to_string (\<lambda>v. lk_Mode_update (\<lambda>_. v))), (''granted'', to_bool (\<lambda>v. lk_Granted_update (\<lambda>_. v))),
      (''pid'', to_int (\<lambda>v. lk_PID_update (\<lambda>_. v)))]"

definition zero_hot :: hot_object where
  "zero_hot = \<lparr>ho_Object = '''', ho_Waiters = 0, ho_Holders = 0\<rparr>"

definition hot_fields :: "(string \<times> hot_object decoder) list" where
  "hot_fields =
     [(''object'', to_string (\<lambda>v. ho_Object_update (\<lambda>_. v))), (''waiters'', to_int (\<lambda>v. ho_Waiters_update (\<lambda>_. v))),
      (''holders'', to_int (\<lambda>v. ho_Holders_update (\<lambda>_. v)))]"

definition zero_result :: signal_result where
  "zero_result = \<lparr>res_Action = '''', res_PID = 0, res_Delivered = False, res_At = zero_time\<rparr>"

definition result_fields :: "(string \<times> signal_result decoder) list" where
  "result_fields =
     [(''action'', to_string (\<lambda>v. res_Action_update (\<lambda>_. v))), (''pid'', to_int (\<lambda>v. res_PID_update (\<lambda>_. v))),
      (''delivered'', to_bool (\<lambda>v. res_Delivered_update (\<lambda>_. v))), (''at'', to_time (\<lambda>v. res_At_update (\<lambda>_. v)))]"

text \<open>The two bodies that are maps: the members of \<open>/healthz\<close>, and an error beside the result.\<close>

definition health_fields :: "(string \<times> (string \<times> bool \<times> time) decoder) list" where
  "health_fields =
     [(''status'', to_string (\<lambda>v (_, c, t). (v, c, t))), (''connected'', to_bool (\<lambda>v (s, _, t). (s, v, t))),
      (''lastPoll'', to_time (\<lambda>v (s, c, _). (s, c, v)))]"

definition failure_fields :: "(string \<times> (string \<times> signal_result) decoder) list" where
  "failure_fields =
     [(''error'', to_string (\<lambda>v (_, r). (v, r))),
      (''result'', (\<lambda>v (e, r). map_sum id (Pair e) (to_struct result_fields v zero_result)))]"

definition read_struct :: "('a \<Rightarrow> json) \<Rightarrow> (string \<times> 'a decoder) list \<Rightarrow> 'a \<Rightarrow> jvalue \<Rightarrow> json_error + json" where
  "read_struct body table zero v = map_sum id body (to_struct table v zero)"

definition read_list :: "('a list \<Rightarrow> json) \<Rightarrow> (string \<times> 'a decoder) list \<Rightarrow> 'a \<Rightarrow> jvalue \<Rightarrow> json_error + json" where
  "read_list body table zero v = map_sum id body (to_list zero (to_struct table) (\<lambda>xs _. xs) v [])"

fun Read_json :: "body_type \<Rightarrow> jvalue \<Rightarrow> json_error + json" where
  "Read_json THealth v = read_struct (\<lambda>(s, c, t). JHealth s c t) health_fields ('''', False, zero_time) v"
| "Read_json TPrincipal v = read_struct JPrincipal principal_fields zero_principal v"
| "Read_json TStatuses v = read_list JStatuses status_fields zero_status v"
| "Read_json TSnapshot v = read_struct JSnapshot snapshot_fields zero_snapshot v"
| "Read_json TMetas v = read_list JMetas meta_fields zero_meta v"
| "Read_json TEntries v = read_list JEntries entry_fields zero_entry v"
| "Read_json TLocks v = read_list JLocks lock_fields zero_lock v"
| "Read_json THotObjects v = read_list JHotObjects hot_fields zero_hot v"
| "Read_json TResult v = read_struct JResult result_fields zero_result v"
| "Read_json TSignalError v = read_struct (\<lambda>(e, r). JSignalError e r) failure_fields ('''', zero_result) v"
| "Read_json _ v = Inl TypeError"

text \<open>The texts of the value are UTF-8, its numbers fit in 64 bits, and its times have a year of four
  digits in a zone with an offset of whole minutes.\<close>

definition readable_result :: "(time \<Rightarrow> int) \<Rightarrow> signal_result \<Rightarrow> bool" where
  "readable_result zone r \<longleftrightarrow> valid_text (res_Action r) \<and> in_int64 (res_PID r) \<and> writable_time zone (res_At r)"

definition readable_entry :: "(time \<Rightarrow> int) \<Rightarrow> entry \<Rightarrow> bool" where
  "readable_entry zone e \<longleftrightarrow>
     writable_time zone (ent_At e) \<and> in_int64 (ent_PID e) \<and>
     list_all valid_text [ent_Actor e, ent_Action e, ent_VictimQuery e, ent_Error e]"

fun readable :: "(time \<Rightarrow> int) \<Rightarrow> json \<Rightarrow> bool" where
  "readable zone (JHealth status _ t) \<longleftrightarrow> valid_text status \<and> writable_time zone t"
| "readable zone (JPrincipal p) \<longleftrightarrow> valid_text (pr_Name p) \<and> valid_text (pr_Role p)"
| "readable zone (JStatuses sts) \<longleftrightarrow>
     list_all (\<lambda>st. valid_text (ps_Cluster st) \<and> valid_text (ps_LastError st) \<and> writable_time zone (ps_LastPoll st)) sts"
| "readable zone (JSnapshot x) \<longleftrightarrow> storable zone x"
| "readable zone (JMetas ms) \<longleftrightarrow>
     list_all (\<lambda>m. writable_time zone (meta_TakenAt m) \<and> list_all in_int64 [meta_Roots m, meta_Edges m, meta_Sessions m]) ms"
| "readable zone (JEntries es) \<longleftrightarrow> list_all (readable_entry zone) es"
| "readable zone (JLocks ls) \<longleftrightarrow>
     list_all (\<lambda>l. list_all valid_text [lk_LockType l, lk_Object l, lk_Mode l] \<and> in_int64 (lk_PID l)) ls"
| "readable zone (JHotObjects hs) \<longleftrightarrow>
     list_all (\<lambda>h. valid_text (ho_Object h) \<and> in_int64 (ho_Waiters h) \<and> in_int64 (ho_Holders h)) hs"
| "readable zone (JResult r) \<longleftrightarrow> readable_result zone r"
| "readable zone (JSignalError err r) \<longleftrightarrow> valid_text err \<and> readable_result zone r"
| "readable zone (JFamilies fams) \<longleftrightarrow> False"
| "readable zone (JFrames frames) \<longleftrightarrow> False"

subsection \<open>Each struct is read back\<close>

text \<open>A field that is left out when it is empty keeps the zero value, which is the empty text.\<close>

lemmas keeping = json_struct_def scalar_simps plain_key_body plain_def to_struct_def set_members_Cons to_bool_def

lemma time_kept:
  assumes "writable_time zone t"
  obtains s where "json_time zone t = Inr (JString s)" "string_body s" "\<And>put r. to_time put (JString s) r = Inr (put t r)"
  using time_roundtrip [OF assms] that by metis

lemma principal_kept:
  assumes "valid_text (pr_Name p)" "valid_text (pr_Role p)"
  shows "kept_by 2 (Marshal_principal p) (to_struct principal_fields) zero_principal p"
  using assms unfolding kept_by_def
  by (simp add: Marshal_principal_def principal_fields_def zero_principal_def keeping del: set_members.simps(2))

lemma status_kept:
  assumes "valid_text (ps_Cluster st)" "valid_text (ps_LastError st)" "writable_time zone (ps_LastPoll st)"
  shows "kept_by 2 (Marshal_status zone st) (to_struct status_fields) zero_status st"
proof (rule time_kept [OF assms(3)])
  fix s assume "json_time zone (ps_LastPoll st) = Inr (JString s)" "string_body s"
    "\<And>put (r :: poll_status). to_time put (JString s) r = Inr (put (ps_LastPoll st) r)"
  with assms show ?thesis unfolding kept_by_def
    by (simp add: Marshal_status_def nonempty_field_def status_fields_def zero_status_def keeping del: set_members.simps(2))
qed

lemma meta_kept:
  assumes "writable_time zone (meta_TakenAt m)" "list_all in_int64 [meta_Roots m, meta_Edges m, meta_Sessions m]"
  shows "kept_by 2 (Marshal_meta zone m) (to_struct meta_fields) zero_meta m"
proof (rule time_kept [OF assms(1)])
  fix s assume "json_time zone (meta_TakenAt m) = Inr (JString s)" "string_body s"
    "\<And>put (r :: meta). to_time put (JString s) r = Inr (put (meta_TakenAt m) r)"
  with assms show ?thesis unfolding kept_by_def
    by (simp add: Marshal_meta_def meta_fields_def zero_meta_def keeping del: set_members.simps(2))
qed

lemma entry_kept:
  assumes "readable_entry zone e"
  shows "kept_by 2 (Marshal_entry zone e) (to_struct entry_fields) zero_entry e"
proof (rule time_kept [of zone "ent_At e"])
  show "writable_time zone (ent_At e)" using assms by (simp add: readable_entry_def)
  fix s assume "json_time zone (ent_At e) = Inr (JString s)" "string_body s"
    "\<And>put (r :: entry). to_time put (JString s) r = Inr (put (ent_At e) r)"
  with assms show ?thesis unfolding kept_by_def
    by (simp add: Marshal_entry_def nonempty_field_def entry_fields_def zero_entry_def readable_entry_def keeping del: set_members.simps(2))
qed

lemma lock_kept:
  assumes "list_all valid_text [lk_LockType l, lk_Object l, lk_Mode l]" "in_int64 (lk_PID l)"
  shows "kept_by 2 (Marshal_lock l) (to_struct lock_fields) zero_lock l"
  using assms unfolding kept_by_def
  by (simp add: Marshal_lock_def lock_fields_def zero_lock_def keeping del: set_members.simps(2))

lemma hot_kept:
  assumes "valid_text (ho_Object h)" "in_int64 (ho_Waiters h)" "in_int64 (ho_Holders h)"
  shows "kept_by 2 (Marshal_hot h) (to_struct hot_fields) zero_hot h"
  using assms unfolding kept_by_def
  by (simp add: Marshal_hot_def hot_fields_def zero_hot_def keeping del: set_members.simps(2))

lemma result_kept:
  assumes "readable_result zone r"
  shows "kept_by 2 (Marshal_result zone r) (to_struct result_fields) zero_result r"
proof (rule time_kept [of zone "res_At r"])
  show "writable_time zone (res_At r)" using assms by (simp add: readable_result_def)
  fix s assume "json_time zone (res_At r) = Inr (JString s)" "string_body s"
    "\<And>put (x :: signal_result). to_time put (JString s) x = Inr (put (res_At r) x)"
  with assms show ?thesis unfolding kept_by_def
    by (simp add: Marshal_result_def result_fields_def zero_result_def readable_result_def keeping del: set_members.simps(2))
qed

text \<open>A body that is a struct or a list of structs is read back.\<close>

lemma struct_read:
  assumes "kept_by n doc (to_struct table) zero x" "doc = Inr v"
  shows "read_struct body table zero v = Inr (body x)"
  using assms by (auto simp: kept_by_def read_struct_def)

lemma list_read:
  assumes "list_all P xs" "\<And>x. P x \<Longrightarrow> kept_by 2 (enc x) (to_struct table) zero x" "json_array (map enc xs) = Inr v"
  shows "read_list body table zero v = Inr (body xs)"
proof -
  have "\<exists>v. json_array (map enc xs) = Inr v \<and> (\<forall>put r. to_list zero (to_struct table) put v r = Inr (put xs (r :: 'a list)))"
    using array_kept [of xs 2 enc "to_struct table" zero] assms(1,2) by (fastforce simp: list_all_iff)
  with assms(3) show ?thesis by (simp add: read_list_def)
qed

lemma health_kept:
  assumes "valid_text status" "writable_time zone t"
    and "json_struct [(''connected'', json_bool connected), (''lastPoll'', json_time zone t), (''status'', json_string status)] = Inr v"
  shows "read_struct (\<lambda>(s, c, t). JHealth s c t) health_fields ('''', False, zero_time) v = Inr (JHealth status connected t)"
proof (rule time_kept [OF assms(2)])
  fix s assume "json_time zone t = Inr (JString s)" "string_body s"
    "\<And>put (r :: string \<times> bool \<times> time). to_time put (JString s) r = Inr (put t r)"
  with assms show ?thesis
    by (auto simp: read_struct_def health_fields_def keeping simp del: set_members.simps(2))
qed

lemma failure_kept:
  assumes "valid_text err" "readable_result zone r"
    and "json_struct [(''error'', json_string err), (''result'', Marshal_result zone r)] = Inr v"
  shows "read_struct (\<lambda>(e, r). JSignalError e r) failure_fields ('''', zero_result) v = Inr (JSignalError err r)"
proof -
  obtain w where w: "Marshal_result zone r = Inr w" "to_struct result_fields w zero_result = Inr r"
    using result_kept [OF assms(2)] unfolding kept_by_def by blast
  with assms(1,3) have v: "v = JObject [(''error'', JString (json_quote err)), (''result'', w)]"
    by (simp add: json_struct_def json_string_def)
  show ?thesis using assms(1) w(2)
    by (simp add: v read_struct_def to_struct_object failure_fields_def set_members_Cons plain_def del: set_members.simps(2))
qed

lemma Read_json_back:
  assumes "readable zone j" "Marshal_json zone j = Some (Inr v)"
  shows "Read_json (json_type j) v = Inr j"
proof (cases j)
  case (JHealth status connected t)
  with assms show ?thesis by (auto intro!: health_kept)
next
  case (JPrincipal p)
  with assms show ?thesis by (simp add: struct_read [OF principal_kept])
next
  case (JStatuses sts)
  with assms show ?thesis by (auto intro!: list_read status_kept)
next
  case (JSnapshot x)
  with assms show ?thesis by (simp add: struct_read [OF snapshot_kept])
next
  case (JMetas ms)
  with assms show ?thesis by (auto intro!: list_read meta_kept)
next
  case (JEntries es)
  with assms show ?thesis by (auto intro!: list_read entry_kept)
next
  case (JLocks ls)
  with assms show ?thesis by (auto intro!: list_read lock_kept)
next
  case (JHotObjects hs)
  with assms show ?thesis by (auto intro!: list_read hot_kept)
next
  case (JResult r)
  with assms show ?thesis by (simp add: struct_read [OF result_kept])
next
  case (JSignalError err r)
  with assms show ?thesis by (auto intro!: failure_kept)
qed (use assms in simp_all)

text \<open>C22: Every JSON response is a document: whatever was asked, whoever asked and whatever the texts
  in it (control characters, quotes, markup, bytes that are no UTF-8), the body that is sent is
  a JSON text a client parses. A client that takes the fields by the names of the contract gets
  the very value the handler answered with, field by field, when its texts are UTF-8, its numbers
  fit in 64 bits and its times can be written with whole minutes of offset. The only thing the
  encoder cannot write is a time without a year of four digits.\<close>

theorem responses_parse:
  assumes "serve dp ep r s = Some (s', resp)" "ep \<notin> {MetricsPage, Stream, Spa}" "resp_Body resp = JSON j"
    and "\<forall>t \<in> json_times j. \<not> isl (MarshalTime zone t)"
  shows "\<exists>v body. Marshal_json zone j = Some (Inr v) \<and> body_text zone (resp_Body resp) = Some body \<and> json_parse body = Some v \<and>
    (readable zone j \<longrightarrow> Read_json (json_type j) v = Inr j)"
proof -
  have "(resp_Status resp, json_type j) \<in> set (response_types ep)"
    using typed_serve [of ep dp r s] assms(1-3) by (auto simp: typed_def has_type_def)
  then have "json_type j \<notin> {TFamilies, TFrames}" using assms(2) by (cases ep) (auto simp: texts_def)
  then obtain doc where "Marshal_json zone j = Some doc" by (cases j) auto
  moreover from Marshal_json_fails [OF this assms(4)] obtain v where "doc = Inr v" by blast
  ultimately show ?thesis using Encode_parses [of zone j v] Read_json_back [of zone j v] assms(3) by (auto simp: body_text_def)
qed

text \<open>An administrator reads the audit trail: an entry on a refused signal, whose query has quotes,
  markup and a letter outside ASCII.\<close>

definition demo_refused :: entry where
  "demo_refused = demo_entry\<lparr>ent_VictimQuery := [CHR 0x22, CHR ''<'', CHR 0xC3, CHR 0xA4, CHR 0x0A], ent_Error := ''no''\<rparr>"

definition demo_root :: identity where
  "demo_root r = Some \<lparr>pr_Name = ''root'', pr_Role = RoleAdmin\<rparr>"

definition demo_audited :: "(unit, unit, memory) app" where
  "demo_audited = demo_app\<lparr>app_svc := New_service () (Some ((NewMemory 10)\<lparr>mem_entries := [demo_refused]\<rparr>))\<rparr>"

lemma demo_audit_page:
  "serve (demo_deps demo_root) AuditPage demo_request demo_audited = Some (demo_audited, writeJSON 200 (JEntries [demo_refused]))"
proof -
  have "Query_Get (demo_request\<lparr>req_Principal := Some p\<rparr>) ''limit'' = ''''" for p
    by (simp add: demo_request_def Query_Get_def first_value_def)
  moreover have "AtLeast RoleAdmin RoleAdmin" by (simp add: AtLeast_def rank_def RoleAdmin_def RoleOperator_def RoleViewer_def)
  ultimately show ?thesis
    by (simp add: Authenticate_def RequireRole_def PrincipalFrom_def demo_deps_def demo_root_def handleAudit_def demo_audited_def
        New_service_def Recent_eq)
qed

theorem responses_parse_witness:
  "\<exists>resp v body. serve (demo_deps demo_root) AuditPage demo_request demo_audited = Some (demo_audited, resp) \<and>
     body_text demo_zone (resp_Body resp) = Some body \<and> json_parse body = Some v \<and>
     Read_json TEntries v = Inr (JEntries [demo_refused])"
proof -
  have "writable_time demo_zone 3" "valid_text ''a''" "valid_text ''cancel''" "valid_text ''no''"
    "valid_text [CHR 0x22, CHR ''<'', CHR 0xC3, CHR 0xA4, CHR 0x0A]"
    by code_simp+
  then have read: "readable demo_zone (JEntries [demo_refused])" "\<forall>t \<in> json_times (JEntries [demo_refused]). \<not> isl (MarshalTime demo_zone t)"
    by (simp_all add: readable_entry_def demo_refused_def demo_entry_def in_int64_def writable_time_def)
  from responses_parse [OF demo_audit_page _ _ read(2)] read(1) show ?thesis
    using demo_audit_page by (auto simp: writeJSON_def)
qed

end
