(* ===== verification/Timeline.thy ===== *)
theory Timeline
  imports Scenario Wire
begin

text \<open>
  The scrubber of the web page, end to end: it asks \<open>handleHistory\<close> for the frames and then,
  for the frame under the cursor, sends the \<open>takenAt\<close> of its summary back to \<open>handleSnapshot\<close>.
  The time crosses the wire twice: written by the JSON encoder in the zone of the process and
  parsed again from the query of the next request.
\<close>

section \<open>What a store remembers\<close>

text \<open>The snapshots that \<open>At\<close> and \<open>History\<close> answer from: those of the ring, or with a backend the
  saved ones, while the engine runs the three statements.\<close>

definition remembers :: "sql_env \<Rightarrow> snapshot list \<Rightarrow> sqlite store \<Rightarrow> bool" where
  "remembers env ss st \<longleftrightarrow>
     (case st_persist st of
        None \<Rightarrow> store_wf st \<and> ring_list st = ss
      | Some p \<Rightarrow> sql_order (ev_order env) \<and> db_holds env ss p \<and>
          ev_fault env SelectBelow = None \<and> ev_fault env SelectAbove = None \<and> ev_fault env SelectHistory = None)"

text \<open>The times between 1970 and 2262, for which a distance is a \<open>Duration\<close>.\<close>

definition clock_range :: "time \<Rightarrow> bool" where
  "clock_range t \<longleftrightarrow> 0 \<le> t \<and> t < max_int64"

lemma clock_reach: "\<forall>x \<in> set ss. clock_range (snap_TakenAt x) \<Longrightarrow> clock_range t \<Longrightarrow> in_reach ss t"
  by (fastforce simp: clock_range_def in_reach_def in_int64_def)

lemma remembers_At:
  assumes "remembers env ss st" "\<forall>x \<in> set ss. clock_range (snap_TakenAt x)" "clock_range t" "ss \<noteq> []"
  shows "\<exists>x. At (sqlite_ops env) t st = Some (st, x, True) \<and> nearest ss t x"
proof (cases "st_persist st")
  case None
  with assms(1) have st: "store_wf st" "ring_list st = ss" by (simp_all add: remembers_def)
  have "\<forall>x \<in> set (ring_list st). \<bar>t - snap_TakenAt x\<bar> < max_int64"
    using assms(2,3) st(2) by (fastforce simp: clock_range_def)
  from At_ring_closest [OF st(1) None _ this] st(2) assms(4) show ?thesis
    by (fastforce simp: nearest_def abs_minus_commute)
next
  case (Some p)
  with assms(1) show ?thesis
    using At_sqlite_nearest [of env ss p t] clock_reach [OF assms(2,3)] assms(4)
    by (auto simp: remembers_def At_def sqlite_ops_def)
qed

lemma remembers_History:
  assumes "remembers env ss st" "time_IsZero from \<or> in_int64 from" "time_IsZero to \<or> in_int64 to"
  shows "\<exists>ms. History (sqlite_ops env) from to st = Some (st, ms) \<and>
    mset ms = mset (map meta_of (filter (in_window from to) ss))"
proof (cases "st_persist st")
  case None
  with assms(1) have "ring_wf st" "ring_list st = ss" by (simp_all add: remembers_def store_wf_def)
  then show ?thesis using None history_ring [of st "from" to] by (simp add: History_def)
next
  case (Some p)
  with assms show ?thesis using History_sqlite_window [of env ss p "from" to]
    by (auto simp: remembers_def History_def sqlite_ops_def)
qed

section \<open>Times that can be written\<close>

lemma year_within:
  assumes "year_and_day d = (y, yd)" "0 \<le> d" "d < 1000000"
  shows "1 \<le> y" "y \<le> 2800"
proof -
  define a d1 b d2 c d3 e where def: "a = d div 146097" "d1 = d mod 146097" "b = min 3 (d1 div 36524)"
    "d2 = d1 - 36524 * b" "c = d2 div 1461" "d3 = d2 mod 1461" "e = min 3 (d3 div 365)"
  have y: "y = 400 * a + 100 * b + 4 * c + e + 1"
    using assms(1) [symmetric] unfolding year_and_day_def Let_def prod.inject def [symmetric] by blast
  have a: "0 \<le> a" "a \<le> 6" "0 \<le> d1" "d1 \<le> 4 * 36524" using assms(2,3) unfolding def by auto
  note b = quarters [OF zero_less_numeral a(3,4), folded def(3), folded def(4)]
  have c: "0 \<le> c" "c \<le> 24" "0 \<le> d3" "d3 \<le> 4 * 365" using b(3,5) by (simp_all add: def(5,6))
  note e = quarters [OF zero_less_numeral c(3,4), folded def(7)]
  show "1 \<le> y" "y \<le> 2800" using y a b c e by linarith+
qed

lemma MarshalTime_clock:
  assumes "clock_range t" "\<bar>zone t\<bar> < 86400"
  shows "\<exists>text. MarshalTime zone t = Inr text"
proof -
  let ?n = "(t + zone t * 10 ^ 9) div 10 ^ 9 div 86400 + epoch_days"
  have "- 86400 \<le> zone t" "zone t \<le> 86400" "0 \<le> t" "t \<le> 10 ^ 19" using assms by (simp_all add: clock_range_def)
  then have "- 86400 * 10 ^ 9 \<le> t + zone t * 10 ^ 9" "t + zone t * 10 ^ 9 \<le> 10 ^ 19 + 86400 * 10 ^ 9" by auto
  from zdiv_mono1 [OF this(1), of "10 ^ 9"] zdiv_mono1 [OF this(2), of "10 ^ 9"]
  have "- 86400 \<le> (t + zone t * 10 ^ 9) div 10 ^ 9" "(t + zone t * 10 ^ 9) div 10 ^ 9 \<le> 10000086400" by simp_all
  then have n: "0 \<le> ?n" "?n < 1000000" by linarith+
  obtain y m d where date: "date_of_days ?n = (y, m, d)" by (metis prod_cases3)
  then obtain yd where "year_and_day ?n = (y, yd)" by (auto simp: date_of_days_def split: prod.splits)
  from year_within [OF this n] have "0 \<le> y" "y \<le> 9999" by simp_all
  moreover have "\<not> 24 \<le> \<bar>zone t\<bar> div 3600" using assms(2) by linarith
  ultimately show ?thesis using date by (simp add: MarshalTime_def Let_def)
qed

section \<open>From the history to the frame\<close>

lemma set_store_same [simp]: "set_store (pl_store (app_poller s)) s = s"
  by (simp add: set_store_def)

text \<open>The times a process can write and read back: within the day of UTC, and a whole number of
  minutes, as every zone of today is.\<close>

definition whole_minutes :: "(time \<Rightarrow> int) \<Rightarrow> bool" where
  "whole_minutes zone \<longleftrightarrow> (\<forall>t. \<bar>zone t\<bar> < 86400 \<and> zone t mod 60 = 0)"

lemma frame_shown:
  fixes dp :: "(sqlite, 'd, 'k) deps"
  assumes "remembers env ss (pl_store (app_poller s))" "dp_ops dp = sqlite_ops env"
    and "\<forall>y \<in> set ss. clock_range (snap_TakenAt y)" "y \<in> set ss" "time_Parse (Query_Get r ''at'') = Some (snap_TakenAt y)"
  shows "\<exists>x \<in> set ss. snap_TakenAt x = snap_TakenAt y \<and> handleSnapshot dp r s = Some (s, writeJSON 200 (JSnapshot x))"
proof -
  have "Query_Get r ''at'' \<noteq> ''''"
  proof
    assume "Query_Get r ''at'' = ''''"
    moreover have "time_Parse '''' = None" by code_simp
    ultimately show False using assms(5) by simp
  qed
  moreover have "clock_range (snap_TakenAt y)" "ss \<noteq> []" using assms(3,4) by auto
  from remembers_At [OF assms(1,3) this] obtain x where
    x: "At (dp_ops dp) (snap_TakenAt y) (pl_store (app_poller s)) = Some (pl_store (app_poller s), x, True)" "nearest ss (snap_TakenAt y) x"
    using assms(2) by auto
  moreover from x(2) assms(4) have "x \<in> set ss" "snap_TakenAt x = snap_TakenAt y" by (force simp: nearest_def)+
  ultimately show ?thesis using assms(5) by (auto simp: handleSnapshot_def)
qed

text \<open>C7: The scrubber shows the frame it names. Whatever window is asked for, the history lists
  exactly the remembered snapshots of the window, every \<open>takenAt\<close> in it can be written, and a
  request that sends that text back as \<open>at\<close> gets a snapshot taken at exactly that instant; when
  no two were taken at the same instant it is the one that was summarised. This holds for the ring
  and for the SQLite backend, for times between 1970 and 2262 and any zone of whole minutes.\<close>

theorem scrubber_exact:
  fixes dp :: "(sqlite, 'd, 'k) deps"
  assumes "remembers env ss (pl_store (app_poller s))" "dp_ops dp = sqlite_ops env"
    and "\<forall>x \<in> set ss. clock_range (snap_TakenAt x)" "whole_minutes zone" "dp_identity dp r = Some p"
    and "parseOptTime (Query_Get r ''from'') = Some from" "time_IsZero from \<or> in_int64 from"
    and "parseOptTime (Query_Get r ''to'') = Some to" "time_IsZero to \<or> in_int64 to"
  shows "\<exists>ms. serve dp HistoryPage r s = Some (s, writeJSON 200 (JMetas ms)) \<and>
    mset ms = mset (map meta_of (filter (in_window from to) ss)) \<and>
    (\<forall>m \<in> set ms. \<exists>text. MarshalTime zone (meta_TakenAt m) = Inr text \<and>
      (\<forall>r' p'. dp_identity dp r' = Some p' \<and> Query_Get r' ''at'' = text \<longrightarrow>
        (\<exists>x \<in> set ss. serve dp SnapshotPage r' s = Some (s, writeJSON 200 (JSnapshot x)) \<and>
          snap_TakenAt x = meta_TakenAt m \<and> (distinct (map snap_TakenAt ss) \<longrightarrow> meta_of x = m))))"
proof -
  from remembers_History [OF assms(1,7,9)] obtain ms where
    ms: "History (dp_ops dp) from to (pl_store (app_poller s)) = Some (pl_store (app_poller s), ms)"
    "mset ms = mset (map meta_of (filter (in_window from to) ss))" using assms(2) by auto
  have "\<exists>text. MarshalTime zone (meta_TakenAt m) = Inr text \<and>
      (\<forall>r' p'. dp_identity dp r' = Some p' \<and> Query_Get r' ''at'' = text \<longrightarrow>
        (\<exists>x \<in> set ss. serve dp SnapshotPage r' s = Some (s, writeJSON 200 (JSnapshot x)) \<and>
          snap_TakenAt x = meta_TakenAt m \<and> (distinct (map snap_TakenAt ss) \<longrightarrow> meta_of x = m)))" if "m \<in> set ms" for m
  proof -
    from that have "m \<in> set (map meta_of (filter (in_window from to) ss))" using ms(2) by (metis set_mset_mset)
    then obtain y where y: "y \<in> set ss" "m = meta_of y" by auto
    then have at: "meta_TakenAt m = snap_TakenAt y" by (simp add: meta_of_def)
    from assms(3,4) y(1) MarshalTime_clock [of "snap_TakenAt y" zone] obtain ts where
      ts: "MarshalTime zone (snap_TakenAt y) = Inr ts" by (auto simp: whole_minutes_def)
    with assms(4) have parsed: "time_Parse ts = Some (snap_TakenAt y)" by (simp add: time_Parse_Marshal whole_minutes_def)
    have unique: "x = y" if "distinct (map snap_TakenAt ss)" "x \<in> set ss" "snap_TakenAt x = snap_TakenAt y" for x
      using that y(1) by (meson distinct_map inj_onD)
    have "\<exists>x \<in> set ss. serve dp SnapshotPage r' s = Some (s, writeJSON 200 (JSnapshot x)) \<and>
          snap_TakenAt x = meta_TakenAt m \<and> (distinct (map snap_TakenAt ss) \<longrightarrow> meta_of x = m)"
      if "dp_identity dp r' = Some p'" "Query_Get r' ''at'' = ts" for r' p'
    proof -
      from parsed that(2) have "time_Parse (Query_Get (r'\<lparr>req_Principal := Some p'\<rparr>) ''at'') = Some (snap_TakenAt y)" by (simp add: Query_Get_def)
      from frame_shown [OF assms(1-3) y(1) this] obtain x where "x \<in> set ss" "snap_TakenAt x = snap_TakenAt y"
        "handleSnapshot dp (r'\<lparr>req_Principal := Some p'\<rparr>) s = Some (s, writeJSON 200 (JSnapshot x))" by blast
      then show ?thesis using that(1) at y(2) unique by (auto simp: Authenticate_def)
    qed
    then show ?thesis using ts at by auto
  qed
  then show ?thesis using ms assms(5,6,8) by (auto simp: Authenticate_def handleHistory_def Query_Get_def)
qed

section \<open>An example\<close>

text \<open>A process two hours east of UTC with two saved snapshots.\<close>

definition demo_past :: "(sqlite, unit, sink) app" where
  "demo_past = \<lparr>app_poller = New_poller ''c'' Persist.demo_durable second, app_svc = New_service () None\<rparr>"

definition demo_frame_request :: request where
  "demo_frame_request = demo_request\<lparr>req_Query := fmap_of_list [(''at'', [''1970-01-01T02:00:00.000000009+02:00''])]\<rparr>"

theorem scrubber_exact_witness:
  "\<exists>ms x. serve (demo_serving ann) HistoryPage demo_request demo_past = Some (demo_past, writeJSON 200 (JMetas ms)) \<and>
     meta_of (demo_snap 9) \<in> set ms \<and>
     serve (demo_serving ann) SnapshotPage demo_frame_request demo_past = Some (demo_past, writeJSON 200 (JSnapshot x)) \<and>
     meta_of x = meta_of (demo_snap 9)"
proof -
  let ?zone = "\<lambda>t :: time. 7200 :: int" and ?ss = "[demo_snap 1, demo_snap 9]"
  have "pl_store (app_poller demo_past) = Persist.demo_durable" by (simp add: demo_past_def New_poller_def)
  then have st: "remembers demo_sql ?ss (pl_store (app_poller demo_past))"
    using demo_durable_persist demo_db_rows(4) demo_sql_order by (simp add: remembers_def demo_sql_def)
  have ops: "dp_ops (demo_serving ann) = sqlite_ops demo_sql" by (simp add: demo_serving_def)
  have range: "\<forall>x \<in> set ?ss. clock_range (snap_TakenAt x)" by (simp add: clock_range_def)
  have zone: "whole_minutes ?zone" by (simp add: whole_minutes_def)
  have idn: "dp_identity (demo_serving ann) r = Some \<lparr>pr_Name = ''ann'', pr_Role = ''operator''\<rparr>" for r
    by (simp add: demo_serving_def ann_def)
  have bounds: "parseOptTime (Query_Get demo_request ''from'') = Some zero_time" "parseOptTime (Query_Get demo_request ''to'') = Some zero_time"
    "time_IsZero zero_time \<or> in_int64 zero_time" by (simp_all add: parseOptTime_def demo_request_def Query_Get_def first_value_def time_IsZero_def)
  have at: "MarshalTime ?zone 9 = Inr (Query_Get demo_frame_request ''at'')" by code_simp
  from scrubber_exact [OF st ops range zone idn bounds(1,3,2,3)] obtain ms where
    ms: "serve (demo_serving ann) HistoryPage demo_request demo_past = Some (demo_past, writeJSON 200 (JMetas ms))"
    "mset ms = mset (map meta_of (filter (in_window zero_time zero_time) ?ss))"
    and frames: "\<forall>m \<in> set ms. \<exists>text. MarshalTime ?zone (meta_TakenAt m) = Inr text \<and>
      (\<forall>r' p'. dp_identity (demo_serving ann) r' = Some p' \<and> Query_Get r' ''at'' = text \<longrightarrow>
        (\<exists>x \<in> set ?ss. serve (demo_serving ann) SnapshotPage r' demo_past = Some (demo_past, writeJSON 200 (JSnapshot x)) \<and>
          snap_TakenAt x = meta_TakenAt m \<and> (distinct (map snap_TakenAt ?ss) \<longrightarrow> meta_of x = m)))" by blast
  have "set ms = set (map meta_of (filter (in_window zero_time zero_time) ?ss))" using ms(2) by (metis set_mset_mset)
  then have m: "meta_of (demo_snap 9) \<in> set ms" by (simp add: in_window_def time_IsZero_def)
  have "meta_TakenAt (meta_of (demo_snap 9)) = 9" by (simp add: meta_of_def)
  with frames m idn [of demo_frame_request] at show ?thesis using ms(1) m by fastforce
qed

end
