(* ===== verification/Spec2Isabelle.thy ===== *)
theory Spec2Isabelle
  imports Diff Concurrent Mask_Idem Inspector Routes Restart Lifecycle Timeline
begin

text \<open>
  A verification development of pglockr, the live visualizer of PostgreSQL locks
  (\<open>src/\<close>, written in Go).

  \<^bold>\<open>The program.\<close> A client polls the target cluster for its sessions and lock labels
  (\<open>internal/pg\<close>); optionally a masking source replaces the literals in the query texts
  (\<open>internal/redact\<close>); the poller (\<open>internal/poller\<close>) builds the wait-for forest
  (\<open>internal/graph\<close>) and puts it into the store (\<open>internal/store\<close>), a ring buffer with
  subscribers and an optional durable backend (\<open>internal/persist\<close>). The HTTP surface
  (\<open>internal/api\<close>) serves the snapshots, streams them over WebSockets, and lets operators
  cancel or terminate backends through the signal service (\<open>internal/signal\<close>), which writes
  an audit trail (\<open>internal/audit\<close>, in memory or in SQLite). Requests are authenticated and
  checked for their role by \<open>internal/auth\<close>; \<open>internal/config\<close>, \<open>internal/setup\<close>,
  \<open>internal/metrics\<close> and \<open>cmd/pglockr/main.go\<close> configure, provision, count and wire, and
  \<open>web/embed.go\<close> carries the pages that show it all.

  \<^bold>\<open>The theories.\<close>
  \<^item> \<open>Prelude\<close>: Go integers, slices, maps and the order of \<open>range\<close> loops (locale
    \<open>map_order\<close>), time and durations, generic lemmas. \<open>Utf8\<close>: strings as bytes, runes,
    their conversions. \<open>Go_Strings\<close>: the library functions on strings. \<open>Rfc3339\<close>: the calendar
    and the text of an instant, written and read. \<open>Json_Strings\<close>, \<open>Json\<close>: quoting, the
    scanner and the values of \<open>encoding/json\<close>; what is written is read back.
  \<^item> \<open>Snapshot_Json\<close> (the tags of \<open>types.go\<close>): a snapshot as JSON and its decoder, with the
    round trip of the stored form. \<open>Wire\<close> (the tags of all bodies, \<open>writeJSON\<close>): every
    JSON response parses, and a client that reads it by the names of \<open>types.ts\<close> gets the value
    that was answered. \<open>Timeline\<close>: from the history to the frame the scrubber asks for.
    \<open>Web_Files\<close> (\<open>web/embed.go\<close>): the embedded files and what the file server answers a path
    with.
  \<^item> \<open>Graph\<close> (\<open>types.go\<close>, \<open>builder.go\<close>): the snapshot and \<open>Build\<close>; its result is
    independent of the map orders, has exactly the confirmed edges and exactly the head blockers
    as roots, and every waiter of an acyclic forest reaches a root.
  \<^item> \<open>Store\<close> (\<open>store.go\<close>): \<open>New\<close>, \<open>Put\<close>, \<open>Latest\<close>, \<open>At\<close>, \<open>History\<close>,
    \<open>Subscribe\<close> and its unsubscribe function; the ring implements the bounded log of the
    locale \<open>snapshot_log\<close>. \<open>Diff\<close> (\<open>diff.go\<close>): the delta of two snapshots. \<open>Hub\<close>:
    the phases of \<open>Put\<close> interleaved with subscribers as a step relation; order of delivery,
    absence of panics when unsubscribing is serialised, and the race that panics.
  \<^item> \<open>Mask\<close>, \<open>Mask_Spec\<close>, \<open>Mask_Idem\<close> (\<open>redact.go\<close>): the lexer, its refinement of a
    token-level specification, idempotence, and the literals that survive. \<open>Redact\<close>
    (\<open>source.go\<close>): the masking source.
  \<^item> \<open>Audit_Log\<close> (\<open>audit.go\<close>): the in-memory sink and the contract of every sink (locale
    \<open>audit_sink\<close>). \<open>Persist\<close> (\<open>sqlite.go\<close>, \<open>persist/audit.go\<close>): the SQLite backend,
    which keeps that contract and the one of a durable history (locale \<open>durable_history\<close>) for
    every engine that orders rows as SQL promises (locale \<open>sql_order\<close>).
  \<^item> \<open>Auth\<close> (\<open>auth.go\<close>, \<open>proxy.go\<close>): roles, tokens, the trusted proxy, middleware, the
    origin check. \<open>Signal\<close> (\<open>signal.go\<close>): the audited \<open>Do\<close>, proved once for all sinks;
    what it promises for the two sinks of the program is stated in \<open>System\<close>.
    \<open>Poller\<close> (\<open>poller.go\<close>): the poll loop, its back-off and its effect on the store.
  \<^item> \<open>Pg\<close> (\<open>client.go\<close>, \<open>inspect.go\<close>, \<open>preflight.go\<close>, \<open>pg/signal.go\<close>): scanning rows, the
    version of the server, privileges, signals. \<open>Views\<close> (\<open>queries.go\<close>): the meaning of the
    queries on the system views, and what the client therefore reports of a cluster.
    \<open>Sql_Order\<close>: \<open>ORDER BY\<close> as a relation, on which the queries of the inspector rest, and the
    collations (locale \<open>collation\<close>). \<open>Inspector\<close>: the rows and the order of the lock inspector
    under every collation.
    \<open>Metrics\<close> (\<open>metrics.go\<close>): the instruments, the live gauges and the families of the page.
    \<open>Config\<close> (\<open>config.go\<close>), \<open>Setup\<close> (\<open>grants.go\<close>).
  \<^item> \<open>Stream_Api\<close> (\<open>stream.go\<close>) and \<open>Api\<close> (\<open>server.go\<close>, \<open>handlers.go\<close>): a
    WebSocket session, the handlers, and the route table with its middleware; who may signal,
    and what a request without credentials can learn. \<open>Api_Types\<close>: the statuses and bodies of
    every endpoint. \<open>Routes\<close>: the route table as data, and what follows for methods and paths
    from the law the router documents.
  \<^item> \<open>System\<close> (\<open>main.go\<close>): identities, start-up with its error paths, the audit sink of either
    kind, preflight, grants. \<open>Channels\<close>: what waits in the channels of the subscribers.
    \<open>Running\<close>: polls, requests, pushes to open streams and their ends in any order after
    start-up, as a step relation, with the invariants of the whole program by rule induction;
    what the clients of a stream are shown. \<open>Concurrent\<close>: the same steps with the poll taken
    apart, so that requests and the ends of streams run between the parts of \<open>Put\<close>; where the
    program can panic, and that a \<open>Put\<close> in flight gets to its end. \<open>Accounting\<close>:
    what the audit trail, the log and the metrics page say of such a history. \<open>Restart\<close>: the
    file a program leaves behind, and the program started on it again. \<open>Lifecycle\<close>: the
    command line, and the steps of the goroutines from serving to the exit of the process.
    \<open>Scenario\<close>: the concrete world in which the witnesses run.
  \<^item> This theory has the properties that span the components: start-up, absence of panics,
    redaction everywhere, accountability, the metrics page, and the way from the system views to
    the wait-for forest.

  \<^bold>\<open>How the model reads.\<close> A struct is a record, an interface is a record of operations or an
  argument, shared mutable state is passed explicitly. An index out of range, a zero divisor and
  a send on a closed channel are the value \<open>None\<close> of an option, so a theorem that an operation
  returns \<open>Some\<close> says that it does not panic. Errors are the left side of a sum. Loops over
  slices are recursive functions on what is left of them; every one terminates, no fuel is used.
  Loops that run for ever (the poller, a stream) take a finite list of inputs, of any length.
  Wall-clock readings, the orders of \<open>range\<close> loops, the results of the database driver and the
  errors of SQL statements are inputs too, and so is the zone of the process, the offset from UTC
  at each instant. Code outside the repository is an argument: YAML, the WebSocket upgrade, the
  router of chi, the PostgreSQL server; what a theorem needs of it is a hypothesis of that theorem.
  Of the standard library SHA-256 and gzip are arguments too (that \<open>gunzip\<close> undoes \<open>gzip\<close> is the
  hypothesis \<open>gzip_ok\<close>); strings, numbers, times, JSON, paths and the file server are modelled as
  far as the code uses them. A slice is a list: the one slice of the JSON that is nil when it is
  empty, \<open>BlockedBy\<close>, is written as \<open>null\<close>, the others are never nil. A member that is
  repeated in a JSON text counts with its last value.

  \<^bold>\<open>Not modelled.\<close> The contents of the user interface
  (\<open>web/src\<close>, not Go) and the rendering of its files by \<open>net/http\<close>
  (types, ranges, caching), the deployment files, the text format of the metrics page, the bytes
  of the frames of a stream, the histogram buckets and the collectors of the Go runtime, logging
  other than the lines named above, the flag parser and the listener of \<open>net/http\<close>
  beyond the steps in \<open>Lifecycle\<close>, and the mutexes themselves: the methods of a
  type that hold its lock are atomic here, and so are a request and a push. A poll is atomic in
  \<open>Running\<close>; in \<open>Hub\<close> and \<open>Concurrent\<close> the part of \<open>Put\<close> outside the lock is split into its
  steps, and absence of panics is stated there. Two replicas of the program on one database are left
  out too.
\<close>

section \<open>Properties of the whole\<close>

text \<open>C18: Start-up: once the configuration loads, the cluster connects with a numeric
  version, the history opens (or is off), \<open>run\<close> gets to serving: neither taking the
  interface out of the binary nor building the identity can fail. The program then runs with
  that configuration, and every principal it will authenticate, from whatever request, has one
  of the three roles.\<close>

theorem startup_ok:
  assumes "Load (wd_readFile w) (wd_unmarshal w) (wd_getenv w) path = Inr cfg"
    and "Connect (wd_parseDSN w) (wd_pool w) (cfg_ClusterDSN cfg) (po_StatementTimeout (cfg_Poll cfg)) = Inr client"
    and "open_history w cfg = Inr hist"
  shows "\<exists>sd. run_start w path = Inr sd \<and> sd_cfg sd = cfg \<and> sd_client sd = client \<and>
    (\<forall>r p. sd_identity sd r = Some p \<longrightarrow> pr_Role p \<in> {RoleViewer, RoleOperator, RoleAdmin})"
  using loaded_config_identifies [OF assms(1), of "wd_sha256 w"] assms by (auto simp: run_start_def Let_def)

theorem startup_ok_witness:
  "\<exists>sd. run_start demo_world ''f'' = Inr sd \<and> sd_cfg sd = demo_redacting"
  using startup_ok [OF demo_world_loads demo_world_facts(1,2)] by blast

text \<open>C3: The program never panics, as long as no stream ends while a \<open>Put\<close> has still to send to it.
  From its start, in any interleaving of polls (failing or not, with the parts of \<open>Put\<close> outside
  the lock as steps of their own), requests (of anybody, with any faults of the databases, with
  either audit sink), subscriptions, pushes to open streams and streams that end, the store, the
  hub and the trail are well-formed, and every request gets a response and a poll completes. The
  only panic there can be is the send of a \<open>Put\<close> to a stream that has unsubscribed since the
  table was copied; with \<open>serial\<close>, where streams do not end in that window, there is none, and a
  \<open>Put\<close> in flight gets to its end by its own steps. Without \<open>serial\<close> the panic is real:
  \<open>stream_end_panics\<close>.\<close>

theorem system_never_panics:
  assumes "run_start w path = Inr sd" "audit_file_ok w"
    and "conc_reach serial (sd_identity sd) (sd_app sd) c"
  shows "store_wf (cn_store c) \<and> (\<exists>k. svc_sink (app_svc (cn_app c)) = Some k \<and> sink_ok k) \<and>
    (\<forall>dp ep r. wired (sd_identity sd) dp \<longrightarrow> (\<exists>s' resp. serve dp ep r (cn_app c) = Some (s', resp))) \<and>
    (\<forall>env i backoff. map_order (pe_ordC env) \<longrightarrow> (\<exists>p ws b. Run_loop env [i] backoff (app_poller (cn_app c)) = Some (p, ws, b))) \<and>
    (cn_crash c \<noteq> None \<longrightarrow> \<not> serial \<and> (\<exists>ch. cn_crash c = Some (ClosedSend ch) \<and> fmlookup (st_subs (cn_store c)) ch = None)) \<and>
    (serial \<longrightarrow> (\<exists>c'. rtranclp put_step c c' \<and> cn_put c' = None \<and> cn_crash c' = None))"
proof -
  note start = started_ok(1) [OF assms(1,2)]
  have inv: "conc_inv c" by (rule conc_reach_inv [OF assms(3) start])
  then have ok: "app_ok sink_ok (cn_app c)" by (simp add: conc_inv_def)
  have "\<exists>s' resp. serve dp ep r (cn_app c) = Some (s', resp)" if "wired (sd_identity sd) dp" for dp ep r
    using serve_ok [OF wired_sink [OF that] _ ok, of ep r] that by (auto simp: wired_def returns_ok_def)
  moreover have "\<exists>p ws b. Run_loop env [i] backoff (app_poller (cn_app c)) = Some (p, ws, b)" if "map_order (pe_ordC env)" for env i backoff
    using one_poll [OF _ that, of "app_poller (cn_app c)" i backoff] ok by (auto simp: app_ok_def)
  moreover have "conc_serial c" if serial using conc_reach_serial [OF _ start] assms(3) that by simp
  then have "serial \<longrightarrow> cn_crash c = None \<and> (\<exists>c'. rtranclp put_step c c' \<and> cn_put c' = None \<and> cn_crash c' = None)"
    using put_finishes [OF inv] by (auto simp: conc_serial_def)
  ultimately show ?thesis using inv ok conc_inv_store [OF inv] by (auto simp: conc_inv_def app_ok_def)
qed

theorem system_never_panics_witness:
  "\<exists>sd c i snap ch refs s resp c'. run_start demo_world ''f'' = Inr sd \<and> conc_reach True (sd_identity sd) (sd_app sd) c \<and>
     cn_put c = Some (i, Persisting snap (ch # refs)) \<and>
     serve (demo_serving (sd_identity sd)) Clusters demo_admin_request (cn_app c) = Some (s, resp) \<and>
     rtranclp put_step c c' \<and> cn_put c' = None \<and> cn_crash c' = None"
proof -
  obtain sd where sd: "run_start demo_world ''f'' = Inr sd" using demo_run by blast
  obtain c i snap ch refs where c: "conc_reach True (sd_identity sd) (sd_app sd) c" "cn_put c = Some (i, Persisting snap (ch # refs))"
    using put_in_flight [OF started_ok(1) [OF sd demo_world_facts(3)], of True "sd_identity sd"] by blast
  from system_never_panics [OF sd demo_world_facts(3) c(1)] demo_serving_wired [of "sd_identity sd"] sd c show ?thesis by blast
qed

text \<open>C2: With redaction switched on, no unmasked text is kept or shown anywhere: after any
  interleaving of polls, requests and pushes to open streams, every query text in the ring, and
  in every frame that was sent over a stream, is the masked form of the text that some poll
  reported for that process; every row the history gained encodes a snapshot with that
  property; and the victim's query in every audit entry the trail gained is such a masked text
  too, or empty because the process was not in the latest snapshot.\<close>

theorem redaction_everywhere:
  assumes "run_start w path = Inr sd" "audit_file_ok w" "wd_file w = (rows, n, audit, m)" "cfg_Redaction (sd_cfg sd)"
    and "running (wd_sql w) (sd_cfg sd) (sd_identity sd) (sd_app sd) evs s"
  shows "(\<forall>snap \<in> set (ring_list (pl_store (app_poller s))). masked_snapshot (polled evs) snap) \<and>
    (\<forall>ev \<in> set evs. \<forall>snap \<in> set (shown ev). masked_snapshot (polled evs) snap) \<and>
    (\<forall>h. st_persist (pl_store (app_poller s)) = Some h \<longrightarrow> (\<forall>row \<in> set (sq_snapshots h) - set rows.
       \<exists>snap. encode (wd_sql w) snap = Inr (sr_data row) \<and> masked_snapshot (polled evs) snap)) \<and>
    (\<forall>k. svc_sink (app_svc s) = Some k \<longrightarrow> (\<forall>e \<in> set (sink_trail k) - set (map entry_of_row audit).
       ent_VictimQuery e = '''' \<or> masked_of (polled evs) (ent_PID e) (ent_VictimQuery e)))"
proof -
  have start: "store_masked (wd_sql w) [] (set rows) (pl_store (app_poller (sd_app sd)))"
    "trail_masked [] (set (map entry_of_row audit)) (svc_sink (app_svc (sd_app sd)))"
    using started_masked [OF assms(1-3)] by simp_all
  note ok = started_ok(1) [OF assms(1,2)]
  have "\<forall>ev \<in> set evs. \<forall>snap \<in> set (shown ev). masked_snapshot (polled evs) snap"
    using running_shown [OF assms(5,4) ok start] by blast
  with running_masked [OF assms(5,4) ok start] show ?thesis
    unfolding store_masked_def trail_masked_def by blast
qed

theorem redaction_everywhere_witness:
  "\<exists>sd s resp ch snap. run_start demo_world ''f'' = Inr sd \<and>
     running (wd_sql demo_world) (sd_cfg sd) (sd_identity sd) (sd_app sd)
       [Served Stream demo_admin_request resp, Polled demo_raw, Pushed ch snap] s \<and>
     snap_Sessions snap \<noteq> fmempty \<and> masked_snapshot [demo_raw] snap \<and>
     (\<forall>x \<in> set (ring_list (pl_store (app_poller s))). masked_snapshot [demo_raw] x)"
proof -
  from demo_stream_run obtain sd s resp ch snap where r: "run_start demo_world ''f'' = Inr sd" "cfg_Redaction (sd_cfg sd)"
    "running (wd_sql demo_world) (sd_cfg sd) (sd_identity sd) (sd_app sd)
       [Served Stream demo_admin_request resp, Polled demo_raw, Pushed ch snap] s" "snap_Sessions snap \<noteq> fmempty" by blast
  have "wd_file demo_world = ([], 0, [], 0)" by (simp add: demo_world_def)
  note all = redaction_everywhere [OF r(1) demo_world_facts(3) this r(2,3)]
  have "polled [Served Stream demo_admin_request resp, Polled demo_raw, Pushed ch snap] = [demo_raw]"
    by (simp add: polled_def List.map_filter_def)
  with all have "masked_snapshot [demo_raw] snap" "\<forall>x \<in> set (ring_list (pl_store (app_poller s))). masked_snapshot [demo_raw] x" by auto
  with r(1,3,4) show ?thesis by blast
qed

text \<open>C5: Accountability. Whatever has happened since the start, every entry the audit trail has
  gained comes from a request to an action endpoint by an authenticated operator or
  administrator from the same origin, is in the name of that principal, and names the action,
  the process and the outcome the response reported. Conversely every signal a response
  reported has its line in the log, in the name of the principal who asked for it.\<close>

theorem signals_accountable:
  assumes "run_start w path = Inr sd" "audit_file_ok w"
    and "running (wd_sql w) (sd_cfg sd) (sd_identity sd) (sd_app sd) evs s"
    and "svc_sink (app_svc (sd_app sd)) = Some k0" "svc_sink (app_svc s) = Some k"
  shows "(\<forall>e \<in> set (sink_trail k) - set (sink_trail k0). authorised (sd_identity sd) evs e) \<and>
    (\<forall>ep r resp res err. Served ep r resp \<in> set evs \<longrightarrow> signal_of (Served ep r resp) = Some (res, err) \<longrightarrow>
       (\<exists>p line. sd_identity sd r = Some p \<and> line \<in> set (svc_log (app_svc s)) \<and>
          log_signal line = Some (res_Action res, res_PID res, pr_Name p)))"
  using running_authorised [OF assms(3) started_ok(1) [OF assms(1,2)] assms(4,5)] running_logged [OF assms(3)]
  unfolding logged_def by blast

theorem signals_accountable_witness:
  "\<exists>sd s resp m e. run_start demo_world ''f'' = Inr sd \<and>
     running (wd_sql demo_world) (sd_cfg sd) (sd_identity sd) (sd_app sd) [Served CancelSession demo_admin_request resp] s \<and>
     svc_sink (app_svc s) = Some (MemorySink m) \<and> mem_entries m = [e] \<and>
     authorised (sd_identity sd) [Served CancelSession demo_admin_request resp] e"
proof -
  from demo_signal_run obtain sd s resp m e where r: "run_start demo_world ''f'' = Inr sd"
    "running (wd_sql demo_world) (sd_cfg sd) (sd_identity sd) (sd_app sd) [Served CancelSession demo_admin_request resp] s"
    "svc_sink (app_svc (sd_app sd)) = Some (MemorySink (NewMemory 1000))"
    "svc_sink (app_svc s) = Some (MemorySink m)" "mem_entries m = [e]" by blast
  from signals_accountable [OF r(1) demo_world_facts(3) r(2-4)] r(5)
  have "authorised (sd_identity sd) [Served CancelSession demo_admin_request resp] e" by (simp add: NewMemory_def)
  with r(1,2,4,5) show ?thesis by blast
qed

text \<open>C9: The metrics page of a running program tells its history: the number of polls, of failed
  polls and their durations, for each action the number of signals that were and were not
  delivered as the responses reported them, the version, and the state of the connection as the
  poller has it.\<close>

theorem metrics_page_exact:
  assumes "run_start w path = Inr sd" "running (wd_sql w) (sd_cfg sd) (sd_identity sd) (sd_app sd) evs s"
    and "dp_metrics dp = Some (v, page)" "serve dp MetricsPage r s = Some (s', resp)"
    and "cluster = cfg_ClusterName (sd_cfg sd)"
  shows "\<exists>fams. resp = page fams \<and> s' = s \<and>
    page_count fams ''pglockr_polls_total'' [cluster] = length (polled evs) \<and>
    page_count fams ''pglockr_poll_errors_total'' [cluster] = length (filter failed (polled evs)) \<and>
    (polled evs \<noteq> [] \<longrightarrow>
       page_sample fams ''pglockr_poll_duration_seconds'' [cluster] = Some (Durations (map in_elapsed (polled evs)))) \<and>
    (\<forall>action d. page_count fams ''pglockr_actions_total'' [action, boolLabel d] = length (filter (acted action d) evs)) \<and>
    page_sample fams ''pglockr_build_info'' [wd_version w] = Some (Value 1) \<and>
    page_sample fams ''pglockr_connected'' [ps_Cluster (Status (app_poller s))] = Some (Value (b2f (ps_Connected (Status (app_poller s)))))"
proof -
  from run_start_Inr [OF assms(1)] have s0: "pl_obs (app_poller (sd_app sd)) = Some []"
    "svc_obs (app_svc (sd_app sd)) = Some (New_metrics (wd_version w))" "cluster = pl_cluster (app_poller (sd_app sd))"
    by (auto simp: assms(5) start_poller_def SetMetrics_poller_def SetMetrics_def New_service_def New_poller_def)
  note hist = counted_history [OF assms(2) s0 refl, of v]
  let ?st = "Status (app_poller s)"
  from metrics_page [OF assms(3,4)] obtain snap ok where
    page: "resp = page (Gather (counted v s) (Collect_live (ps_Cluster ?st, ps_Connected ?st) (snap, ok)))" "s' = s"
    by (metis surj_pair)
  let ?fams = "Gather (counted v s) (Collect_live (ps_Cluster ?st, ps_Connected ?st) (snap, ok))"
  have "page_sample ?fams ''pglockr_poll_duration_seconds'' [cluster] = Some (Durations (map in_elapsed (polled evs)))" if "polled evs \<noteq> []"
    unfolding page_counters using hist(3) that by (auto simp: observed_def split: option.splits)
  note facts = page this hist(1,2,4) [folded page_counters(1-3) [where gs = "Collect_live (ps_Cluster ?st, ps_Connected ?st) (snap, ok)"]]
    page_build_info [of "counted v s", unfolded hist(5)] page_gauges(1) [OF refl]
  show ?thesis by (intro exI [of _ ?fams] conjI allI impI; rule facts; assumption?)
qed

theorem metrics_page_exact_witness:
  "\<exists>sd s s' fams. run_start demo_world ''f'' = Inr sd \<and>
     serve (demo_serving (sd_identity sd)) MetricsPage demo_request s = Some (s', writeJSON 200 (JFamilies fams)) \<and>
     page_count fams ''pglockr_polls_total'' [cfg_ClusterName demo_redacting] = 1"
proof -
  from demo_run obtain sd p where r: "run_start demo_world ''f'' = Inr sd"
    "running (wd_sql demo_world) (sd_cfg sd) (sd_identity sd) (sd_app sd) [Polled demo_raw] ((sd_app sd)\<lparr>app_poller := p\<rparr>)" by blast
  let ?dp = "demo_serving (sd_identity sd)" and ?s = "(sd_app sd)\<lparr>app_poller := p\<rparr>"
  have "app_ok sink_ok ?s" by (rule running_ok [OF r(2) started_ok(1) [OF r(1) demo_world_facts(3)]])
  have "map_order (dp_ordC ?dp)" by (simp add: demo_serving_def key_order.map_order_axioms)
  from serve_ok [OF wired_sink [OF demo_serving_wired] this \<open>app_ok sink_ok ?s\<close>]
  obtain s' resp where s': "serve ?dp MetricsPage demo_request ?s = Some (s', resp)"
    unfolding returns_ok_def by blast
  have "dp_metrics ?dp = Some (''dev'', \<lambda>fams. writeJSON 200 (JFamilies fams))" by (simp add: demo_serving_def)
  from metrics_page_exact [OF r this s' refl] s' r(1) demo_admin(1) [OF r(1)] show ?thesis by auto
qed



text \<open>The command without arguments in the world above: it serves until it is interrupted.\<close>

definition demo_schedule :: "action list" where
  "demo_schedule = [Interrupt, CallShutdown, ServeReturns, RunDefer, RunDefer, RunDefer, ExitMain]"

theorem main_status_witness:
  "\<exists>res. main_exec ''dev'' (runGrants id (\<lambda>args. Inl ''usage'') (Inl ''rand'')) (\<lambda>args. Inr ''f'') (run_status demo_world demo_schedule)
      [''pglockr''] = Some res \<and> mr_code res = 0"
proof -
  obtain sd where sd: "run_start demo_world ''f'' = Inr sd" using demo_run by blast
  have "\<not> pe_Enabled (cfg_Persist (sd_cfg sd))" by (simp add: demo_admin(1) [OF sd] demo_redacting_def demo_config_def Defaults_def)
  then have "run_status demo_world demo_schedule ''f'' = Some 0"
    by (simp add: run_status_def sd demo_schedule_def begin_serving_def deferred_def perform_def guarded_def run_defer_def)
  then obtain res where res: "main_exec ''dev'' (runGrants id (\<lambda>args. Inl ''usage'') (Inl ''rand'')) (\<lambda>args. Inr ''f'')
      (run_status demo_world demo_schedule) [''pglockr''] = Some res" by (simp add: main_exec_def)
  have "\<not> list_ex listen_error demo_schedule" by (simp add: demo_schedule_def listen_error_def)
  with main_status [OF res] res sd show ?thesis by auto
qed

end
